(* ===== verification/Prelude.thy ===== *)
theory Prelude
  imports
    Main
    "HOL-Library.Word"
    "HOL-Library.Finite_Map"
    "HOL-Library.Char_ord"
    "HOL-Library.List_Lexorder"
begin

text \<open>
  Shared vocabulary of the development: the Go identifier types of
  \<open>src/plan/ids.go\<close>, the reading of Go's built-in types, the notion of a reachable
  state with the contract of an invariant, and the list and finite-map lemmas the
  components share.

  Conventions used by every theory:
  \<^item> \<open>uint64\<close> identifiers are \<open>64 word\<close>, so counters wrap as in Go; \<open>int\<close> values that
    are only compared or used as indices are mathematical integers, and \<open>int64\<close> sums
    are reduced by \<open>to_int64\<close>;
  \<^item> a Go \<open>string\<close> is a list of bytes, HOL's \<open>string\<close>;
  \<^item> a pointer that may be \<open>nil\<close> is an \<open>option\<close>; a Go map is a finite map \<open>fmap\<close>;
  \<^item> a function that returns only an \<open>error\<close> returns an \<open>option\<close> (\<open>None\<close> is \<open>nil\<close>);
    one that returns a value and an \<open>error\<close> returns a sum whose \<open>Inl\<close> is the error.
\<close>

section \<open>Identifiers\<close>

type_synonym RDDID = "64 word"
type_synonym JobID = "64 word"
type_synonym StageID = "64 word"
type_synonym ShuffleID = "64 word"
type_synonym TaskID = "64 word"
type_synonym PartitionID = int
type_synonym StageAttemptID = "64 word"
type_synonym TaskAttemptID = "64 word"
type_synonym WorkerID = string

text \<open>Go's two's complement reading of a 64-bit sum.\<close>

definition to_int64 :: "int \<Rightarrow> int" where
  "to_int64 x = (x + 2 ^ 63) mod 2 ^ 64 - 2 ^ 63"

named_theorems go_simps \<open>rewrite rules for the Go built-ins the model uses\<close>

lemma to_int64_id [go_simps]: "- (2 ^ 63) \<le> x \<Longrightarrow> x < 2 ^ 63 \<Longrightarrow> to_int64 x = x"
  by (simp add: to_int64_def)

lemma to_int64_bounds: "- (2 ^ 63) \<le> to_int64 x" "to_int64 x < 2 ^ 63"
  by (simp_all add: to_int64_def)

lemma to_int64_add: "to_int64 (to_int64 x + y) = to_int64 (x + y)"
proof -
  have "(((x + 2 ^ 63) mod 2 ^ 64 - 2 ^ 63) + y + 2 ^ 63) mod 2 ^ 64 = (x + y + 2 ^ 63) mod (2 ^ 64 :: int)"
    by (simp add: mod_simps algebra_simps)
  then show ?thesis by (simp add: to_int64_def)
qed

section \<open>Contexts\<close>

text \<open>
  A \<open>context.Context\<close> is a handle; what \<open>ctx.Err()\<close> returns is decided outside the
  component, so operations that read it take the current reading as an argument.
\<close>

datatype ctx_err = Canceled | DeadlineExceeded

type_synonym ctx = nat
type_synonym ctx_env = "ctx \<Rightarrow> ctx_err option"

section \<open>Reachable states and invariants\<close>

inductive reach :: "('s \<Rightarrow> bool) \<Rightarrow> ('s \<Rightarrow> 's \<Rightarrow> bool) \<Rightarrow> 's \<Rightarrow> bool"
  for init :: "'s \<Rightarrow> bool" and step :: "'s \<Rightarrow> 's \<Rightarrow> bool"
where
  reach_init: "init s \<Longrightarrow> reach init step s"
| reach_step: "reach init step s \<Longrightarrow> step s t \<Longrightarrow> reach init step t"

text \<open>The contract of an invariant: it holds initially and every step keeps it.\<close>

locale invariant_system =
  fixes init :: "'s \<Rightarrow> bool"
    and step :: "'s \<Rightarrow> 's \<Rightarrow> bool"
    and inv :: "'s \<Rightarrow> bool"
  assumes inv_init: "init s \<Longrightarrow> inv s"
    and inv_step: "inv s \<Longrightarrow> step s t \<Longrightarrow> inv t"
begin

lemma reach_inv: "reach init step s \<Longrightarrow> inv s"
  by (induction rule: reach.induct) (auto intro: inv_init inv_step)

lemma rtranclp_inv: "step\<^sup>*\<^sup>* s t \<Longrightarrow> inv s \<Longrightarrow> inv t"
  by (induction rule: rtranclp_induct) (auto intro: inv_step)

end

section \<open>Finite maps\<close>

text \<open>Mutation of the entry a pointer stored in a map refers to.\<close>

definition fmadjust :: "'k \<Rightarrow> ('v \<Rightarrow> 'v) \<Rightarrow> ('k, 'v) fmap \<Rightarrow> ('k, 'v) fmap" where
  "fmadjust k f m = (case fmlookup m k of None \<Rightarrow> m | Some v \<Rightarrow> fmupd k (f v) m)"

lemma fmlookup_fmadjust [simp]:
  "fmlookup (fmadjust k f m) x = (if x = k then map_option f (fmlookup m x) else fmlookup m x)"
  by (auto simp: fmadjust_def split: option.splits)

lemma fmdom_fmadjust [simp]: "fmdom (fmadjust k f m) = fmdom m"
  by (auto simp: fmadjust_def fmlookup_dom_iff intro!: fset_eqI split: option.splits)

section \<open>Lists\<close>

text \<open>The first error of a loop that stops at the first failing check.\<close>

fun first_error :: "('a \<Rightarrow> 'e option) \<Rightarrow> 'a list \<Rightarrow> 'e option" where
  "first_error f [] = None"
| "first_error f (x # xs) = (case f x of Some e \<Rightarrow> Some e | None \<Rightarrow> first_error f xs)"

lemma first_error_None [simp]: "first_error f xs = None \<longleftrightarrow> (\<forall>x \<in> set xs. f x = None)"
  by (induction xs) (auto split: option.splits)

lemma first_error_Some: "first_error f xs = Some e \<Longrightarrow> \<exists>x \<in> set xs. f x = Some e"
  by (induction xs) (auto split: option.splits)

lemma length_filter_list_update:
  assumes "i < length xs"
  shows "length (filter P (xs[i := y])) + (if P (xs ! i) then 1 else 0)
       = length (filter P xs) + (if P y then 1 else 0)"
  using assms
proof (induction xs arbitrary: i)
  case (Cons x xs)
  then show ?case by (cases i) auto
qed simp

lemma in_set_list_updateD: "x \<in> set (xs[i := y]) \<Longrightarrow> x = y \<or> x \<in> set xs"
  by (meson insertE set_update_subset_insert subsetD)

section \<open>Words\<close>

lemma unat_plus_one: "(b :: 64 word) \<noteq> - 1 \<Longrightarrow> unat (b + 1) = Suc (unat b)"
proof -
  assume b: "b \<noteq> - 1"
  have "unat (- 1 :: 64 word) = 2 ^ 64 - 1" by (simp add: unsigned_minus_1_eq_mask mask_eq_exp_minus_1)
  with b have "unat b \<noteq> 2 ^ 64 - 1" by (metis word_unat_eq_iff)
  moreover have "unat b < 2 ^ 64" using unsigned_less[of b] by simp
  ultimately show ?thesis by (simp add: unat_word_ariths)
qed

lemma less_plus_one: "(a :: 64 word) \<le> b \<Longrightarrow> b \<noteq> - 1 \<Longrightarrow> a < b + 1"
  by (simp add: word_less_nat_alt word_le_nat_alt unat_plus_one)

end
