(* ===== verification/Plan_Graph.thy ===== *)
theory Plan_Graph
  imports Prelude
begin

text \<open>
  The lineage graph of \<open>src/plan\<close>: RDD nodes and their dependencies
  (\<open>dependency.go\<close>, \<open>operator.go\<close>, \<open>partitioner.go\<close>, \<open>rdd_node.go\<close>), the graph with its
  identifier counters (\<open>graph.go\<close>) and the depth-first validation of the lineage an
  action needs (\<open>validate.go\<close>). The validation is shown to accept exactly the targets
  whose lineage is well formed and free of cycles.
\<close>

section \<open>Data\<close>

datatype DependencyKind = DependencyNarrow | DependencyShuffle | DependencyKindOther string

datatype NarrowMapping = NarrowOneToOne | NarrowMappingOther string

record NarrowDependencySpec =
  nds_Mapping :: NarrowMapping

datatype PartitionerKind = PartitionerHash | PartitionerKindOther string

record PartitionerSpec =
  ps_Kind :: PartitionerKind
  ps_NumPartitions :: int

definition HashPartitioner :: "int \<Rightarrow> PartitionerSpec" where
  "HashPartitioner numPartitions = \<lparr>ps_Kind = PartitionerHash, ps_NumPartitions = numPartitions\<rparr>"

record ShuffleDependencySpec =
  sds_ShuffleID :: ShuffleID
  sds_Partitioner :: PartitionerSpec
  sds_AggregatorID :: string
  sds_MapSideCombine :: bool

record Dependency =
  dep_Kind :: DependencyKind
  dep_ParentID :: RDDID
  dep_Narrow :: "NarrowDependencySpec option"
  dep_Shuffle :: "ShuffleDependencySpec option"

datatype OperatorKind =
    OpSource
  | OpMap
  | OpFilter
  | OpMapToPair
  | OpMapValues
  | OpReduceByKey
  | OperatorKindOther string

record OperatorSpec =
  op_Kind :: OperatorKind
  op_FunctionID :: string
  op_SourcePath :: string

record RDDNode =
  node_ID :: RDDID
  node_Name :: string
  node_Operator :: OperatorSpec
  node_Dependencies :: "Dependency list"
  node_NumPartitions :: int
  node_Partitioner :: "PartitionerSpec option"

record RDDGraph =
  nextRDDID :: RDDID
  nextShuffleID :: ShuffleID
  nodes :: "(RDDID, RDDNode) fmap"

text \<open>The zero value of \<open>RDDNode\<close>, which a Go map lookup of a missing key yields.\<close>

definition zeroRDDNode :: RDDNode where
  "zeroRDDNode = \<lparr>node_ID = 0, node_Name = [],
     node_Operator = \<lparr>op_Kind = OperatorKindOther [], op_FunctionID = [], op_SourcePath = []\<rparr>,
     node_Dependencies = [], node_NumPartitions = 0, node_Partitioner = None\<rparr>"

section \<open>Shape checks\<close>

datatype PartitionerError =
    UnsupportedPartitionerKind PartitionerKind
  | InvalidPartitionerCount int

datatype DependencyError =
    NarrowSpecOnly
  | UnsupportedNarrowMapping NarrowMapping
  | ShuffleSpecOnly
  | ShufflePartitionerError PartitionerError
  | UnsupportedDependencyKind DependencyKind

datatype ShapeError =
    InvalidPartitionCount string int
  | NodePartitionerError string PartitionerError
  | PartitionerCountMismatch string int int
  | NodeDependencyError string nat DependencyError

definition validatePartitioner :: "PartitionerSpec \<Rightarrow> PartitionerError option" where
  "validatePartitioner partitioner =
     (if ps_Kind partitioner \<noteq> PartitionerHash
      then Some (UnsupportedPartitionerKind (ps_Kind partitioner))
      else if ps_NumPartitions partitioner \<le> 0
      then Some (InvalidPartitionerCount (ps_NumPartitions partitioner))
      else None)"

definition validateDependencyShape :: "Dependency \<Rightarrow> DependencyError option" where
  "validateDependencyShape dependency =
     (case dep_Kind dependency of
        DependencyNarrow \<Rightarrow>
          (case (dep_Narrow dependency, dep_Shuffle dependency) of
             (Some narrow, None) \<Rightarrow>
               (if nds_Mapping narrow \<noteq> NarrowOneToOne
                then Some (UnsupportedNarrowMapping (nds_Mapping narrow)) else None)
           | _ \<Rightarrow> Some NarrowSpecOnly)
      | DependencyShuffle \<Rightarrow>
          (case (dep_Shuffle dependency, dep_Narrow dependency) of
             (Some shuffle, None) \<Rightarrow>
               map_option ShufflePartitionerError (validatePartitioner (sds_Partitioner shuffle))
           | _ \<Rightarrow> Some ShuffleSpecOnly)
      | other \<Rightarrow> Some (UnsupportedDependencyKind other))"

definition validateNodeShape :: "RDDNode \<Rightarrow> ShapeError option" where
  "validateNodeShape node =
     (if node_NumPartitions node \<le> 0
      then Some (InvalidPartitionCount (node_Name node) (node_NumPartitions node))
      else case (case node_Partitioner node of
                   None \<Rightarrow> None
                 | Some partitioner \<Rightarrow>
                     (case validatePartitioner partitioner of
                        Some err \<Rightarrow> Some (NodePartitionerError (node_Name node) err)
                      | None \<Rightarrow>
                          (if ps_NumPartitions partitioner \<noteq> node_NumPartitions node
                           then Some (PartitionerCountMismatch (node_Name node)
                                  (node_NumPartitions node) (ps_NumPartitions partitioner))
                           else None)))
           of Some err \<Rightarrow> Some err
            | None \<Rightarrow>
                first_error (\<lambda>(i, dependency).
                    map_option (NodeDependencyError (node_Name node) i)
                      (validateDependencyShape dependency))
                  (enumerate 0 (node_Dependencies node)))"

section \<open>Graph operations\<close>

definition NewRDDGraph :: RDDGraph where
  "NewRDDGraph = \<lparr>nextRDDID = 0, nextShuffleID = 0, nodes = fmempty\<rparr>"

definition NewShuffleID :: "RDDGraph \<Rightarrow> ShuffleID \<times> RDDGraph" where
  "NewShuffleID g = (nextShuffleID g, g\<lparr>nextShuffleID := nextShuffleID g + 1\<rparr>)"

text \<open>
  Cloning a node copies the metadata it points to. Values are immutable here, so the
  clone is the value itself, rebuilt field by field as the code does.
\<close>

definition cloneDependency :: "Dependency \<Rightarrow> Dependency" where
  "cloneDependency dependency =
     dependency\<lparr>dep_Narrow := map_option (\<lambda>n. n) (dep_Narrow dependency),
                dep_Shuffle := map_option (\<lambda>s. s) (dep_Shuffle dependency)\<rparr>"

definition cloneRDDNode :: "RDDNode \<Rightarrow> RDDNode" where
  "cloneRDDNode node =
     node\<lparr>node_Partitioner := map_option (\<lambda>p. p) (node_Partitioner node),
          node_Dependencies := map cloneDependency (node_Dependencies node)\<rparr>"

definition AddNode :: "RDDGraph \<Rightarrow> RDDNode \<Rightarrow> ShapeError + RDDID \<times> RDDGraph" where
  "AddNode g node =
     (case validateNodeShape node of
        Some err \<Rightarrow> Inl err
      | None \<Rightarrow>
          let rid = nextRDDID g
          in Inr (rid, g\<lparr>nextRDDID := rid + 1,
                        nodes := fmupd rid (cloneRDDNode (node\<lparr>node_ID := rid\<rparr>)) (nodes g)\<rparr>))"

definition Node :: "RDDGraph \<Rightarrow> RDDID \<Rightarrow> RDDNode option" where
  "Node g rid = map_option cloneRDDNode (fmlookup (nodes g) rid)"

definition Nodes :: "RDDGraph \<Rightarrow> RDDNode list" where
  "Nodes g = List.map_filter (Node g) (map of_nat [0 ..< unat (nextRDDID g)])"

definition Len :: "RDDGraph \<Rightarrow> nat" where
  "Len g = fcard (fmdom (nodes g))"

section \<open>Validation of a target's lineage\<close>

datatype OperatorError =
    SourcePathEmpty
  | SourceHasDependencies
  | FunctionIDEmpty OperatorKind
  | RequiresOneNarrowDependency OperatorKind
  | RequiresOneShuffleDependency OperatorKind
  | UnsupportedOperatorKind OperatorKind

datatype ValidateError =
    GraphIsNil RDDID
  | TargetDoesNotExist RDDID
  | LineageCycle RDDID string
  | NodeShape RDDID string ShapeError
  | NodeOperator RDDID string OperatorError
  | MissingParent RDDID string nat RDDID
  | ReduceCountMismatch RDDID string int int
  | OutOfFuel

datatype visitState = visitUnseen | visitActive | visitDone

type_synonym visits = "(RDDID, visitState) fmap"

definition visit :: "visits \<Rightarrow> RDDID \<Rightarrow> visitState" where
  "visit states rid = (case fmlookup states rid of None \<Rightarrow> visitUnseen | Some v \<Rightarrow> v)"

definition validateOperator :: "RDDNode \<Rightarrow> OperatorError option" where
  "validateOperator node =
     (let kind = op_Kind (node_Operator node); deps = node_Dependencies node in
      case kind of
        OpSource \<Rightarrow>
          (if op_SourcePath (node_Operator node) = [] then Some SourcePathEmpty
           else if deps \<noteq> [] then Some SourceHasDependencies
           else None)
      | OpReduceByKey \<Rightarrow>
          (if op_FunctionID (node_Operator node) = [] then Some (FunctionIDEmpty kind)
           else if length deps \<noteq> 1 \<or> dep_Kind (hd deps) \<noteq> DependencyShuffle
           then Some (RequiresOneShuffleDependency kind)
           else None)
      | OperatorKindOther _ \<Rightarrow> Some (UnsupportedOperatorKind kind)
      | _ \<Rightarrow>
          (if op_FunctionID (node_Operator node) = [] then Some (FunctionIDEmpty kind)
           else if length deps \<noteq> 1 \<or> dep_Kind (hd deps) \<noteq> DependencyNarrow
           then Some (RequiresOneNarrowDependency kind)
           else None))"

text \<open>
  \<open>dependency.Shuffle.Partitioner.NumPartitions\<close>. A shuffle dependency whose
  specification is \<open>nil\<close> has been rejected by \<open>validateNodeShape\<close> before this is read.
\<close>

definition shuffleCount :: "Dependency \<Rightarrow> int" where
  "shuffleCount dependency =
     (case dep_Shuffle dependency of None \<Rightarrow> 0 | Some shuffle \<Rightarrow> ps_NumPartitions (sds_Partitioner shuffle))"

text \<open>
  The recursion of \<open>validateFrom\<close> carries fuel; \<open>None\<close> means the fuel ran out. The
  caller supplies one unit more than the graph has nodes, which is shown to be enough.
\<close>

fun validateFrom :: "nat \<Rightarrow> RDDGraph \<Rightarrow> RDDID \<Rightarrow> visits \<Rightarrow> (ValidateError + visits) option"
  and validateDependencies ::
    "nat \<Rightarrow> RDDGraph \<Rightarrow> RDDNode \<Rightarrow> nat \<Rightarrow> Dependency list \<Rightarrow> visits \<Rightarrow> (ValidateError + visits) option"
where
  "validateFrom 0 g rid states = None"
| "validateFrom (Suc fuel) g rid states =
     (let node = (case fmlookup (nodes g) rid of None \<Rightarrow> zeroRDDNode | Some n \<Rightarrow> n) in
      case visit states rid of
        visitActive \<Rightarrow> Some (Inl (LineageCycle (node_ID node) (node_Name node)))
      | visitDone \<Rightarrow> Some (Inr states)
      | visitUnseen \<Rightarrow>
          (case validateNodeShape node of
             Some err \<Rightarrow> Some (Inl (NodeShape (node_ID node) (node_Name node) err))
           | None \<Rightarrow>
               (case validateOperator node of
                  Some err \<Rightarrow> Some (Inl (NodeOperator (node_ID node) (node_Name node) err))
                | None \<Rightarrow>
                    (case validateDependencies fuel g node 0 (node_Dependencies node)
                            (fmupd rid visitActive states) of
                       None \<Rightarrow> None
                     | Some (Inl err) \<Rightarrow> Some (Inl err)
                     | Some (Inr states') \<Rightarrow> Some (Inr (fmupd rid visitDone states'))))))"
| "validateDependencies fuel g node i [] states = Some (Inr states)"
| "validateDependencies fuel g node i (dependency # rest) states =
     (case fmlookup (nodes g) (dep_ParentID dependency) of
        None \<Rightarrow> Some (Inl (MissingParent (node_ID node) (node_Name node) i (dep_ParentID dependency)))
      | Some parent \<Rightarrow>
          (if dep_Kind dependency = DependencyShuffle \<and> shuffleCount dependency \<noteq> node_NumPartitions node
           then Some (Inl (ReduceCountMismatch (node_ID node) (node_Name node)
                  (node_NumPartitions node) (shuffleCount dependency)))
           else
             (case validateFrom fuel g (node_ID parent) states of
                None \<Rightarrow> None
              | Some (Inl err) \<Rightarrow> Some (Inl err)
              | Some (Inr states') \<Rightarrow> validateDependencies fuel g node (Suc i) rest states')))"

definition validate_fuel :: "RDDGraph \<Rightarrow> nat" where
  "validate_fuel g = Suc (fcard (fmdom (nodes g)))"

definition Validate :: "RDDGraph option \<Rightarrow> RDDID \<Rightarrow> ValidateError option" where
  "Validate graph target =
     (case graph of
        None \<Rightarrow> Some (GraphIsNil target)
      | Some g \<Rightarrow>
          (case fmlookup (nodes g) target of
             None \<Rightarrow> Some (TargetDoesNotExist target)
           | Some _ \<Rightarrow>
               (case validateFrom (validate_fuel g) g target fmempty of
                  None \<Rightarrow> Some OutOfFuel
                | Some (Inl err) \<Rightarrow> Some err
                | Some (Inr _) \<Rightarrow> None)))"

section \<open>What a valid lineage is\<close>

text \<open>The checks one node of the lineage must pass.\<close>

definition node_ok :: "RDDGraph \<Rightarrow> RDDNode \<Rightarrow> bool" where
  "node_ok g n \<longleftrightarrow>
     validateNodeShape n = None \<and> validateOperator n = None \<and>
     (\<forall>d \<in> set (node_Dependencies n).
        dep_ParentID d |\<in>| fmdom (nodes g) \<and>
        (dep_Kind d = DependencyShuffle \<longrightarrow> shuffleCount d = node_NumPartitions n))"

text \<open>Edges lead from a node to the stored parents of its dependencies.\<close>

definition parent_edges :: "RDDGraph \<Rightarrow> (RDDID \<times> RDDID) set" where
  "parent_edges g = {(a, b). \<exists>n d p. fmlookup (nodes g) a = Some n \<and> d \<in> set (node_Dependencies n) \<and>
     fmlookup (nodes g) (dep_ParentID d) = Some p \<and> b = node_ID p}"

inductive valid_lineage :: "RDDGraph \<Rightarrow> RDDID \<Rightarrow> bool" for g :: RDDGraph where
  valid_lineage: "fmlookup (nodes g) a = Some n \<Longrightarrow> node_ok g n \<Longrightarrow>
    (\<And>b. (a, b) \<in> parent_edges g \<Longrightarrow> valid_lineage g b) \<Longrightarrow> valid_lineage g a"

inductive_cases valid_lineageE: "valid_lineage g a"

lemma valid_lineage_parent: "valid_lineage g a \<Longrightarrow> (a, b) \<in> parent_edges g \<Longrightarrow> valid_lineage g b"
  by (auto elim: valid_lineageE)

lemma valid_lineage_rtrancl: "(a, b) \<in> (parent_edges g)\<^sup>* \<Longrightarrow> valid_lineage g a \<Longrightarrow> valid_lineage g b"
  by (induction rule: rtrancl_induct) (auto intro: valid_lineage_parent)

lemma valid_lineage_acyclic: "valid_lineage g a \<Longrightarrow> (a, a) \<notin> (parent_edges g)\<^sup>+"
proof (induction rule: valid_lineage.induct)
  case (valid_lineage a n)
  show ?case
  proof
    assume "(a, a) \<in> (parent_edges g)\<^sup>+"
    then obtain b where ab: "(a, b) \<in> parent_edges g" and ba: "(b, a) \<in> (parent_edges g)\<^sup>*"
      by (meson tranclD)
    then have "(b, b) \<in> (parent_edges g)\<^sup>+" by (simp add: rtrancl_into_trancl1)
    with valid_lineage(4)[OF ab] show False by contradiction
  qed
qed

section \<open>Fuel: the search ends before it runs out\<close>

definition actives :: "visits \<Rightarrow> RDDID set" where
  "actives states = {a. visit states a = visitActive}"

definition unfinished :: "RDDGraph \<Rightarrow> visits \<Rightarrow> nat" where
  "unfinished g states = card (fmdom' (nodes g) - actives states)"

lemma visit_fmupd [simp]: "visit (fmupd a v states) b = (if b = a then v else visit states b)"
  by (simp add: visit_def)

lemma visit_fmempty [simp]: "visit fmempty a = visitUnseen"
  by (simp add: visit_def)

lemma zeroRDDNode_shape: "validateNodeShape zeroRDDNode \<noteq> None"
  by (simp add: validateNodeShape_def zeroRDDNode_def)

lemma validateFrom_InrE:
  assumes "validateFrom (Suc fuel) g rid states = Some (Inr states')"
  obtains (done') "visit states rid = visitDone" "states' = states"
  | (unseen) n states1 where "visit states rid = visitUnseen" "fmlookup (nodes g) rid = Some n"
      "validateNodeShape n = None" "validateOperator n = None"
      "validateDependencies fuel g n 0 (node_Dependencies n) (fmupd rid visitActive states) = Some (Inr states1)"
      "states' = fmupd rid visitDone states1"
  using assms zeroRDDNode_shape
  by (auto simp: Let_def split: visitState.splits option.splits sum.splits)

lemma validateDependencies_InrE:
  assumes "validateDependencies fuel g node i (d # ds) states = Some (Inr states')"
  obtains p states1 where "fmlookup (nodes g) (dep_ParentID d) = Some p"
    "dep_Kind d = DependencyShuffle \<longrightarrow> shuffleCount d = node_NumPartitions node"
    "validateFrom fuel g (node_ID p) states = Some (Inr states1)"
    "validateDependencies fuel g node (Suc i) ds states1 = Some (Inr states')"
  using assms by (auto split: option.splits sum.splits if_splits)

lemma validate_actives:
  shows "validateFrom fuel g rid states = Some (Inr states') \<Longrightarrow> actives states' = actives states"
    and "validateDependencies fuel g node i deps states = Some (Inr states') \<Longrightarrow> actives states' = actives states"
proof (induction fuel g rid states and fuel g node i deps states arbitrary: states' and states'
    rule: validateFrom_validateDependencies.induct)
  case (2 fuel g rid states)
  from 2(2) show ?case
  proof (cases rule: validateFrom_InrE)
    case (unseen n states1)
    then have "actives states1 = actives (fmupd rid visitActive states)"
      using 2(1)[of n states1] by simp
    with unseen show ?thesis by (auto simp: actives_def split: if_splits)
  qed simp
next
  case (4 fuel g node i dependency rest states)
  from 4(3) show ?case
    by (rule validateDependencies_InrE) (use 4(1,2) in fastforce)
qed auto

lemma unfinished_activate:
  assumes "rid |\<in>| fmdom (nodes g)" "visit states rid = visitUnseen"
  shows "unfinished g states = Suc (unfinished g (fmupd rid visitActive states))"
proof -
  have "fmdom' (nodes g) - actives states
      = insert rid (fmdom' (nodes g) - actives (fmupd rid visitActive states))"
    using assms by (auto simp: actives_def fmdom'_alt_def split: if_splits)
  moreover have "rid \<notin> fmdom' (nodes g) - actives (fmupd rid visitActive states)"
    by (simp add: actives_def)
  ultimately show ?thesis by (simp add: unfinished_def)
qed

lemma unfinished_cong: "actives s = actives t \<Longrightarrow> unfinished g s = unfinished g t"
  by (simp add: unfinished_def)

lemma validate_terminates:
  shows "unfinished g states < fuel \<Longrightarrow> validateFrom fuel g rid states \<noteq> None"
    and "unfinished g states < fuel \<Longrightarrow> validateDependencies fuel g node i deps states \<noteq> None"
proof (induction fuel g rid states and fuel g node i deps states
    rule: validateFrom_validateDependencies.induct)
  case (2 fuel g rid states)
  show ?case
  proof (cases "fmlookup (nodes g) rid")
    case None
    then show ?thesis using zeroRDDNode_shape
      by (auto simp: Let_def split: visitState.splits option.splits)
  next
    case (Some n)
    then have dom: "rid |\<in>| fmdom (nodes g)" by (simp add: fmdomI)
    show ?thesis
    proof (cases "visit states rid = visitUnseen \<and> validateNodeShape n = None \<and> validateOperator n = None")
      case True
      with 2(2) unfinished_activate[OF dom] have "unfinished g (fmupd rid visitActive states) < fuel" by simp
      with 2(1)[of n] True Some
      have "validateDependencies fuel g n 0 (node_Dependencies n) (fmupd rid visitActive states) \<noteq> None"
        by simp
      with True Some show ?thesis by (auto split: sum.splits)
    next
      case False
      with Some show ?thesis by (auto split: visitState.splits option.splits)
    qed
  qed
next
  case (4 fuel g node i dependency rest states)
  show ?case
  proof (cases "fmlookup (nodes g) (dep_ParentID dependency)")
    case (Some p)
    then have "validateFrom fuel g (node_ID p) states \<noteq> None \<or>
        (dep_Kind dependency = DependencyShuffle \<and> shuffleCount dependency \<noteq> node_NumPartitions node)"
      using 4(1,3) by auto
    moreover have "validateDependencies fuel g node (Suc i) rest st \<noteq> None"
      if "validateFrom fuel g (node_ID p) states = Some (Inr st)"
        "\<not> (dep_Kind dependency = DependencyShuffle \<and> shuffleCount dependency \<noteq> node_NumPartitions node)" for st
      using 4(2)[OF Some that(2) that(1)] 4(3) validate_actives(1)[OF that(1)] unfinished_cong[of st states g]
      by auto
    ultimately show ?thesis using Some by (auto split: sum.splits)
  qed simp
qed auto

section \<open>Validation accepts exactly the valid lineages\<close>

definition done_valid :: "RDDGraph \<Rightarrow> visits \<Rightarrow> bool" where
  "done_valid g states \<longleftrightarrow> (\<forall>a. visit states a = visitDone \<longrightarrow> valid_lineage g a)"

lemma validate_sound:
  shows "validateFrom fuel g rid states = Some (Inr states') \<Longrightarrow> done_valid g states \<Longrightarrow>
      valid_lineage g rid \<and> done_valid g states'"
    and "validateDependencies fuel g node i deps states = Some (Inr states') \<Longrightarrow> done_valid g states \<Longrightarrow>
      done_valid g states' \<and>
      (\<forall>d \<in> set deps. (dep_Kind d = DependencyShuffle \<longrightarrow> shuffleCount d = node_NumPartitions node) \<and>
         (\<exists>p. fmlookup (nodes g) (dep_ParentID d) = Some p \<and> valid_lineage g (node_ID p)))"
proof (induction fuel g rid states and fuel g node i deps states arbitrary: states' and states'
    rule: validateFrom_validateDependencies.induct)
  case (2 fuel g rid states)
  from 2(2) show ?case
  proof (cases rule: validateFrom_InrE)
    case done'
    with 2(3) show ?thesis by (simp add: done_valid_def)
  next
    case (unseen n states1)
    have "done_valid g (fmupd rid visitActive states)"
      using 2(3) by (simp add: done_valid_def)
    with 2(1)[of n states1] unseen
    have "done_valid g states1"
      and deps: "\<And>d. d \<in> set (node_Dependencies n) \<Longrightarrow>
        (dep_Kind d = DependencyShuffle \<longrightarrow> shuffleCount d = node_NumPartitions n) \<and>
        (\<exists>p. fmlookup (nodes g) (dep_ParentID d) = Some p \<and> valid_lineage g (node_ID p))"
      by simp_all
    moreover have "valid_lineage g rid"
    proof (rule valid_lineage)
      show "fmlookup (nodes g) rid = Some n" by (fact unseen)
      show "node_ok g n" using unseen deps by (fastforce simp: node_ok_def intro: fmdomI)
      show "valid_lineage g b" if "(rid, b) \<in> parent_edges g" for b
        using that deps unseen by (fastforce simp: parent_edges_def)
    qed
    ultimately show ?thesis using unseen by (simp add: done_valid_def)
  qed
next
  case (4 fuel g node i d ds states)
  from 4(3) show ?case
  proof (rule validateDependencies_InrE)
    fix p states1
    assume A: "fmlookup (nodes g) (dep_ParentID d) = Some p"
      "dep_Kind d = DependencyShuffle \<longrightarrow> shuffleCount d = node_NumPartitions node"
      "validateFrom fuel g (node_ID p) states = Some (Inr states1)"
      "validateDependencies fuel g node (Suc i) ds states1 = Some (Inr states')"
    then have B: "\<not> (dep_Kind d = DependencyShuffle \<and> shuffleCount d \<noteq> node_NumPartitions node)" by simp
    from 4(1)[OF A(1) B A(3) 4(4)] have "valid_lineage g (node_ID p)" "done_valid g states1" by simp_all
    with 4(2)[OF A(1) B A(3) refl A(4)] A(1,2) show ?thesis by auto
  qed
qed auto

lemma validate_complete:
  shows "valid_lineage g rid \<Longrightarrow> (\<And>a. a \<in> actives states \<Longrightarrow> (rid, a) \<notin> (parent_edges g)\<^sup>*) \<Longrightarrow>
      validateFrom fuel g rid states \<noteq> Some (Inl err)"
    and "(\<forall>d \<in> set deps. (dep_Kind d = DependencyShuffle \<longrightarrow> shuffleCount d = node_NumPartitions node) \<and>
         (\<exists>p. fmlookup (nodes g) (dep_ParentID d) = Some p \<and> valid_lineage g (node_ID p) \<and>
           (\<forall>a \<in> actives states. (node_ID p, a) \<notin> (parent_edges g)\<^sup>*))) \<Longrightarrow>
      validateDependencies fuel g node i deps states \<noteq> Some (Inl err)"
proof (induction fuel g rid states and fuel g node i deps states
    rule: validateFrom_validateDependencies.induct)
  case (2 fuel g rid states)
  from 2(2) obtain n where n: "fmlookup (nodes g) rid = Some n" "node_ok g n"
    and par: "\<And>b. (rid, b) \<in> parent_edges g \<Longrightarrow> valid_lineage g b"
    by (rule valid_lineageE) blast
  have notact: "rid \<notin> actives states" using 2(3) by auto
  show ?case
  proof (cases "visit states rid = visitUnseen")
    case True
    have "\<exists>p. fmlookup (nodes g) (dep_ParentID d) = Some p \<and> valid_lineage g (node_ID p) \<and>
           (\<forall>a \<in> actives (fmupd rid visitActive states). (node_ID p, a) \<notin> (parent_edges g)\<^sup>*)"
      if d: "d \<in> set (node_Dependencies n)" for d
    proof -
      from n d obtain p where p: "fmlookup (nodes g) (dep_ParentID d) = Some p"
        by (auto simp: node_ok_def elim: fmdomE)
      with n d have edge: "(rid, node_ID p) \<in> parent_edges g" by (auto simp: parent_edges_def)
      have "(node_ID p, a) \<notin> (parent_edges g)\<^sup>*" if a: "a \<in> actives (fmupd rid visitActive states)" for a
      proof (cases "a = rid")
        case True
        then show ?thesis using valid_lineage_acyclic[OF 2(2)] edge
          by (meson rtrancl_into_trancl2)
      next
        case False
        with a have "a \<in> actives states" by (simp add: actives_def)
        then show ?thesis using 2(3) edge by (meson converse_rtrancl_into_rtrancl)
      qed
      with p par edge show ?thesis by blast
    qed
    then have "validateDependencies fuel g n 0 (node_Dependencies n) (fmupd rid visitActive states) \<noteq> Some (Inl err)"
      using 2(1)[of n] n True by (auto simp: node_ok_def)
    with n True show ?thesis
      by (auto simp: node_ok_def split: option.splits sum.splits)
  next
    case False
    with notact have "visit states rid = visitDone" by (cases "visit states rid") (auto simp: actives_def)
    then show ?thesis by simp
  qed
next
  case (4 fuel g node i d ds states)
  from 4(3) obtain p where p: "fmlookup (nodes g) (dep_ParentID d) = Some p" "valid_lineage g (node_ID p)"
    "\<forall>a \<in> actives states. (node_ID p, a) \<notin> (parent_edges g)\<^sup>*"
    and B: "\<not> (dep_Kind d = DependencyShuffle \<and> shuffleCount d \<noteq> node_NumPartitions node)"
    by auto
  have ne: "validateFrom fuel g (node_ID p) states \<noteq> Some (Inl err)"
    using 4(1)[OF p(1) B p(2)] p(3) by blast
  have "validateDependencies fuel g node (Suc i) ds st \<noteq> Some (Inl err)"
    if "validateFrom fuel g (node_ID p) states = Some (Inr st)" for st
    using 4(2)[OF p(1) B that refl] 4(3) validate_actives(1)[OF that] by simp
  with ne p(1) B show ?case by (auto split: option.splits sum.splits)
qed auto

lemma validate_fuel_enough: "validateFrom (validate_fuel g) g rid fmempty \<noteq> None"
proof -
  have "unfinished g fmempty \<le> fcard (fmdom (nodes g))"
    by (simp add: unfinished_def actives_def fcard.rep_eq fmdom'_alt_def)
  then show ?thesis by (intro validate_terminates) (simp add: validate_fuel_def)
qed

lemma validate_no_OutOfFuel:
  shows "validateFrom fuel g rid states \<noteq> Some (Inl OutOfFuel)"
    and "validateDependencies fuel g node i deps states \<noteq> Some (Inl OutOfFuel)"
  by (induction fuel g rid states and fuel g node i deps states
      rule: validateFrom_validateDependencies.induct)
    (auto simp: Let_def split: visitState.splits option.splits sum.splits)

lemma valid_lineage_dom: "valid_lineage g a \<Longrightarrow> a |\<in>| fmdom (nodes g)"
  by (auto elim: valid_lineageE intro: fmdomI)

lemma Validate_iff_valid_lineage: "Validate (Some g) target = None \<longleftrightarrow> valid_lineage g target"
proof
  assume "Validate (Some g) target = None"
  then obtain states where "validateFrom (validate_fuel g) g target fmempty = Some (Inr states)"
    by (auto simp: Validate_def split: option.splits sum.splits)
  then show "valid_lineage g target"
    by (rule validate_sound(1)[THEN conjunct1]) (simp add: done_valid_def)
next
  assume vl: "valid_lineage g target"
  then obtain n where "fmlookup (nodes g) target = Some n" by (auto elim: valid_lineageE)
  moreover have "validateFrom (validate_fuel g) g target fmempty \<noteq> Some (Inl err)" for err
    using vl by (rule validate_complete(1)) (simp add: actives_def)
  ultimately show "Validate (Some g) target = None"
    using validate_fuel_enough[of g target]
    by (auto simp: Validate_def split: option.splits sum.splits)
qed

section \<open>The lineage as a graph\<close>

text \<open>Every stored node carries the identifier it is stored under.\<close>

definition graph_wf :: "RDDGraph \<Rightarrow> bool" where
  "graph_wf g \<longleftrightarrow> (\<forall>a n. fmlookup (nodes g) a = Some n \<longrightarrow> node_ID n = a \<and> a < nextRDDID g)"

lemma finite_parent_edges: "finite (parent_edges g)"
proof -
  have "parent_edges g \<subseteq> fmdom' (nodes g) \<times> node_ID ` fmran' (nodes g)"
    by (auto simp: parent_edges_def fmdom'_alt_def intro: fmdomI fmran'I)
  moreover have "finite (fmran' (nodes g))" by (simp add: fmran'_alt_def)
  ultimately show ?thesis by (auto intro: finite_subset)
qed

lemma valid_lineage_if:
  assumes ok: "\<And>a. (target, a) \<in> (parent_edges g)\<^sup>* \<Longrightarrow> \<exists>n. fmlookup (nodes g) a = Some n \<and> node_ok g n"
    and ac: "\<And>a. (target, a) \<in> (parent_edges g)\<^sup>* \<Longrightarrow> (a, a) \<notin> (parent_edges g)\<^sup>+"
  shows "valid_lineage g target"
proof -
  define R where "R = {(a, b) \<in> parent_edges g. (target, a) \<in> (parent_edges g)\<^sup>*}"
  have sub: "R \<subseteq> parent_edges g" by (auto simp: R_def)
  have "finite R" by (rule finite_subset[OF sub finite_parent_edges])
  moreover have "acyclic R"
  proof (rule acyclicI, intro allI notI)
    fix x assume x: "(x, x) \<in> R\<^sup>+"
    then have "(target, x) \<in> (parent_edges g)\<^sup>*"
      by (auto simp: R_def elim: tranclE dest!: tranclD)
    moreover have "(x, x) \<in> (parent_edges g)\<^sup>+" using x sub by (meson subsetD trancl_mono)
    ultimately show False using ac by blast
  qed
  ultimately have wf: "wf (R\<inverse>)" by (rule finite_acyclic_wf_converse)
  have "(target, a) \<in> (parent_edges g)\<^sup>* \<Longrightarrow> valid_lineage g a" for a
    using wf
  proof (induction a rule: wf_induct_rule)
    case (less a)
    from ok[OF less(2)] obtain n where "fmlookup (nodes g) a = Some n" "node_ok g n" by blast
    then show ?case
    proof (rule valid_lineage)
      fix b assume "(a, b) \<in> parent_edges g"
      with less(2) have "(b, a) \<in> R\<inverse>" "(target, b) \<in> (parent_edges g)\<^sup>*"
        by (auto simp: R_def intro: rtrancl_into_rtrancl)
      then show "valid_lineage g b" by (rule less(1))
    qed
  qed
  then show ?thesis by simp
qed

text \<open>
  C6: validation of a target succeeds exactly when the target exists, every node its
  lineage reaches exists and passes the shape, operator and dependency checks, and no
  node of that lineage is its own ancestor. In particular the depth-first search always
  finishes and misses neither a bad ancestor nor a cycle.
\<close>

theorem Validate_correct:
  "Validate (Some g) target = None \<longleftrightarrow>
     (\<forall>a. (target, a) \<in> (parent_edges g)\<^sup>* \<longrightarrow>
        (\<exists>n. fmlookup (nodes g) a = Some n \<and> node_ok g n) \<and> (a, a) \<notin> (parent_edges g)\<^sup>+)"
proof -
  have "valid_lineage g target \<Longrightarrow> (target, a) \<in> (parent_edges g)\<^sup>* \<Longrightarrow>
     (\<exists>n. fmlookup (nodes g) a = Some n \<and> node_ok g n) \<and> (a, a) \<notin> (parent_edges g)\<^sup>+" for a
    using valid_lineage_rtrancl[of target a g] valid_lineage_acyclic[of g a]
    by (blast elim: valid_lineageE)
  then show ?thesis
    using valid_lineage_if[of target g] by (auto simp: Validate_iff_valid_lineage)
qed

text \<open>
  C19: the search behind validation terminates: one unit of fuel per node and one more is
  enough for every graph and target, so the model never reports exhausted fuel.
\<close>

theorem Validate_terminates: "Validate graph target \<noteq> Some OutOfFuel"
proof (cases graph)
  case (Some g)
  with validate_fuel_enough[of g target] validate_no_OutOfFuel(1)[of "validate_fuel g" g target fmempty]
  show ?thesis by (auto simp: Validate_def split: option.splits sum.splits)
qed (simp add: Validate_def)

section \<open>Graph operations keep the graph well formed\<close>

lemma cloneDependency_id [simp]: "cloneDependency = (\<lambda>d. d)"
  by (rule ext) (simp add: cloneDependency_def option.map_ident)

lemma cloneRDDNode_id [simp]: "cloneRDDNode = (\<lambda>n. n)"
  by (rule ext) (simp add: cloneRDDNode_def option.map_ident)

lemma Node_lookup: "Node g rid = fmlookup (nodes g) rid"
  by (simp add: Node_def option.map_ident)

lemma graph_wf_new [simp]: "graph_wf NewRDDGraph"
  by (simp add: graph_wf_def NewRDDGraph_def)

lemma graph_wf_NewShuffleID: "graph_wf g \<Longrightarrow> graph_wf (snd (NewShuffleID g))"
  by (simp add: graph_wf_def NewShuffleID_def)

lemma AddNode_InrE:
  assumes "AddNode g n = Inr (rid, g')"
  obtains "validateNodeShape n = None" "rid = nextRDDID g"
    "g' = g\<lparr>nextRDDID := nextRDDID g + 1, nodes := fmupd rid (n\<lparr>node_ID := rid\<rparr>) (nodes g)\<rparr>"
  using assms by (auto simp: AddNode_def Let_def split: option.splits)

lemma graph_wf_AddNode:
  assumes wf: "graph_wf g" and nw: "nextRDDID g \<noteq> - 1" and add: "AddNode g n = Inr (rid, g')"
  shows "graph_wf g'"
proof -
  have "nextRDDID g < nextRDDID g + 1" by (rule less_plus_one[OF order_refl nw])
  moreover have "a < nextRDDID g \<Longrightarrow> a < nextRDDID g + 1" for a
    by (rule less_plus_one[OF less_imp_le nw])
  ultimately show ?thesis using wf add by (auto simp: graph_wf_def elim!: AddNode_InrE split: if_splits)
qed

text \<open>
  Adding a node to a well-formed graph hands out an identifier no stored node has,
  the new node is found under it exactly as given (with that identifier), every other
  node is unchanged, and the graph stays well formed while the counter does not wrap.
\<close>

theorem AddNode_insert_lookup:
  assumes wf: "graph_wf g" and nw: "nextRDDID g \<noteq> - 1" and add: "AddNode g n = Inr (rid, g')"
  shows "Node g rid = None \<and> Node g' rid = Some (n\<lparr>node_ID := rid\<rparr>) \<and>
    (\<forall>a. a \<noteq> rid \<longrightarrow> Node g' a = Node g a) \<and> graph_wf g' \<and> Len g' = Suc (Len g)"
proof -
  have rid: "rid = nextRDDID g"
    and nodes: "nodes g' = fmupd rid (n\<lparr>node_ID := rid\<rparr>) (nodes g)"
    using add by (auto elim!: AddNode_InrE)
  have none: "fmlookup (nodes g) rid = None"
    using wf by (cases "fmlookup (nodes g) rid") (auto simp: graph_wf_def rid)
  then have "Len g' = Suc (Len g)"
    by (simp add: Len_def nodes fmdom_notI fcard_finsert_disjoint)
  with none graph_wf_AddNode[OF assms] show ?thesis
    by (simp add: Node_lookup nodes)
qed

definition source_node :: RDDNode where
  "source_node = \<lparr>node_ID = 0, node_Name = ''TextFile'',
     node_Operator = \<lparr>op_Kind = OpSource, op_FunctionID = [], op_SourcePath = ''in.txt''\<rparr>,
     node_Dependencies = [], node_NumPartitions = 2, node_Partitioner = None\<rparr>"

theorem AddNode_insert_lookup_witness:
  "\<exists>g'. AddNode NewRDDGraph source_node = Inr (0, g') \<and> Node g' 0 = Some source_node \<and> graph_wf g' \<and> Len g' = 1"
proof -
  obtain g' where g': "AddNode NewRDDGraph source_node = Inr (0, g')"
    by (simp add: AddNode_def source_node_def validateNodeShape_def NewRDDGraph_def)
  have "nextRDDID NewRDDGraph \<noteq> - 1" by (simp add: NewRDDGraph_def)
  from AddNode_insert_lookup[OF graph_wf_new this g'] g' show ?thesis
    by (simp add: source_node_def Len_def NewRDDGraph_def)
qed

definition source_graph :: RDDGraph where
  "source_graph = \<lparr>nextRDDID = 1, nextShuffleID = 0, nodes = fmupd 0 source_node fmempty\<rparr>"

theorem Validate_correct_witness:
  "Validate (Some source_graph) 0 = None \<and> node_ok source_graph source_node \<and>
     (0, 0) \<notin> (parent_edges source_graph)\<^sup>+"
proof -
  have "Validate (Some source_graph) 0 = None" by code_simp
  with Validate_correct[of source_graph 0] show ?thesis
    by (auto simp: source_graph_def)
qed

end
