(* ===== verification/Stage_Planner.thy ===== *)
theory Stage_Planner
  imports Plan_Graph
begin

text \<open>
  Planning in \<open>src/scheduler\<close>: stages, operations and tasks (\<open>stage.go\<close>, \<open>operation.go\<close>,
  \<open>task.go\<close>), the check that every function a lineage names is registered
  (\<open>function_validation.go\<close>), the stage builder (\<open>planner.go\<close>), the generation of logical
  tasks (\<open>task_generator.go\<close>) and the test which plans can be executed
  (\<open>validateExecutionPlan\<close> of \<open>dag_stage_execution.go\<close>). The planner is shown to produce
  a chain of stages linked by their shuffles, and the task list is characterised exactly.
\<close>

section \<open>Stages\<close>

datatype StageKind = StageShuffleMap | StageResult | StageKindOther string

datatype ActionKind = ActionCollect | ActionCount | ActionKindOther string

record ActionSpec =
  act_Kind :: ActionKind
  act_TargetRDD :: RDDID

record ShuffleWriteSpec =
  sw_ShuffleID :: ShuffleID
  sw_Partitioner :: PartitionerSpec
  sw_AggregatorID :: string
  sw_MapSideCombine :: bool

datatype StageOperationKind =
    StageOperationRDD
  | StageOperationShuffleRead
  | StageOperationKindOther string

record RDDOperationSpec =
  ro_RDDID :: RDDID
  ro_Operator :: OperatorSpec

record ShuffleReadSpec =
  sr_ShuffleID :: ShuffleID
  sr_Partitioner :: PartitionerSpec

record StageOperation =
  so_Kind :: StageOperationKind
  so_RDD :: "RDDOperationSpec option"
  so_ShuffleRead :: "ShuffleReadSpec option"

record Stage =
  stage_ID :: StageID
  stage_Kind :: StageKind
  stage_ParentIDs :: "StageID list"
  stage_NumPartitions :: int
  stage_Operations :: "StageOperation list"
  stage_ShuffleWrite :: "ShuffleWriteSpec option"
  stage_FinalAction :: "ActionSpec option"

record StagePlan =
  sp_TargetRDD :: RDDID
  sp_Stages :: "Stage list"

record Task =
  task_ID :: TaskID
  task_StageID :: StageID
  task_StageKind :: StageKind
  task_PartitionID :: PartitionID
  task_NumPartitions :: int
  task_Operations :: "StageOperation list"
  task_ShuffleWrite :: "ShuffleWriteSpec option"
  task_FinalAction :: "ActionSpec option"

section \<open>Registered functions\<close>

record FunctionLookup =
  HasMap :: "string \<Rightarrow> bool"
  HasFilter :: "string \<Rightarrow> bool"
  HasPairMap :: "string \<Rightarrow> bool"
  HasValueMap :: "string \<Rightarrow> bool"
  HasReduce :: "string \<Rightarrow> bool"

datatype NodeFunctionError = FunctionNotRegistered string string

datatype FunctionError =
    LineageInvalid ValidateError
  | FunctionLookupNil RDDID
  | NodeFunction RDDID string NodeFunctionError
  | FunctionsOutOfFuel

definition validateNodeFunction :: "RDDNode \<Rightarrow> FunctionLookup \<Rightarrow> NodeFunctionError option" where
  "validateNodeFunction node functions =
     (let fid = op_FunctionID (node_Operator node);
          check = (\<lambda>kind exists. if exists then None else Some (FunctionNotRegistered kind fid)) in
      case op_Kind (node_Operator node) of
        OpSource \<Rightarrow> None
      | OpMap \<Rightarrow> check ''map'' (HasMap functions fid)
      | OpFilter \<Rightarrow> check ''filter'' (HasFilter functions fid)
      | OpMapToPair \<Rightarrow> check ''pair-map'' (HasPairMap functions fid)
      | OpMapValues \<Rightarrow> check ''value-map'' (HasValueMap functions fid)
      | OpReduceByKey \<Rightarrow> check ''reduce'' (HasReduce functions fid)
      | OperatorKindOther _ \<Rightarrow> check [] False)"

fun functionsFrom :: "nat \<Rightarrow> RDDGraph \<Rightarrow> FunctionLookup \<Rightarrow> RDDID \<Rightarrow> RDDID fset \<Rightarrow> FunctionError + RDDID fset"
  and functionsDependencies ::
    "nat \<Rightarrow> RDDGraph \<Rightarrow> FunctionLookup \<Rightarrow> Dependency list \<Rightarrow> RDDID fset \<Rightarrow> FunctionError + RDDID fset"
where
  "functionsFrom 0 g functions rid visited = Inl FunctionsOutOfFuel"
| "functionsFrom (Suc fuel) g functions rid visited =
     (if rid |\<in>| visited then Inr visited
      else
        (let node = (case Node g rid of None \<Rightarrow> zeroRDDNode | Some n \<Rightarrow> n) in
         case validateNodeFunction node functions of
           Some err \<Rightarrow> Inl (NodeFunction (node_ID node) (node_Name node) err)
         | None \<Rightarrow> functionsDependencies fuel g functions (node_Dependencies node) (finsert rid visited)))"
| "functionsDependencies fuel g functions [] visited = Inr visited"
| "functionsDependencies fuel g functions (dependency # rest) visited =
     (case functionsFrom fuel g functions (dep_ParentID dependency) visited of
        Inl err \<Rightarrow> Inl err
      | Inr visited' \<Rightarrow> functionsDependencies fuel g functions rest visited')"

definition validateFunctions ::
  "RDDGraph option \<Rightarrow> RDDID \<Rightarrow> FunctionLookup option \<Rightarrow> FunctionError option"
where
  "validateFunctions graph target functions =
     (case Validate graph target of
        Some err \<Rightarrow> Some (LineageInvalid err)
      | None \<Rightarrow>
          (case functions of
             None \<Rightarrow> Some (FunctionLookupNil target)
           | Some fns \<Rightarrow>
               (case graph of
                  None \<Rightarrow> None
                | Some g \<Rightarrow>
                    (case functionsFrom (validate_fuel g) g fns target {||} of
                       Inl err \<Rightarrow> Some err
                     | Inr _ \<Rightarrow> None))))"

section \<open>The stage builder\<close>

datatype PlanError =
    PlannerIsNil ActionKind RDDID
  | UnsupportedAction ActionKind RDDID
  | PlanFunctions ActionKind RDDID FunctionError
  | PipelineRDDMissing RDDID
  | PipelineDependencyKind RDDID string DependencyKind
  | NilShuffleSpec
  | PlanOutOfFuel

record stageBuilder =
  b_stages :: "Stage list"
  b_shuffleStages :: "(ShuffleID, StageID) fmap"

definition validateAction :: "ActionSpec \<Rightarrow> PlanError option" where
  "validateAction action =
     (case act_Kind action of
        ActionKindOther _ \<Rightarrow> Some (UnsupportedAction (act_Kind action) (act_TargetRDD action))
      | _ \<Rightarrow> None)"

definition rdd_operation :: "RDDNode \<Rightarrow> StageOperation" where
  "rdd_operation node =
     \<lparr>so_Kind = StageOperationRDD,
      so_RDD = Some \<lparr>ro_RDDID = node_ID node, ro_Operator = node_Operator node\<rparr>,
      so_ShuffleRead = None\<rparr>"

definition shuffle_read :: "ShuffleDependencySpec \<Rightarrow> StageOperation" where
  "shuffle_read shuffle =
     \<lparr>so_Kind = StageOperationShuffleRead, so_RDD = None,
      so_ShuffleRead = Some \<lparr>sr_ShuffleID = sds_ShuffleID shuffle, sr_Partitioner = sds_Partitioner shuffle\<rparr>\<rparr>"

definition shuffle_write :: "ShuffleDependencySpec \<Rightarrow> ShuffleWriteSpec" where
  "shuffle_write shuffle =
     \<lparr>sw_ShuffleID = sds_ShuffleID shuffle, sw_Partitioner = sds_Partitioner shuffle,
      sw_AggregatorID = sds_AggregatorID shuffle, sw_MapSideCombine = sds_MapSideCombine shuffle\<rparr>"

text \<open>
  The three mutually recursive builder functions. Each step to a parent RDD spends one
  unit of fuel; \<open>Plan\<close> supplies one more unit than the graph has nodes. Dereferencing a
  \<open>nil\<close> shuffle specification, which validation rules out, is the value \<open>NilShuffleSpec\<close>.
\<close>

fun buildStage ::
    "nat \<Rightarrow> RDDGraph \<Rightarrow> stageBuilder \<Rightarrow> RDDID \<Rightarrow> StageKind \<Rightarrow> ShuffleWriteSpec option \<Rightarrow>
     ActionSpec option \<Rightarrow> PlanError + StageID \<times> stageBuilder"
  and buildPipeline ::
    "nat \<Rightarrow> RDDGraph \<Rightarrow> stageBuilder \<Rightarrow> RDDID \<Rightarrow> PlanError + StageOperation list \<times> StageID list \<times> stageBuilder"
  and buildShuffleStage ::
    "nat \<Rightarrow> RDDGraph \<Rightarrow> stageBuilder \<Rightarrow> Dependency \<Rightarrow> PlanError + StageID \<times> stageBuilder"
where
  "buildStage fuel g b target kind shuffleWrite finalAction =
     (case buildPipeline fuel g b target of
        Inl err \<Rightarrow> Inl err
      | Inr (operations, parentIDs, b') \<Rightarrow>
          let node = (case Node g target of None \<Rightarrow> zeroRDDNode | Some n \<Rightarrow> n);
              sid = of_nat (length (b_stages b'))
          in Inr (sid, b'\<lparr>b_stages := b_stages b' @
               [\<lparr>stage_ID = sid, stage_Kind = kind, stage_ParentIDs = parentIDs,
                 stage_NumPartitions = node_NumPartitions node, stage_Operations = operations,
                 stage_ShuffleWrite = shuffleWrite, stage_FinalAction = finalAction\<rparr>]\<rparr>))"
| "buildPipeline 0 g b rid = Inl PlanOutOfFuel"
| "buildPipeline (Suc fuel) g b rid =
     (case Node g rid of
        None \<Rightarrow> Inl (PipelineRDDMissing rid)
      | Some node \<Rightarrow>
          (case node_Dependencies node of
             [] \<Rightarrow> Inr ([rdd_operation node], [], b)
           | dependency # _ \<Rightarrow>
               (case dep_Kind dependency of
                  DependencyNarrow \<Rightarrow>
                    (case buildPipeline fuel g b (dep_ParentID dependency) of
                       Inl err \<Rightarrow> Inl err
                     | Inr (operations, parentIDs, b') \<Rightarrow>
                         Inr (operations @ [rdd_operation node], parentIDs, b'))
                | DependencyShuffle \<Rightarrow>
                    (case buildShuffleStage fuel g b dependency of
                       Inl err \<Rightarrow> Inl err
                     | Inr (parentStageID, b') \<Rightarrow>
                         (case dep_Shuffle dependency of
                            None \<Rightarrow> Inl NilShuffleSpec
                          | Some shuffle \<Rightarrow>
                              Inr ([shuffle_read shuffle, rdd_operation node], [parentStageID], b')))
                | other \<Rightarrow> Inl (PipelineDependencyKind (node_ID node) (node_Name node) other))))"
| "buildShuffleStage fuel g b dependency =
     (case dep_Shuffle dependency of
        None \<Rightarrow> Inl NilShuffleSpec
      | Some shuffle \<Rightarrow>
          (case fmlookup (b_shuffleStages b) (sds_ShuffleID shuffle) of
             Some sid \<Rightarrow> Inr (sid, b)
           | None \<Rightarrow>
               (case buildStage fuel g b (dep_ParentID dependency) StageShuffleMap
                       (Some (shuffle_write shuffle)) None of
                  Inl err \<Rightarrow> Inl err
                | Inr (sid, b') \<Rightarrow>
                    Inr (sid, b'\<lparr>b_shuffleStages := fmupd (sds_ShuffleID shuffle) sid (b_shuffleStages b')\<rparr>))))"

definition Plan :: "FunctionLookup option option \<Rightarrow> RDDGraph option \<Rightarrow> ActionSpec \<Rightarrow> PlanError + StagePlan" where
  "Plan planner graph action =
     (case planner of
        None \<Rightarrow> Inl (PlannerIsNil (act_Kind action) (act_TargetRDD action))
      | Some functions \<Rightarrow>
          (case validateAction action of
             Some err \<Rightarrow> Inl err
           | None \<Rightarrow>
               (case validateFunctions graph (act_TargetRDD action) functions of
                  Some err \<Rightarrow> Inl (PlanFunctions (act_Kind action) (act_TargetRDD action) err)
                | None \<Rightarrow>
                    (case graph of
                       None \<Rightarrow> Inl PlanOutOfFuel
                     | Some g \<Rightarrow>
                         (case buildStage (validate_fuel g) g \<lparr>b_stages = [], b_shuffleStages = fmempty\<rparr>
                                 (act_TargetRDD action) StageResult None (Some action) of
                            Inl err \<Rightarrow> Inl err
                          | Inr (_, builder) \<Rightarrow>
                              Inr \<lparr>sp_TargetRDD = act_TargetRDD action, sp_Stages = b_stages builder\<rparr>)))))"

section \<open>Tasks\<close>

datatype GenerateError = StagePartitionCount StageID int

definition cloneStageOperation :: "StageOperation \<Rightarrow> StageOperation" where
  "cloneStageOperation operation =
     operation\<lparr>so_RDD := map_option (\<lambda>r. r) (so_RDD operation),
               so_ShuffleRead := map_option (\<lambda>r. r) (so_ShuffleRead operation)\<rparr>"

definition cloneStageOperations :: "StageOperation list \<Rightarrow> StageOperation list" where
  "cloneStageOperations operations = map cloneStageOperation operations"

definition cloneShuffleWrite :: "ShuffleWriteSpec option \<Rightarrow> ShuffleWriteSpec option" where
  "cloneShuffleWrite shuffleWrite = map_option (\<lambda>w. w) shuffleWrite"

definition cloneAction :: "ActionSpec option \<Rightarrow> ActionSpec option" where
  "cloneAction action = map_option (\<lambda>a. a) action"

definition cloneTask :: "Task \<Rightarrow> Task" where
  "cloneTask task = task\<lparr>task_Operations := cloneStageOperations (task_Operations task),
     task_ShuffleWrite := cloneShuffleWrite (task_ShuffleWrite task),
     task_FinalAction := cloneAction (task_FinalAction task)\<rparr>"

definition stage_task :: "Stage \<Rightarrow> nat \<Rightarrow> int \<Rightarrow> Task" where
  "stage_task stage next part =
     \<lparr>task_ID = of_nat next, task_StageID = stage_ID stage, task_StageKind = stage_Kind stage,
      task_PartitionID = part, task_NumPartitions = stage_NumPartitions stage,
      task_Operations = cloneStageOperations (stage_Operations stage),
      task_ShuffleWrite = cloneShuffleWrite (stage_ShuffleWrite stage),
      task_FinalAction = cloneAction (stage_FinalAction stage)\<rparr>"

fun generateStageTasks :: "Stage \<Rightarrow> nat \<Rightarrow> nat \<Rightarrow> Task list \<Rightarrow> Task list" where
  "generateStageTasks stage part 0 tasks = tasks"
| "generateStageTasks stage part (Suc left) tasks =
     generateStageTasks stage (Suc part) left
       (tasks @ [stage_task stage (length tasks) (int part)])"

fun generateTasksLoop :: "Stage list \<Rightarrow> Task list \<Rightarrow> Task list" where
  "generateTasksLoop [] tasks = tasks"
| "generateTasksLoop (stage # stages) tasks =
     generateTasksLoop stages (generateStageTasks stage 0 (nat (stage_NumPartitions stage)) tasks)"

definition GenerateTasks :: "StagePlan \<Rightarrow> GenerateError + Task list" where
  "GenerateTasks stagePlan =
     (case first_error (\<lambda>stage. if stage_NumPartitions stage \<le> 0
              then Some (StagePartitionCount (stage_ID stage) (stage_NumPartitions stage)) else None)
            (sp_Stages stagePlan) of
        Some err \<Rightarrow> Inl err
      | None \<Rightarrow> Inr (generateTasksLoop (sp_Stages stagePlan) []))"

section \<open>Executable plans\<close>

datatype ExecutionPlanError = UnsupportedExecution

definition narrowPlan :: "Stage \<Rightarrow> bool" where
  "narrowPlan s \<longleftrightarrow> stage_Kind s = StageResult \<and> stage_ParentIDs s = [] \<and> stage_ShuffleWrite s = None"

definition singleShufflePlan :: "Stage \<Rightarrow> Stage \<Rightarrow> bool" where
  "singleShufflePlan parent child \<longleftrightarrow>
     stage_Kind parent = StageShuffleMap \<and> stage_ParentIDs parent = [] \<and>
     stage_Kind child = StageResult \<and> stage_ParentIDs child = [stage_ID parent] \<and>
     (case (stage_ShuffleWrite parent, stage_Operations child) of
        (Some write, operation # _) \<Rightarrow>
          (case so_ShuffleRead operation of
             Some read \<Rightarrow> sr_ShuffleID read = sw_ShuffleID write
           | None \<Rightarrow> False)
      | _ \<Rightarrow> False)"

definition validateExecutionPlan :: "StagePlan \<Rightarrow> ExecutionPlanError option" where
  "validateExecutionPlan p =
     (case sp_Stages p of
        [s] \<Rightarrow> if narrowPlan s then None else Some UnsupportedExecution
      | [parent, child] \<Rightarrow> if singleShufflePlan parent child then None else Some UnsupportedExecution
      | _ \<Rightarrow> Some UnsupportedExecution)"

section \<open>Shape of a valid node\<close>

definition narrow_op :: "OperatorKind \<Rightarrow> bool" where
  "narrow_op k \<longleftrightarrow> k \<in> {OpMap, OpFilter, OpMapToPair, OpMapValues}"

lemma validateDependencyShape_shuffle:
  assumes "validateDependencyShape d = None" "dep_Kind d = DependencyShuffle"
  obtains sh where "dep_Shuffle d = Some sh" "ps_Kind (sds_Partitioner sh) = PartitionerHash"
    "0 < ps_NumPartitions (sds_Partitioner sh)"
  using assms
  by (auto simp: validateDependencyShape_def validatePartitioner_def split: option.splits if_splits)

lemma validateNodeShape_deps:
  assumes "validateNodeShape n = None"
  shows "0 < node_NumPartitions n" "\<And>d. d \<in> set (node_Dependencies n) \<Longrightarrow> validateDependencyShape d = None"
  using assms
  by (auto simp: validateNodeShape_def in_set_conv_nth enumerate_eq_zip set_zip split: if_splits option.splits)

lemma length_one_hd: "length xs = 1 \<and> P (hd xs) \<longleftrightarrow> (\<exists>x. xs = [x] \<and> P x)"
  by (cases xs) auto

lemma validateOperator_None:
  "validateOperator n = None \<longleftrightarrow>
     (op_Kind (node_Operator n) = OpSource \<and> node_Dependencies n = [] \<and> op_SourcePath (node_Operator n) \<noteq> []) \<or>
     (op_FunctionID (node_Operator n) \<noteq> [] \<and>
       (\<exists>d. node_Dependencies n = [d] \<and>
          (narrow_op (op_Kind (node_Operator n)) \<and> dep_Kind d = DependencyNarrow \<or>
           op_Kind (node_Operator n) = OpReduceByKey \<and> dep_Kind d = DependencyShuffle)))"
  by (cases "op_Kind (node_Operator n)"; cases "node_Dependencies n")
    (auto simp: validateOperator_def narrow_op_def Let_def split: if_splits)

lemma node_ok_cases:
  assumes "node_ok g n"
  obtains (source) "op_Kind (node_Operator n) = OpSource" "node_Dependencies n = []"
      "op_SourcePath (node_Operator n) \<noteq> []"
  | (narrow) d where "narrow_op (op_Kind (node_Operator n))" "node_Dependencies n = [d]"
      "dep_Kind d = DependencyNarrow" "op_FunctionID (node_Operator n) \<noteq> []"
  | (shuffle) d sh where "op_Kind (node_Operator n) = OpReduceByKey" "node_Dependencies n = [d]"
      "dep_Kind d = DependencyShuffle" "dep_Shuffle d = Some sh"
      "ps_Kind (sds_Partitioner sh) = PartitionerHash"
      "ps_NumPartitions (sds_Partitioner sh) = node_NumPartitions n" "op_FunctionID (node_Operator n) \<noteq> []"
proof -
  from assms have shape: "validateNodeShape n = None" and oper: "validateOperator n = None"
    and deps: "\<And>d. d \<in> set (node_Dependencies n) \<Longrightarrow>
        dep_Kind d = DependencyShuffle \<Longrightarrow> shuffleCount d = node_NumPartitions n"
    by (auto simp: node_ok_def)
  have sh: "\<exists>sh. dep_Shuffle d = Some sh \<and> ps_Kind (sds_Partitioner sh) = PartitionerHash \<and>
      ps_NumPartitions (sds_Partitioner sh) = node_NumPartitions n"
    if "node_Dependencies n = [d]" "dep_Kind d = DependencyShuffle" for d
    using validateDependencyShape_shuffle[of d] validateNodeShape_deps(2)[OF shape, of d] deps[of d] that
    by (force simp: shuffleCount_def)
  from oper[unfolded validateOperator_None] show thesis
    using sh source narrow shuffle by blast
qed

text \<open>The lineage of a valid target is a chain: the only ancestor step is the first dependency.\<close>

lemma valid_lineage_chain:
  assumes "graph_wf g" "valid_lineage g a"
  obtains n where "fmlookup (nodes g) a = Some n" "node_ok g n" "node_ID n = a"
    "\<And>d. d \<in> set (node_Dependencies n) \<Longrightarrow> valid_lineage g (dep_ParentID d) \<and> (a, dep_ParentID d) \<in> parent_edges g"
proof -
  from assms(2) obtain n where n: "fmlookup (nodes g) a = Some n" "node_ok g n"
    and par: "\<And>b. (a, b) \<in> parent_edges g \<Longrightarrow> valid_lineage g b"
    by (rule valid_lineageE) blast
  have "(a, dep_ParentID d) \<in> parent_edges g" if d: "d \<in> set (node_Dependencies n)" for d
  proof -
    from n d obtain p where p: "fmlookup (nodes g) (dep_ParentID d) = Some p"
      by (auto simp: node_ok_def elim: fmdomE)
    moreover from assms(1) p have "node_ID p = dep_ParentID d" by (simp add: graph_wf_def)
    ultimately show ?thesis using n d by (force simp: parent_edges_def)
  qed
  moreover have "node_ID n = a" using assms(1) n by (simp add: graph_wf_def)
  ultimately show thesis using that n par by blast
qed

definition ancestors :: "RDDGraph \<Rightarrow> RDDID \<Rightarrow> RDDID set" where
  "ancestors g a = {b. (a, b) \<in> (parent_edges g)\<^sup>*}"

lemma ancestors_subset: "valid_lineage g a \<Longrightarrow> ancestors g a \<subseteq> fmdom' (nodes g)"
  using valid_lineage_rtrancl valid_lineage_dom by (fastforce simp: ancestors_def fmdom'_alt_def)

lemma finite_ancestors: "valid_lineage g a \<Longrightarrow> finite (ancestors g a)"
  by (rule finite_subset[OF ancestors_subset finite_fmdom'])

lemma card_ancestors_parent:
  assumes "valid_lineage g a" "(a, b) \<in> parent_edges g"
  shows "card (ancestors g b) < card (ancestors g a)"
proof (rule psubset_card_mono)
  show "finite (ancestors g a)" by (rule finite_ancestors[OF assms(1)])
  have "a \<notin> ancestors g b"
    using valid_lineage_acyclic[OF assms(1)] assms(2) by (auto simp: ancestors_def dest: rtrancl_into_trancl2)
  then show "ancestors g b \<subset> ancestors g a"
    using assms(2) by (auto simp: ancestors_def intro: converse_rtrancl_into_rtrancl)
qed

lemma card_ancestors_fuel: "valid_lineage g a \<Longrightarrow> card (ancestors g a) < validate_fuel g"
  using card_mono[OF _ ancestors_subset, of g a]
  by (simp add: validate_fuel_def fcard.rep_eq fmdom'_alt_def less_Suc_eq_le)


lemma ancestors_parent:
  assumes wf: "graph_wf g" and n: "fmlookup (nodes g) a = Some n" "node_Dependencies n = [d]"
    and edge: "(a, dep_ParentID d) \<in> parent_edges g"
  shows "ancestors g a = insert a (ancestors g (dep_ParentID d))"
proof (rule set_eqI)
  fix x
  have only: "b = dep_ParentID d" if ab: "(a, b) \<in> parent_edges g" for b
  proof -
    from ab n obtain p where p: "fmlookup (nodes g) (dep_ParentID d) = Some p" "b = node_ID p"
      by (auto simp: parent_edges_def)
    from wf p(1) have "node_ID p = dep_ParentID d" unfolding graph_wf_def by blast
    with p(2) show ?thesis by simp
  qed
  have "(a, x) \<in> (parent_edges g)\<^sup>* \<longleftrightarrow> a = x \<or> (\<exists>b. (a, b) \<in> parent_edges g \<and> (b, x) \<in> (parent_edges g)\<^sup>*)"
    by (blast elim: converse_rtranclE intro: converse_rtrancl_into_rtrancl)
  with only edge show "x \<in> ancestors g a \<longleftrightarrow> x \<in> insert a (ancestors g (dep_ParentID d))"
    unfolding ancestors_def by blast
qed

lemma ancestors_source:
  assumes "fmlookup (nodes g) a = Some n" "node_Dependencies n = []"
  shows "ancestors g a = {a}"
  using assms by (auto simp: ancestors_def parent_edges_def elim: converse_rtranclE)

lemma ancestors_self: "a \<in> ancestors g a"
  by (simp add: ancestors_def)

lemma ancestors_not_self: "valid_lineage g a \<Longrightarrow> (a, b) \<in> parent_edges g \<Longrightarrow> a \<notin> ancestors g b"
  using valid_lineage_acyclic by (auto simp: ancestors_def dest: rtrancl_into_trancl2)

section \<open>Function validation\<close>

definition functions_ok :: "RDDGraph \<Rightarrow> FunctionLookup \<Rightarrow> RDDID \<Rightarrow> bool" where
  "functions_ok g fns target \<longleftrightarrow>
     (\<forall>a \<in> ancestors g target. \<forall>n. fmlookup (nodes g) a = Some n \<longrightarrow> validateNodeFunction n fns = None)"

lemma functionsFrom_correct:
  assumes "graph_wf g" "valid_lineage g a" "fset visited \<inter> ancestors g a = {}" "card (ancestors g a) \<le> fuel"
  shows "(\<exists>v. functionsFrom fuel g fns a visited = Inr v) \<longleftrightarrow> functions_ok g fns a"
  using assms(2-)
proof (induction fuel arbitrary: a visited)
  case 0
  then show ?case using finite_ancestors[of g a] ancestors_self[of a g] by auto
next
  case (Suc fuel)
  from assms(1) Suc.prems(1) obtain n where n: "fmlookup (nodes g) a = Some n" "node_ok g n"
    and par: "\<And>d. d \<in> set (node_Dependencies n) \<Longrightarrow> valid_lineage g (dep_ParentID d) \<and> (a, dep_ParentID d) \<in> parent_edges g"
    by (rule valid_lineage_chain) blast
  have notin: "a |\<notin>| visited" using Suc.prems(2) ancestors_self by auto
  from n(2) consider "node_Dependencies n = []" | d where "node_Dependencies n = [d]"
    by (cases rule: node_ok_cases) auto
  then show ?case
  proof cases
    case 1
    then show ?thesis using n notin
      by (auto simp: functions_ok_def ancestors_source Node_lookup split: option.splits)
  next
    case 2
    let ?p = "dep_ParentID d"
    from par[of d] 2 have p: "valid_lineage g ?p" "(a, ?p) \<in> parent_edges g" by auto
    have anc: "ancestors g a = insert a (ancestors g ?p)" by (rule ancestors_parent[OF assms(1) n(1) 2 p(2)])
    have "card (ancestors g ?p) \<le> fuel"
      using card_ancestors_parent[OF Suc.prems(1) p(2)] Suc.prems(3) by simp
    moreover have "fset (finsert a visited) \<inter> ancestors g ?p = {}"
      using Suc.prems(2) anc ancestors_not_self[OF Suc.prems(1) p(2)] by auto
    ultimately have "(\<exists>v. functionsFrom fuel g fns ?p (finsert a visited) = Inr v) \<longleftrightarrow> functions_ok g fns ?p"
      by (intro Suc.IH p)
    then show ?thesis using n notin 2 anc
      by (auto simp: functions_ok_def Node_lookup split: option.splits sum.splits)
  qed
qed

lemma validateFunctions_iff:
  assumes "graph_wf g"
  shows "validateFunctions (Some g) target (Some fns) = None \<longleftrightarrow>
    valid_lineage g target \<and> functions_ok g fns target"
proof -
  have "(\<exists>v. functionsFrom (validate_fuel g) g fns target {||} = Inr v) \<longleftrightarrow> functions_ok g fns target"
    if "valid_lineage g target"
    using functionsFrom_correct[OF assms that] card_ancestors_fuel[OF that] by simp
  then show ?thesis
    by (auto simp: validateFunctions_def Validate_iff_valid_lineage[symmetric] split: option.splits sum.splits)
qed

section \<open>The planner builds a chain of stages\<close>

definition narrow_operation :: "StageOperation \<Rightarrow> bool" where
  "narrow_operation operation \<longleftrightarrow>
     (\<exists>n. operation = rdd_operation n \<and> narrow_op (op_Kind (node_Operator n)))"

definition read_of :: "ShuffleWriteSpec \<Rightarrow> StageOperation" where
  "read_of w = \<lparr>so_Kind = StageOperationShuffleRead, so_RDD = None,
     so_ShuffleRead = Some \<lparr>sr_ShuffleID = sw_ShuffleID w, sr_Partitioner = sw_Partitioner w\<rparr>\<rparr>"

text \<open>
  A pipeline that computes \<open>target\<close>: it starts with a source, or with the read of the
  parent stage's shuffle followed by the reduction, and goes on with narrow operators.
\<close>

definition pipeline_ok :: "ShuffleWriteSpec option \<Rightarrow> RDDID \<Rightarrow> StageOperation list \<Rightarrow> bool" where
  "pipeline_ok input target operations \<longleftrightarrow>
     (\<exists>n rest. (\<forall>operation \<in> set rest. narrow_operation operation) \<and>
        (case input of
           None \<Rightarrow> op_Kind (node_Operator n) = OpSource \<and> operations = rdd_operation n # rest
         | Some w \<Rightarrow> op_Kind (node_Operator n) = OpReduceByKey \<and>
             operations = read_of w # rdd_operation n # rest)) \<and>
     map_option ro_RDDID (so_RDD (last operations)) = Some target"

definition stage_input :: "Stage list \<Rightarrow> nat \<Rightarrow> ShuffleWriteSpec option" where
  "stage_input stages i = (if i = 0 then None else stage_ShuffleWrite (stages ! (i - 1)))"

definition stage_parents :: "nat \<Rightarrow> StageID list" where
  "stage_parents i = (if i = 0 then [] else [of_nat (i - 1)])"

definition stage_link :: "RDDGraph \<Rightarrow> Stage list \<Rightarrow> nat \<Rightarrow> bool" where
  "stage_link g stages i \<longleftrightarrow>
     stage_ID (stages ! i) = of_nat i \<and>
     stage_ParentIDs (stages ! i) = stage_parents i \<and>
     (\<exists>n. Node g (node_ID n) = Some n \<and> 0 < node_NumPartitions n \<and>
        stage_NumPartitions (stages ! i) = node_NumPartitions n \<and>
        pipeline_ok (stage_input stages i) (node_ID n) (stage_Operations (stages ! i)))"

definition map_stage :: "Stage \<Rightarrow> bool" where
  "map_stage s \<longleftrightarrow> stage_Kind s = StageShuffleMap \<and> stage_FinalAction s = None \<and>
     (\<exists>w. stage_ShuffleWrite s = Some w \<and> ps_Kind (sw_Partitioner w) = PartitionerHash \<and>
        0 < ps_NumPartitions (sw_Partitioner w))"

definition shuffles :: "RDDGraph \<Rightarrow> RDDID \<Rightarrow> RDDID set" where
  "shuffles g a = {b \<in> ancestors g a. \<exists>n. fmlookup (nodes g) b = Some n \<and>
     op_Kind (node_Operator n) = OpReduceByKey}"

lemma pipeline_ok_source:
  "op_Kind (node_Operator n) = OpSource \<Longrightarrow> pipeline_ok None (node_ID n) [rdd_operation n]"
  by (auto simp: pipeline_ok_def rdd_operation_def)

lemma pipeline_ok_reduce:
  "op_Kind (node_Operator n) = OpReduceByKey \<Longrightarrow>
     pipeline_ok (Some (shuffle_write sh)) (node_ID n) [shuffle_read sh, rdd_operation n]"
  by (auto simp: pipeline_ok_def rdd_operation_def read_of_def shuffle_read_def shuffle_write_def)

lemma pipeline_ok_narrow:
  assumes "pipeline_ok input p operations" "narrow_op (op_Kind (node_Operator n))"
  shows "pipeline_ok input (node_ID n) (operations @ [rdd_operation n])"
proof -
  from assms(1) obtain m rest where rest: "\<forall>operation \<in> set rest. narrow_operation operation"
    "case input of None \<Rightarrow> op_Kind (node_Operator m) = OpSource \<and> operations = rdd_operation m # rest
         | Some w \<Rightarrow> op_Kind (node_Operator m) = OpReduceByKey \<and>
             operations = read_of w # rdd_operation m # rest"
    by (auto simp: pipeline_ok_def)
  have "\<forall>operation \<in> set (rest @ [rdd_operation n]). narrow_operation operation"
    using rest(1) assms(2) by (auto simp: narrow_operation_def)
  moreover have "case input of None \<Rightarrow> op_Kind (node_Operator m) = OpSource \<and>
        operations @ [rdd_operation n] = rdd_operation m # (rest @ [rdd_operation n])
      | Some w \<Rightarrow> op_Kind (node_Operator m) = OpReduceByKey \<and>
          operations @ [rdd_operation n] = read_of w # rdd_operation m # (rest @ [rdd_operation n])"
    using rest(2) by (auto split: option.splits)
  moreover have "map_option ro_RDDID (so_RDD (last (operations @ [rdd_operation n]))) = Some (node_ID n)"
    by (simp add: rdd_operation_def)
  ultimately show ?thesis unfolding pipeline_ok_def by blast
qed

lemma stage_link_append: "i < length stages \<Longrightarrow> stage_link g (stages @ [s]) i = stage_link g stages i"
  by (auto simp: stage_link_def stage_input_def nth_append)


definition maps_ok :: "RDDGraph \<Rightarrow> Stage list \<Rightarrow> bool" where
  "maps_ok g stages \<longleftrightarrow> (\<forall>i < length stages. stage_link g stages i \<and> map_stage (stages ! i))"

definition empty_builder :: stageBuilder where
  "empty_builder = \<lparr>b_stages = [], b_shuffleStages = fmempty\<rparr>"

lemma shuffles_parent:
  assumes "graph_wf g" "fmlookup (nodes g) a = Some n" "node_Dependencies n = [d]"
    "valid_lineage g a" "(a, dep_ParentID d) \<in> parent_edges g" "valid_lineage g (dep_ParentID d)"
  shows "card (shuffles g a) = (if op_Kind (node_Operator n) = OpReduceByKey then 1 else 0) +
      card (shuffles g (dep_ParentID d))"
proof -
  have "shuffles g a = (if op_Kind (node_Operator n) = OpReduceByKey then {a} else {}) \<union>
      shuffles g (dep_ParentID d)"
    using ancestors_parent[OF assms(1-3,5)] assms(2) by (auto simp: shuffles_def)
  moreover have "a \<notin> shuffles g (dep_ParentID d)"
    using ancestors_not_self[OF assms(4,5)] by (simp add: shuffles_def)
  moreover have "finite (shuffles g (dep_ParentID d))"
    using finite_ancestors[OF assms(6)] by (simp add: shuffles_def)
  ultimately show ?thesis by simp
qed

text \<open>What planning the pipeline of \<open>a\<close> from an empty builder yields.\<close>

definition pipeline_result :: "RDDGraph \<Rightarrow> RDDID \<Rightarrow> PlanError + StageOperation list \<times> StageID list \<times> stageBuilder \<Rightarrow> bool" where
  "pipeline_result g a result \<longleftrightarrow>
     (\<exists>operations b. result = Inr (operations, stage_parents (length (b_stages b)), b) \<and>
        maps_ok g (b_stages b) \<and>
        pipeline_ok (stage_input (b_stages b) (length (b_stages b))) a operations \<and>
        length (b_stages b) = card (shuffles g a))"

lemma node_ok_positive: "node_ok g n \<Longrightarrow> 0 < node_NumPartitions n"
  using validateNodeShape_deps(1) by (auto simp: node_ok_def)

lemma buildPipeline_shuffle:
  assumes n: "fmlookup (nodes g) a = Some n" "node_ok g n" "node_ID n = a"
    and m: "fmlookup (nodes g) (dep_ParentID d) = Some m" "node_ok g m" "node_ID m = dep_ParentID d"
    and op: "op_Kind (node_Operator n) = OpReduceByKey" "node_Dependencies n = [d]" "dep_Kind d = DependencyShuffle"
      "dep_Shuffle d = Some sh" "ps_Kind (sds_Partitioner sh) = PartitionerHash"
      "ps_NumPartitions (sds_Partitioner sh) = node_NumPartitions n"
    and cs: "card (shuffles g a) = Suc (card (shuffles g (dep_ParentID d)))"
    and IH: "pipeline_result g (dep_ParentID d) (buildPipeline fuel g empty_builder (dep_ParentID d))"
  shows "pipeline_result g a (buildPipeline (Suc fuel) g empty_builder a)"
proof -
  from IH obtain operations b where
    b: "buildPipeline fuel g empty_builder (dep_ParentID d) = Inr (operations, stage_parents (length (b_stages b)), b)"
    "maps_ok g (b_stages b)" "length (b_stages b) = card (shuffles g (dep_ParentID d))"
    "pipeline_ok (stage_input (b_stages b) (length (b_stages b))) (dep_ParentID d) operations"
    by (auto simp: pipeline_result_def)
  define s where "s = \<lparr>stage_ID = of_nat (length (b_stages b)), stage_Kind = StageShuffleMap,
    stage_ParentIDs = stage_parents (length (b_stages b)), stage_NumPartitions = node_NumPartitions m,
    stage_Operations = operations, stage_ShuffleWrite = Some (shuffle_write sh), stage_FinalAction = None\<rparr>"
  define b' where "b' = b\<lparr>b_stages := b_stages b @ [s],
    b_shuffleStages := fmupd (sds_ShuffleID sh) (of_nat (length (b_stages b))) (b_shuffleStages b)\<rparr>"
  have stages: "b_stages b' = b_stages b @ [s]" by (simp add: b'_def)
  have "buildPipeline (Suc fuel) g empty_builder a =
      Inr ([shuffle_read sh, rdd_operation n], stage_parents (length (b_stages b')), b')"
    using op n m b(1) by (simp add: Node_lookup empty_builder_def s_def b'_def Let_def stage_parents_def)
  moreover have "stage_link g (b_stages b @ [s]) (length (b_stages b))"
    using b(4) m node_ok_positive[OF m(2)]
    by (auto simp: stage_link_def s_def stage_input_def nth_append Node_lookup intro!: exI[of _ m])
  then have "maps_ok g (b_stages b')"
    using b(2) op node_ok_positive[OF n(2)]
    by (auto simp: maps_ok_def stages stage_link_append nth_append less_Suc_eq map_stage_def s_def shuffle_write_def)
  moreover have "pipeline_ok (stage_input (b_stages b') (length (b_stages b'))) a [shuffle_read sh, rdd_operation n]"
    using pipeline_ok_reduce[of n sh] op n by (simp add: stage_input_def stages s_def)
  moreover have "length (b_stages b') = card (shuffles g a)"
    using cs b(3) by (simp add: stages)
  ultimately show ?thesis unfolding pipeline_result_def by blast
qed

lemma buildPipeline_chain:
  assumes wf: "graph_wf g" and "valid_lineage g a" "card (ancestors g a) \<le> fuel"
  shows "pipeline_result g a (buildPipeline fuel g empty_builder a)"
  using assms(2-)
proof (induction fuel arbitrary: a)
  case 0
  then show ?case using finite_ancestors[of g a] ancestors_self[of a g] by auto
next
  case (Suc fuel)
  from wf Suc.prems(1) obtain n where n: "fmlookup (nodes g) a = Some n" "node_ok g n" "node_ID n = a"
    and par: "\<And>d. d \<in> set (node_Dependencies n) \<Longrightarrow> valid_lineage g (dep_ParentID d) \<and> (a, dep_ParentID d) \<in> parent_edges g"
    by (rule valid_lineage_chain) blast
  have IH: "pipeline_result g (dep_ParentID d) (buildPipeline fuel g empty_builder (dep_ParentID d))"
    and cs: "card (shuffles g a) = (if op_Kind (node_Operator n) = OpReduceByKey then 1 else 0) +
      card (shuffles g (dep_ParentID d))"
    if d: "node_Dependencies n = [d]" for d
  proof -
    from par[of d] d have p: "valid_lineage g (dep_ParentID d)" "(a, dep_ParentID d) \<in> parent_edges g" by auto
    from card_ancestors_parent[OF Suc.prems(1) p(2)] Suc.prems(2)
    show "pipeline_result g (dep_ParentID d) (buildPipeline fuel g empty_builder (dep_ParentID d))"
      by (intro Suc.IH p(1)) simp
    show "card (shuffles g a) = (if op_Kind (node_Operator n) = OpReduceByKey then 1 else 0) +
      card (shuffles g (dep_ParentID d))"
      by (rule shuffles_parent[OF wf n(1) d Suc.prems(1) p(2,1)])
  qed
  from n(2) show ?case
  proof (cases rule: node_ok_cases)
    case source
    then have "shuffles g a = {}"
      using ancestors_source[OF n(1)] n(1) by (auto simp: shuffles_def)
    then show ?thesis using source n pipeline_ok_source[of n]
      by (simp add: pipeline_result_def Node_lookup stage_parents_def maps_ok_def stage_input_def empty_builder_def)
  next
    case (narrow d)
    from narrow(1) have "op_Kind (node_Operator n) \<noteq> OpReduceByKey" by (auto simp: narrow_op_def)
    with IH[OF narrow(2)] narrow n cs[OF narrow(2)] show ?thesis
      by (auto simp: pipeline_result_def Node_lookup intro: pipeline_ok_narrow)
  next
    case (shuffle d sh)
    from par[of d] shuffle(2) obtain m where "fmlookup (nodes g) (dep_ParentID d) = Some m" "node_ok g m"
      "node_ID m = dep_ParentID d"
      using valid_lineage_chain[OF wf, of "dep_ParentID d"] by auto
    then show ?thesis
      using buildPipeline_shuffle[OF n _ _ _ shuffle(1-6)] IH[OF shuffle(2)] cs[OF shuffle(2)] shuffle(1)
      by simp
  qed
qed


definition plan_chain :: "RDDGraph \<Rightarrow> ActionSpec \<Rightarrow> Stage list \<Rightarrow> bool" where
  "plan_chain g action stages \<longleftrightarrow>
     length stages = Suc (card (shuffles g (act_TargetRDD action))) \<and>
     (\<forall>i < length stages. stage_link g stages i) \<and>
     (\<forall>i < length stages - 1. map_stage (stages ! i)) \<and>
     stage_Kind (last stages) = StageResult \<and> stage_ShuffleWrite (last stages) = None \<and>
     stage_FinalAction (last stages) = Some action \<and>
     map_option ro_RDDID (so_RDD (last (stage_Operations (last stages)))) = Some (act_TargetRDD action)"

lemma buildStage_result:
  assumes wf: "graph_wf g" and vl: "valid_lineage g (act_TargetRDD action)"
  shows "\<exists>sid b. buildStage (validate_fuel g) g empty_builder (act_TargetRDD action) StageResult None (Some action)
           = Inr (sid, b) \<and> plan_chain g action (b_stages b)"
proof -
  let ?t = "act_TargetRDD action"
  from buildPipeline_chain[OF wf vl less_imp_le[OF card_ancestors_fuel[OF vl]]]
  obtain operations b where
    b: "buildPipeline (validate_fuel g) g empty_builder ?t = Inr (operations, stage_parents (length (b_stages b)), b)"
    "maps_ok g (b_stages b)" "length (b_stages b) = card (shuffles g ?t)"
    "pipeline_ok (stage_input (b_stages b) (length (b_stages b))) ?t operations"
    by (auto simp: pipeline_result_def)
  from valid_lineage_chain[OF wf vl] obtain n where n: "fmlookup (nodes g) ?t = Some n" "node_ok g n" "node_ID n = ?t"
    by blast
  define s where "s = \<lparr>stage_ID = of_nat (length (b_stages b)), stage_Kind = StageResult,
    stage_ParentIDs = stage_parents (length (b_stages b)), stage_NumPartitions = node_NumPartitions n,
    stage_Operations = operations, stage_ShuffleWrite = None, stage_FinalAction = Some action\<rparr>"
  have "buildStage (validate_fuel g) g empty_builder ?t StageResult None (Some action)
      = Inr (of_nat (length (b_stages b)), b\<lparr>b_stages := b_stages b @ [s]\<rparr>)"
    using b(1) n by (simp add: Node_lookup Let_def s_def)
  moreover have "stage_link g (b_stages b @ [s]) (length (b_stages b))"
    using b(4) n node_ok_positive[OF n(2)]
    by (auto simp: stage_link_def s_def stage_input_def nth_append Node_lookup intro!: exI[of _ n])
  then have "plan_chain g action (b_stages b @ [s])"
    using b(2-4)
    by (auto simp: plan_chain_def maps_ok_def stage_link_append nth_append less_Suc_eq s_def pipeline_ok_def)
  ultimately show ?thesis by auto
qed

lemma validateAction_None: "validateAction action = None \<longleftrightarrow> act_Kind action \<in> {ActionCollect, ActionCount}"
  by (cases "act_Kind action") (auto simp: validateAction_def)

lemma Plan_functions:
  assumes "graph_wf g" "validateAction action = None"
  shows "if valid_lineage g (act_TargetRDD action) \<and> functions_ok g fns (act_TargetRDD action)
    then \<exists>p. Plan (Some (Some fns)) (Some g) action = Inr p \<and> sp_TargetRDD p = act_TargetRDD action \<and>
           plan_chain g action (sp_Stages p)
    else \<exists>e. Plan (Some (Some fns)) (Some g) action = Inl e"
proof (cases "validateFunctions (Some g) (act_TargetRDD action) (Some fns)")
  case None
  then have ok: "valid_lineage g (act_TargetRDD action)" "functions_ok g fns (act_TargetRDD action)"
    using validateFunctions_iff[OF assms(1)] by blast+
  from buildStage_result[OF assms(1) ok(1)] obtain sid b where
    "buildStage (validate_fuel g) g empty_builder (act_TargetRDD action) StageResult None (Some action) = Inr (sid, b)"
    "plan_chain g action (b_stages b)" by blast
  with None ok assms(2) show ?thesis
    by (simp add: Plan_def empty_builder_def del: buildStage.simps)
next
  case (Some e)
  moreover from this have "\<not> (valid_lineage g (act_TargetRDD action) \<and> functions_ok g fns (act_TargetRDD action))"
    using validateFunctions_iff[OF assms(1), of "act_TargetRDD action" fns] by simp
  ultimately show ?thesis using assms(2) by (simp only: if_False) (simp add: Plan_def)
qed

lemma Plan_Inr:
  assumes "graph_wf g"
  shows "(\<exists>p. Plan (Some (Some fns)) (Some g) action = Inr p) \<longleftrightarrow>
     act_Kind action \<in> {ActionCollect, ActionCount} \<and>
     valid_lineage g (act_TargetRDD action) \<and> functions_ok g fns (act_TargetRDD action)"
    and "Plan (Some (Some fns)) (Some g) action = Inr p \<Longrightarrow>
     sp_TargetRDD p = act_TargetRDD action \<and> plan_chain g action (sp_Stages p)"
proof -
  have bad: "Plan (Some (Some fns)) (Some g) action \<noteq> Inr p'" if "validateAction action \<noteq> None" for p'
    using that by (auto simp: Plan_def)
  show "(\<exists>p. Plan (Some (Some fns)) (Some g) action = Inr p) \<longleftrightarrow>
     act_Kind action \<in> {ActionCollect, ActionCount} \<and>
     valid_lineage g (act_TargetRDD action) \<and> functions_ok g fns (act_TargetRDD action)"
    using Plan_functions[OF assms, of action fns] bad
    unfolding validateAction_None[symmetric]
    by (cases "validateAction action = None") (auto split: if_splits)
  show "sp_TargetRDD p = act_TargetRDD action \<and> plan_chain g action (sp_Stages p)"
    if "Plan (Some (Some fns)) (Some g) action = Inr p"
    using Plan_functions[OF assms, of action fns] bad that
    by (cases "validateAction action = None") (auto split: if_splits)
qed

section \<open>A concrete lineage\<close>

text \<open>Source, pair map and reduction: the shape of \<open>examples/reduce_by_key.json\<close>.\<close>

definition ex_graph :: RDDGraph where
  "ex_graph = \<lparr>nextRDDID = 3, nextShuffleID = 1, nodes = fmap_of_list
     [(0, \<lparr>node_ID = 0, node_Name = ''TextFile'',
        node_Operator = \<lparr>op_Kind = OpSource, op_FunctionID = [], op_SourcePath = ''in.txt''\<rparr>,
        node_Dependencies = [], node_NumPartitions = 4, node_Partitioner = None\<rparr>),
      (1, \<lparr>node_ID = 1, node_Name = ''MapToPair'',
        node_Operator = \<lparr>op_Kind = OpMapToPair, op_FunctionID = ''word_pair'', op_SourcePath = []\<rparr>,
        node_Dependencies = [\<lparr>dep_Kind = DependencyNarrow, dep_ParentID = 0,
          dep_Narrow = Some \<lparr>nds_Mapping = NarrowOneToOne\<rparr>, dep_Shuffle = None\<rparr>],
        node_NumPartitions = 4, node_Partitioner = None\<rparr>),
      (2, \<lparr>node_ID = 2, node_Name = ''ReduceByKey'',
        node_Operator = \<lparr>op_Kind = OpReduceByKey, op_FunctionID = ''sum_int'', op_SourcePath = []\<rparr>,
        node_Dependencies = [\<lparr>dep_Kind = DependencyShuffle, dep_ParentID = 1, dep_Narrow = None,
          dep_Shuffle = Some \<lparr>sds_ShuffleID = 0, sds_Partitioner = HashPartitioner 2,
            sds_AggregatorID = ''sum_int'', sds_MapSideCombine = True\<rparr>\<rparr>],
        node_NumPartitions = 2, node_Partitioner = Some (HashPartitioner 2)\<rparr>)]\<rparr>"

definition ex_functions :: FunctionLookup where
  "ex_functions = \<lparr>HasMap = (\<lambda>f. f = ''normalize''), HasFilter = (\<lambda>f. f = ''non_empty''),
     HasPairMap = (\<lambda>f. f = ''word_pair''), HasValueMap = (\<lambda>_. False), HasReduce = (\<lambda>f. f = ''sum_int'')\<rparr>"

definition ex_action :: ActionSpec where
  "ex_action = \<lparr>act_Kind = ActionCollect, act_TargetRDD = 2\<rparr>"

definition ex_plan :: StagePlan where
  "ex_plan = (case Plan (Some (Some ex_functions)) (Some ex_graph) ex_action of
     Inr p \<Rightarrow> p | Inl _ \<Rightarrow> \<lparr>sp_TargetRDD = 0, sp_Stages = []\<rparr>)"

lemma ex_graph_wf: "graph_wf ex_graph"
  by (auto simp: graph_wf_def ex_graph_def fmlookup_of_list split: if_splits)

lemma ex_plan: "Plan (Some (Some ex_functions)) (Some ex_graph) ex_action = Inr ex_plan"
  by code_simp

text \<open>
  C12: for a well-formed graph and a registry, planning succeeds exactly for the supported
  actions on a target that passes validation and whose lineage names only registered
  functions. The builder itself therefore never fails and never runs out of fuel.
\<close>

theorem Plan_succeeds_iff:
  assumes "graph_wf g"
  shows "(\<exists>p. Plan (Some (Some fns)) (Some g) action = Inr p) \<longleftrightarrow>
     act_Kind action \<in> {ActionCollect, ActionCount} \<and>
     Validate (Some g) (act_TargetRDD action) = None \<and>
     (\<forall>a \<in> ancestors g (act_TargetRDD action). \<forall>n. Node g a = Some n \<longrightarrow> validateNodeFunction n fns = None)"
  using Plan_Inr(1)[OF assms, of fns action]
  by (simp add: Validate_iff_valid_lineage functions_ok_def Node_lookup)

theorem Plan_succeeds_iff_witness:
  "graph_wf ex_graph \<and> Validate (Some ex_graph) (act_TargetRDD ex_action) = None"
  using Plan_succeeds_iff[OF ex_graph_wf, of ex_functions ex_action] ex_plan ex_graph_wf by auto

text \<open>
  C20: a plan is a chain of stages in parent-before-child order. Stage \<open>i\<close> has identifier
  \<open>i\<close> and stage \<open>i - 1\<close> as its only parent, its pipeline starts with a source or with the
  read of exactly its parent's shuffle followed by the reduction, all but the last stage
  are shuffle-map stages with a positive hash partitioner, the last one is the result
  stage that carries the action and computes the target, and there is one stage more
  than the lineage has shuffles.
\<close>

theorem Plan_chain:
  assumes "graph_wf g" and "Plan (Some (Some fns)) (Some g) action = Inr p"
  shows "sp_TargetRDD p = act_TargetRDD action \<and> plan_chain g action (sp_Stages p)"
  using Plan_Inr(2)[OF assms] by simp

theorem Plan_chain_witness:
  "length (sp_Stages ex_plan) = 2 \<and> plan_chain ex_graph ex_action (sp_Stages ex_plan)"
proof -
  have "length (sp_Stages ex_plan) = 2" by code_simp
  with Plan_chain[OF ex_graph_wf ex_plan] show ?thesis by simp
qed

section \<open>Which plans are executable\<close>

lemma plan_chain_narrow:
  assumes "plan_chain g action [s]"
  shows "narrowPlan s"
  using assms by (auto simp: plan_chain_def narrowPlan_def stage_link_def stage_parents_def)

lemma plan_chain_shuffle:
  assumes "plan_chain g action [parent, child]"
  shows "singleShufflePlan parent child"
proof -
  have p: "map_stage parent" "stage_link g [parent, child] 0" "stage_link g [parent, child] 1"
    "stage_Kind child = StageResult"
    using assms by (auto simp: plan_chain_def)
  then obtain w where "stage_ShuffleWrite parent = Some w" "stage_Kind parent = StageShuffleMap"
    by (auto simp: map_stage_def)
  with p show ?thesis
    by (auto simp: singleShufflePlan_def stage_link_def stage_parents_def stage_input_def pipeline_ok_def read_of_def)
qed

text \<open>
  C21: the plan of a target is accepted for execution exactly when its lineage contains at
  most one shuffle.
\<close>

theorem executable_iff_single_shuffle:
  assumes "graph_wf g" and "Plan (Some (Some fns)) (Some g) action = Inr p"
  shows "validateExecutionPlan p = None \<longleftrightarrow> card (shuffles g (act_TargetRDD action)) \<le> 1"
proof -
  have chain: "plan_chain g action (sp_Stages p)" using Plan_Inr(2)[OF assms] by simp
  then have len: "length (sp_Stages p) = Suc (card (shuffles g (act_TargetRDD action)))"
    by (simp add: plan_chain_def)
  show ?thesis
  proof (cases "sp_Stages p")
    case Nil
    with len show ?thesis by simp
  next
    case (Cons s ss)
    then consider "sp_Stages p = [s]" | c where "sp_Stages p = [s, c]" | c d rest where "sp_Stages p = s # c # d # rest"
      by (metis neq_Nil_conv)
    then show ?thesis
      using chain len by cases (auto simp: validateExecutionPlan_def dest: plan_chain_narrow plan_chain_shuffle)
  qed
qed

theorem executable_iff_single_shuffle_witness:
  "validateExecutionPlan ex_plan = None \<and> card (shuffles ex_graph (act_TargetRDD ex_action)) \<le> 1"
proof -
  have "validateExecutionPlan ex_plan = None" by code_simp
  with executable_iff_single_shuffle[OF ex_graph_wf ex_plan] show ?thesis by simp
qed

section \<open>Task generation\<close>

lemma cloneStageOperations_id [simp]: "cloneStageOperations = (\<lambda>os. os)"
  by (rule ext) (simp add: cloneStageOperations_def cloneStageOperation_def option.map_ident cong: map_cong)

lemma clone_ids [simp]: "cloneShuffleWrite = (\<lambda>w. w)" "cloneAction = (\<lambda>a. a)" "cloneTask = (\<lambda>t. t)"
  by (simp_all add: fun_eq_iff cloneShuffleWrite_def cloneAction_def cloneTask_def option.map_ident)

lemma generateStageTasks_eq:
  "generateStageTasks stage p k tasks =
     tasks @ map (\<lambda>j. stage_task stage (length tasks + j) (int (p + j))) [0 ..< k]"
proof (induction k arbitrary: p tasks)
  case (Suc k)
  have "[0 ..< Suc k] = 0 # map Suc [0 ..< k]" by (simp add: map_Suc_upt upt_conv_Cons del: upt_Suc)
  then show ?case by (simp add: Suc o_def algebra_simps del: upt_Suc)
qed simp

definition stage_partitions :: "Stage list \<Rightarrow> (Stage \<times> int) list" where
  "stage_partitions stages =
     concat (map (\<lambda>s. map (\<lambda>p. (s, int p)) [0 ..< nat (stage_NumPartitions s)]) stages)"

definition number_tasks :: "nat \<Rightarrow> (Stage \<times> int) list \<Rightarrow> Task list" where
  "number_tasks k sps = map (\<lambda>(i, s, p). stage_task s i p) (enumerate k sps)"

lemma number_tasks_append: "number_tasks k (xs @ ys) = number_tasks k xs @ number_tasks (k + length xs) ys"
  by (simp add: number_tasks_def enumerate_append_eq)

lemma number_tasks_stage:
  "number_tasks k (map (\<lambda>p. (s, int p)) [0 ..< n]) = map (\<lambda>j. stage_task s (k + j) (int j)) [0 ..< n]"
  by (rule nth_equalityI) (auto simp: number_tasks_def nth_enumerate_eq)

lemma generateTasksLoop_eq:
  "generateTasksLoop stages tasks = tasks @ number_tasks (length tasks) (stage_partitions stages)"
  by (induction stages arbitrary: tasks)
    (simp_all add: generateStageTasks_eq stage_partitions_def number_tasks_append number_tasks_stage,
     simp add: number_tasks_def)

text \<open>
  C7: task generation fails exactly for a plan with a stage of nonpositive partition
  count; otherwise it lists one task per stage and partition, in stage order and then
  partition order, each carrying its stage's pipeline, with identifiers equal to the
  positions in the list.
\<close>

theorem GenerateTasks_correct:
  "(if \<exists>s \<in> set (sp_Stages p). stage_NumPartitions s \<le> 0
    then \<exists>s \<in> set (sp_Stages p). stage_NumPartitions s \<le> 0 \<and>
           GenerateTasks p = Inl (StagePartitionCount (stage_ID s) (stage_NumPartitions s))
    else GenerateTasks p =
           Inr (map (\<lambda>(i, s, part). stage_task s i part)
                 (enumerate 0 (concat (map (\<lambda>s. map (\<lambda>q. (s, int q)) [0 ..< nat (stage_NumPartitions s)])
                                         (sp_Stages p))))))"
proof (cases "\<exists>s \<in> set (sp_Stages p). stage_NumPartitions s \<le> 0")
  case True
  define f where "f = (\<lambda>stage :: Stage. if stage_NumPartitions stage \<le> 0
              then Some (StagePartitionCount (stage_ID stage) (stage_NumPartitions stage)) else None)"
  from True have "first_error f (sp_Stages p) \<noteq> None" by (auto simp: f_def)
  then obtain err where err: "first_error f (sp_Stages p) = Some err" by blast
  from first_error_Some[OF this] obtain s where "s \<in> set (sp_Stages p)" "f s = Some err" by blast
  with err True show ?thesis by (auto simp: GenerateTasks_def f_def split: if_splits)
next
  case False
  then have "first_error (\<lambda>stage. if stage_NumPartitions stage \<le> 0
              then Some (StagePartitionCount (stage_ID stage) (stage_NumPartitions stage)) else None)
        (sp_Stages p) = None" by auto
  then have "GenerateTasks p = Inr (generateTasksLoop (sp_Stages p) [])"
    by (simp only: GenerateTasks_def option.case)
  with False show ?thesis
    by (simp add: generateTasksLoop_eq number_tasks_def stage_partitions_def)
qed

end
