(* ===== verification/Sha256.thy ===== *)
theory Sha256
  imports Prelude
begin

text \<open>
  The parts of Go's standard library that \<open>src/shuffle\<close> computes with: SHA-256
  (\<open>crypto/sha256\<close>, FIPS 180-4), lower-case hexadecimal (\<open>encoding/hex\<close>), 64-bit FNV-1a
  (\<open>hash/fnv\<close>) and the UTF-8 validity test (\<open>unicode/utf8\<close>). All are executable.
\<close>

unbundle bit_operations_syntax

section \<open>Bytes and hexadecimal\<close>

definition bytes :: "string \<Rightarrow> 8 word list" where
  "bytes s = map of_char s"

definition hex_digits :: string where
  "hex_digits = ''0123456789abcdef''"

definition hex_byte :: "8 word \<Rightarrow> string" where
  "hex_byte b = [hex_digits ! (unat b div 16), hex_digits ! (unat b mod 16)]"

definition hexEncode :: "8 word list \<Rightarrow> string" where
  "hexEncode bs = concat (map hex_byte bs)"

section \<open>SHA-256\<close>

text \<open>The round constants, the first 32 bits of the fractional parts of the cube roots of the primes up to 311.\<close>

definition sha_K :: "32 word list" where
  "sha_K =
   [1116352408, 1899447441, 3049323471, 3921009573, 961987163, 1508970993, 2453635748, 2870763221,
    3624381080, 310598401, 607225278, 1426881987, 1925078388, 2162078206, 2614888103, 3248222580,
    3835390401, 4022224774, 264347078, 604807628, 770255983, 1249150122, 1555081692, 1996064986,
    2554220882, 2821834349, 2952996808, 3210313671, 3336571891, 3584528711, 113926993, 338241895,
    666307205, 773529912, 1294757372, 1396182291, 1695183700, 1986661051, 2177026350, 2456956037,
    2730485921, 2820302411, 3259730800, 3345764771, 3516065817, 3600352804, 4094571909, 275423344,
    430227734, 506948616, 659060556, 883997877, 958139571, 1322822218, 1537002063, 1747873779,
    1955562222, 2024104815, 2227730452, 2361852424, 2428436474, 2756734187, 3204031479, 3329325298]"

type_synonym sha_state =
  "32 word \<times> 32 word \<times> 32 word \<times> 32 word \<times> 32 word \<times> 32 word \<times> 32 word \<times> 32 word"

definition sha_H0 :: sha_state where
  "sha_H0 = (1779033703, 3144134277, 1013904242, 2773480762, 1359893119, 2600822924, 528734635, 1541459225)"

definition be32 :: "8 word list \<Rightarrow> 32 word" where
  "be32 bs = foldl (\<lambda>w b. push_bit 8 w OR ucast b) 0 bs"

fun be_words :: "8 word list \<Rightarrow> 32 word list" where
  "be_words (a # b # c # d # rest) = be32 [a, b, c, d] # be_words rest"
| "be_words _ = []"

definition word_bytes :: "32 word \<Rightarrow> 8 word list" where
  "word_bytes w = [ucast (drop_bit 24 w), ucast (drop_bit 16 w), ucast (drop_bit 8 w), ucast w]"

definition sha_pad :: "8 word list \<Rightarrow> 8 word list" where
  "sha_pad msg =
     (let n = length msg; bits = of_nat (8 * n) :: 64 word in
      msg @ [0x80] @ replicate (nat ((55 - int n) mod 64)) 0 @
      map (\<lambda>i. ucast (drop_bit (8 * i) bits)) [7, 6, 5, 4, 3, 2, 1, 0])"

definition small_sigma0 :: "32 word \<Rightarrow> 32 word" where
  "small_sigma0 x = word_rotr 7 x XOR word_rotr 18 x XOR drop_bit 3 x"

definition small_sigma1 :: "32 word \<Rightarrow> 32 word" where
  "small_sigma1 x = word_rotr 17 x XOR word_rotr 19 x XOR drop_bit 10 x"

text \<open>The schedule is kept newest word first, so that the four words read are at fixed positions.\<close>

fun sha_extend :: "nat \<Rightarrow> 32 word list \<Rightarrow> 32 word list" where
  "sha_extend 0 ws = ws"
| "sha_extend (Suc k) ws =
     sha_extend k ((small_sigma1 (ws ! 1) + ws ! 6 + small_sigma0 (ws ! 14) + ws ! 15) # ws)"

definition sha_schedule :: "32 word list \<Rightarrow> 32 word list" where
  "sha_schedule block = rev (sha_extend 48 (rev block))"

fun sha_round :: "sha_state \<Rightarrow> 32 word \<times> 32 word \<Rightarrow> sha_state" where
  "sha_round (a, b, c, d, e, f, g, h) (k, w) =
     (let s1 = word_rotr 6 e XOR word_rotr 11 e XOR word_rotr 25 e;
          ch = (e AND f) XOR (NOT e AND g);
          t1 = h + s1 + ch + k + w;
          s0 = word_rotr 2 a XOR word_rotr 13 a XOR word_rotr 22 a;
          maj = (a AND b) XOR (a AND c) XOR (b AND c);
          t2 = s0 + maj
      in (t1 + t2, a, b, c, d + t1, e, f, g))"

fun sha_add :: "sha_state \<Rightarrow> sha_state \<Rightarrow> sha_state" where
  "sha_add (a, b, c, d, e, f, g, h) (a', b', c', d', e', f', g', h') =
     (a + a', b + b', c + c', d + d', e + e', f + f', g + g', h + h')"

definition sha_block :: "sha_state \<Rightarrow> 32 word list \<Rightarrow> sha_state" where
  "sha_block st block = sha_add st (foldl sha_round st (zip sha_K (sha_schedule block)))"

fun sha_blocks :: "nat \<Rightarrow> sha_state \<Rightarrow> 32 word list \<Rightarrow> sha_state" where
  "sha_blocks 0 st ws = st"
| "sha_blocks (Suc k) st ws = sha_blocks k (sha_block st (take 16 ws)) (drop 16 ws)"

fun sha_output :: "sha_state \<Rightarrow> 8 word list" where
  "sha_output (a, b, c, d, e, f, g, h) = concat (map word_bytes [a, b, c, d, e, f, g, h])"

definition sha256 :: "8 word list \<Rightarrow> 8 word list" where
  "sha256 msg =
     (let ws = be_words (sha_pad msg) in sha_output (sha_blocks (length ws div 16) sha_H0 ws))"

definition sha256_hex :: "string \<Rightarrow> string" where
  "sha256_hex data = hexEncode (sha256 (bytes data))"

lemma length_sha_output [simp]: "length (sha_output st) = 32"
  by (cases st rule: sha_output.cases) (simp add: word_bytes_def)

lemma length_sha256 [simp]: "length (sha256 msg) = 32"
  by (simp add: sha256_def Let_def)

lemma length_hexEncode [simp]: "length (hexEncode bs) = 2 * length bs"
  by (induction bs) (simp_all add: hexEncode_def hex_byte_def)

lemma hex_byte_digits: "set (hex_byte b) \<subseteq> set hex_digits"
proof -
  have "unat b < 256" using unsigned_less[of b] by simp
  then have "unat b div 16 < length hex_digits" "unat b mod 16 < length hex_digits"
    by (auto simp: hex_digits_def)
  then show ?thesis by (auto simp: hex_byte_def intro: nth_mem)
qed

lemma hexEncode_digits: "set (hexEncode bs) \<subseteq> set hex_digits"
  using hex_byte_digits by (auto simp: hexEncode_def)

lemma sha256_hex_empty:
  "sha256_hex [] = ''e3b0c44298fc1c149afbf4c8996fb92427ae41e4649b934ca495991b7852b855''"
  by code_simp

section \<open>FNV-1a\<close>

definition fnv64a :: "string \<Rightarrow> 64 word" where
  "fnv64a s = foldl (\<lambda>h b. (h XOR ucast b) * 1099511628211) 14695981039346656037 (bytes s)"

section \<open>UTF-8\<close>

text \<open>
  \<open>utf8.ValidString\<close>: the encodings of RFC 3629, without surrogates, overlong forms or
  values above U+10FFFF.
\<close>

definition cont_byte :: "nat \<Rightarrow> bool" where
  "cont_byte b \<longleftrightarrow> 0x80 \<le> b \<and> b \<le> 0xBF"

fun utf8_valid :: "nat list \<Rightarrow> bool" where
  "utf8_valid [] = True"
| "utf8_valid (a # rest) =
     (if a < 0x80 then utf8_valid rest
      else if 0xC2 \<le> a \<and> a \<le> 0xDF then
        (case rest of b # rest' \<Rightarrow> cont_byte b \<and> utf8_valid rest' | _ \<Rightarrow> False)
      else if 0xE0 \<le> a \<and> a \<le> 0xEF then
        (case rest of
           b # c # rest' \<Rightarrow>
             (if a = 0xE0 then 0xA0 else 0x80) \<le> b \<and> b \<le> (if a = 0xED then 0x9F else 0xBF) \<and>
             cont_byte c \<and> utf8_valid rest'
         | _ \<Rightarrow> False)
      else if 0xF0 \<le> a \<and> a \<le> 0xF4 then
        (case rest of
           b # c # d # rest' \<Rightarrow>
             (if a = 0xF0 then 0x90 else 0x80) \<le> b \<and> b \<le> (if a = 0xF4 then 0x8F else 0xBF) \<and>
             cont_byte c \<and> cont_byte d \<and> utf8_valid rest'
         | _ \<Rightarrow> False)
      else False)"

definition ValidString :: "string \<Rightarrow> bool" where
  "ValidString s = utf8_valid (map of_char s)"

section \<open>White space\<close>

text \<open>
  \<open>strings.TrimSpace(s) == ""\<close>: every rune of the string is Unicode white space. The
  length in bytes of a leading white-space rune, or 0.
\<close>

definition space_rune :: "nat list \<Rightarrow> nat" where
  "space_rune bs =
     (case bs of
        [] \<Rightarrow> 0
      | a # rest \<Rightarrow>
          if a \<in> {9, 10, 11, 12, 13, 32} then 1
          else (case rest of
                  [] \<Rightarrow> 0
                | b # rest' \<Rightarrow>
                    if a = 0xC2 \<and> (b = 0x85 \<or> b = 0xA0) then 2
                    else (case rest' of
                            [] \<Rightarrow> 0
                          | c # _ \<Rightarrow>
                              if a = 0xE1 \<and> b = 0x9A \<and> c = 0x80 \<or>
                                 a = 0xE2 \<and> b = 0x80 \<and> (0x80 \<le> c \<and> c \<le> 0x8A \<or> c = 0xA8 \<or> c = 0xA9 \<or> c = 0xAF) \<or>
                                 a = 0xE2 \<and> b = 0x81 \<and> c = 0x9F \<or>
                                 a = 0xE3 \<and> b = 0x80 \<and> c = 0x80
                              then 3 else 0)))"

function blank_bytes :: "nat list \<Rightarrow> bool" where
  "blank_bytes bs =
     (if bs = [] then True
      else if space_rune bs = 0 then False
      else blank_bytes (drop (space_rune bs) bs))"
  by pat_completeness auto
termination
  by (relation "measure length") auto

declare blank_bytes.simps [simp del]

definition blank :: "string \<Rightarrow> bool" where
  "blank s = blank_bytes (map of_char s)"

lemma blank_Nil [simp]: "blank []"
  by (simp add: blank_def blank_bytes.simps [of "[]"])

end
