(* ===== verification/Shuffle_Metadata.thy ===== *)
theory Shuffle_Metadata
  imports Sha256
begin

text \<open>
  The metadata of partitioned intermediate data: attempt identities, bucket and map-output
  descriptors (\<open>src/shuffle/metadata.go\<close>), references to a bucket
  (\<open>src/shuffle/reference.go\<close>), the snapshot of accepted inputs of a reduce stage
  (\<open>src/shuffle/input.go\<close>) and the hash partitioner (\<open>src/shuffle/partitioner.go\<close>).

  The \<open>Validate\<close> methods are characterised by declarative predicates; the partitioner is an
  interface, a locale, whose client lemmas (records split into buckets without loss, one
  bucket per key) are used by the executor.
\<close>

section \<open>Descriptors\<close>

definition FormatVersion :: int where
  "FormatVersion = 1"

record AttemptIdentity =
  ai_RunID :: string
  ai_JobID :: JobID
  ai_ShuffleID :: ShuffleID
  ai_StageID :: StageID
  ai_StageAttemptID :: StageAttemptID
  ai_TaskID :: TaskID
  ai_TaskAttemptID :: TaskAttemptID
  ai_MapPartitionID :: PartitionID

record BucketMetadata =
  bm_PartitionID :: PartitionID
  bm_RecordCount :: int
  bm_ByteCount :: int
  bm_SHA256 :: string

record MapOutput =
  mo_Version :: int
  mo_Attempt :: AttemptIdentity
  mo_NumMapPartitions :: int
  mo_NumReducePartitions :: int
  mo_Buckets :: "BucketMetadata list"

record InputReference =
  ir_Attempt :: AttemptIdentity
  ir_PartitionID :: PartitionID

record InputSnapshot =
  is_RunID :: string
  is_JobID :: JobID
  is_ShuffleID :: ShuffleID
  is_StageID :: StageID
  is_StageAttemptID :: StageAttemptID
  is_NumMapPartitions :: int
  is_NumReducePartitions :: int
  is_Outputs :: "MapOutput list"

section \<open>Validation\<close>

datatype MetadataError =
    InvalidRunID
  | NegativeMapPartition
  | UnsupportedVersion int
  | MapPartitionRange
  | IncompleteBuckets
  | BucketOrder nat
  | BucketValues nat
  | EmptyBucketInconsistent nat
  | TooFewBytes nat
  | NegativeInputPartition
  | InvalidSnapshotHeader
  | IncompleteOutputs
  | SnapshotOutput nat MetadataError
  | SnapshotIdentity nat
  | SnapshotPartitions nat

text \<open>
  Ranging over the runes of a string that has a byte outside the hexadecimal digits meets a
  rune outside them, so the test is the test of every byte.
\<close>

definition lowerHex :: "string \<Rightarrow> nat \<Rightarrow> bool" where
  "lowerHex s n =
     (length s = n \<and>
      list_all (\<lambda>c. CHR ''0'' \<le> c \<and> c \<le> CHR ''9'' \<or> CHR ''a'' \<le> c \<and> c \<le> CHR ''f'') s)"

definition AttemptIdentity_Validate :: "AttemptIdentity \<Rightarrow> MetadataError option" where
  "AttemptIdentity_Validate a =
     (if \<not> lowerHex (ai_RunID a) 32 then Some InvalidRunID
      else if ai_MapPartitionID a < 0 then Some NegativeMapPartition
      else None)"

definition emptyDigest :: string where
  "emptyDigest = sha256_hex []"

definition validateBucket :: "nat \<Rightarrow> BucketMetadata \<Rightarrow> MetadataError option" where
  "validateBucket i bucket =
     (if bm_PartitionID bucket \<noteq> int i then Some (BucketOrder i)
      else if bm_RecordCount bucket < 0 \<or> bm_ByteCount bucket < 0 \<or> \<not> lowerHex (bm_SHA256 bucket) 64
      then Some (BucketValues i)
      else if bm_RecordCount bucket = 0
      then (if bm_ByteCount bucket \<noteq> 0 \<or> bm_SHA256 bucket \<noteq> emptyDigest
            then Some (EmptyBucketInconsistent i) else None)
      else if bm_ByteCount bucket < bm_RecordCount bucket then Some (TooFewBytes i)
      else None)"

definition MapOutput_Validate :: "MapOutput \<Rightarrow> MetadataError option" where
  "MapOutput_Validate o1 =
     (if mo_Version o1 \<noteq> FormatVersion then Some (UnsupportedVersion (mo_Version o1))
      else case AttemptIdentity_Validate (mo_Attempt o1) of
        Some err \<Rightarrow> Some err
      | None \<Rightarrow>
          if mo_NumMapPartitions o1 \<le> 0 \<or> ai_MapPartitionID (mo_Attempt o1) \<ge> mo_NumMapPartitions o1
          then Some MapPartitionRange
          else if mo_NumReducePartitions o1 \<le> 0 \<or>
                  int (length (mo_Buckets o1)) \<noteq> mo_NumReducePartitions o1
          then Some IncompleteBuckets
          else first_error (\<lambda>(i, bucket). validateBucket i bucket)
                 (zip [0..<length (mo_Buckets o1)] (mo_Buckets o1)))"

definition InputReference_Validate :: "InputReference \<Rightarrow> MetadataError option" where
  "InputReference_Validate r =
     (case AttemptIdentity_Validate (ir_Attempt r) of
        Some err \<Rightarrow> Some err
      | None \<Rightarrow> if ir_PartitionID r < 0 then Some NegativeInputPartition else None)"

definition validateSnapshotOutput :: "InputSnapshot \<Rightarrow> nat \<Rightarrow> MapOutput \<Rightarrow> MetadataError option" where
  "validateSnapshotOutput s i output =
     (case MapOutput_Validate output of
        Some err \<Rightarrow> Some (SnapshotOutput i err)
      | None \<Rightarrow>
          let a = mo_Attempt output in
          if ai_RunID a \<noteq> is_RunID s \<or> ai_JobID a \<noteq> is_JobID s \<or> ai_ShuffleID a \<noteq> is_ShuffleID s \<or>
             ai_StageID a \<noteq> is_StageID s \<or> ai_StageAttemptID a \<noteq> is_StageAttemptID s
          then Some (SnapshotIdentity i)
          else if ai_MapPartitionID a \<noteq> int i \<or> mo_NumMapPartitions output \<noteq> is_NumMapPartitions s \<or>
                  mo_NumReducePartitions output \<noteq> is_NumReducePartitions s
          then Some (SnapshotPartitions i)
          else None)"

definition InputSnapshot_Validate :: "InputSnapshot \<Rightarrow> MetadataError option" where
  "InputSnapshot_Validate s =
     (if \<not> lowerHex (is_RunID s) 32 \<or> is_NumMapPartitions s \<le> 0 \<or> is_NumReducePartitions s \<le> 0
      then Some InvalidSnapshotHeader
      else if int (length (is_Outputs s)) \<noteq> is_NumMapPartitions s then Some IncompleteOutputs
      else first_error (\<lambda>(i, output). validateSnapshotOutput s i output)
             (zip [0..<length (is_Outputs s)] (is_Outputs s)))"

text \<open>Copies of descriptor slices; the copy has the same elements.\<close>

definition clone_buckets :: "MapOutput \<Rightarrow> MapOutput" where
  "clone_buckets output = output\<lparr>mo_Buckets := [] @ mo_Buckets output\<rparr>"

definition InputSnapshot_Clone :: "InputSnapshot \<Rightarrow> InputSnapshot" where
  "InputSnapshot_Clone s = s\<lparr>is_Outputs := map clone_buckets (is_Outputs s)\<rparr>"

definition CloneInput :: "InputSnapshot option \<Rightarrow> InputSnapshot option" where
  "CloneInput input = (case input of None \<Rightarrow> None | Some s \<Rightarrow> Some (InputSnapshot_Clone s))"

lemma clone_buckets_id [simp]: "clone_buckets output = output"
  by (simp add: clone_buckets_def)

lemma InputSnapshot_Clone_id [simp]: "InputSnapshot_Clone s = s"
  by (simp add: InputSnapshot_Clone_def map_idI)

lemma CloneInput_id [simp]: "CloneInput input = input"
  by (simp add: CloneInput_def split: option.split)

section \<open>What a valid descriptor is\<close>

definition identity_ok :: "AttemptIdentity \<Rightarrow> bool" where
  "identity_ok a \<longleftrightarrow> lowerHex (ai_RunID a) 32 \<and> 0 \<le> ai_MapPartitionID a"

text \<open>
  A bucket descriptor is consistent when it is the descriptor of its own position, its digest
  is a digest, and it is empty as a whole or has at least one byte for each record.
\<close>

definition bucket_ok :: "nat \<Rightarrow> BucketMetadata \<Rightarrow> bool" where
  "bucket_ok i b \<longleftrightarrow>
     bm_PartitionID b = int i \<and> lowerHex (bm_SHA256 b) 64 \<and>
     (bm_RecordCount b = 0 \<and> bm_ByteCount b = 0 \<and> bm_SHA256 b = emptyDigest \<or>
      0 < bm_RecordCount b \<and> bm_RecordCount b \<le> bm_ByteCount b)"

definition output_ok :: "MapOutput \<Rightarrow> bool" where
  "output_ok m \<longleftrightarrow>
     mo_Version m = 1 \<and> identity_ok (mo_Attempt m) \<and>
     ai_MapPartitionID (mo_Attempt m) < mo_NumMapPartitions m \<and>
     0 < mo_NumReducePartitions m \<and> int (length (mo_Buckets m)) = mo_NumReducePartitions m \<and>
     (\<forall>i < length (mo_Buckets m). bucket_ok i (mo_Buckets m ! i))"

definition snapshot_member :: "InputSnapshot \<Rightarrow> nat \<Rightarrow> MapOutput \<Rightarrow> bool" where
  "snapshot_member s i m \<longleftrightarrow>
     output_ok m \<and> ai_RunID (mo_Attempt m) = is_RunID s \<and> ai_JobID (mo_Attempt m) = is_JobID s \<and>
     ai_ShuffleID (mo_Attempt m) = is_ShuffleID s \<and> ai_StageID (mo_Attempt m) = is_StageID s \<and>
     ai_StageAttemptID (mo_Attempt m) = is_StageAttemptID s \<and>
     ai_MapPartitionID (mo_Attempt m) = int i \<and>
     mo_NumMapPartitions m = is_NumMapPartitions s \<and>
     mo_NumReducePartitions m = is_NumReducePartitions s"

definition snapshot_ok :: "InputSnapshot \<Rightarrow> bool" where
  "snapshot_ok s \<longleftrightarrow>
     lowerHex (is_RunID s) 32 \<and> 0 < is_NumReducePartitions s \<and> 0 < is_NumMapPartitions s \<and>
     int (length (is_Outputs s)) = is_NumMapPartitions s \<and>
     (\<forall>i < length (is_Outputs s). snapshot_member s i (is_Outputs s ! i))"

lemma first_error_indexed:
  "first_error (\<lambda>(i, x). f i x) (zip [0..<length xs] xs) = None \<longleftrightarrow>
   (\<forall>i < length xs. f i (xs ! i) = None)"
proof -
  have "set (zip [0..<length xs] xs) = (\<lambda>i. (i, xs ! i)) ` {..<length xs}"
    by (force simp: set_zip)
  then show ?thesis by auto
qed

lemma AttemptIdentity_Validate_iff: "AttemptIdentity_Validate a = None \<longleftrightarrow> identity_ok a"
  by (auto simp: AttemptIdentity_Validate_def identity_ok_def)

lemma validateBucket_iff: "validateBucket i b = None \<longleftrightarrow> bucket_ok i b"
  by (auto simp: validateBucket_def bucket_ok_def)

lemma MapOutput_Validate_iff: "MapOutput_Validate m = None \<longleftrightarrow> output_ok m"
  using AttemptIdentity_Validate_iff [of "mo_Attempt m"]
  by (auto simp: MapOutput_Validate_def output_ok_def FormatVersion_def
      first_error_indexed validateBucket_iff identity_ok_def split: option.splits simp del: first_error_None)

lemma validateSnapshotOutput_iff: "validateSnapshotOutput s i m = None \<longleftrightarrow> snapshot_member s i m"
  using MapOutput_Validate_iff [of m]
  by (auto simp: validateSnapshotOutput_def snapshot_member_def Let_def split: option.splits)

lemma InputSnapshot_Validate_iff: "InputSnapshot_Validate s = None \<longleftrightarrow> snapshot_ok s"
  by (auto simp: InputSnapshot_Validate_def snapshot_ok_def first_error_indexed
      validateSnapshotOutput_iff simp del: first_error_None)

lemma InputReference_Validate_iff:
  "InputReference_Validate r = None \<longleftrightarrow> identity_ok (ir_Attempt r) \<and> 0 \<le> ir_PartitionID r"
  using AttemptIdentity_Validate_iff [of "ir_Attempt r"]
  by (auto simp: InputReference_Validate_def split: option.splits)

lemma hex_digits_lower: "c \<in> set hex_digits \<Longrightarrow>
    CHR ''0'' \<le> c \<and> c \<le> CHR ''9'' \<or> CHR ''a'' \<le> c \<and> c \<le> CHR ''f''"
  by (auto simp: hex_digits_def less_eq_char_def)

lemma lowerHex_hexEncode: "lowerHex (hexEncode bs) n \<longleftrightarrow> n = 2 * length bs"
  using hexEncode_digits [of bs] hex_digits_lower
  by (auto simp: lowerHex_def list_all_iff)

lemma lowerHex_emptyDigest [simp]: "lowerHex emptyDigest 64"
  by (simp add: emptyDigest_def sha256_hex_def lowerHex_hexEncode)

text \<open>
  C15: Validation of a shuffle input snapshot accepts exactly the complete snapshots: it has one
  output for each map partition, the output at position \<open>i\<close> belongs to map partition \<open>i\<close> of the
  producing stage attempt the snapshot names, and each output has one consistent bucket
  descriptor for each reduce partition in order, so that every pair of a map and a reduce
  partition has exactly one bucket. The descriptors of different map partitions come from
  different attempts.
\<close>
theorem InputSnapshot_Validate_correct:
  "(InputSnapshot_Validate s = None \<longleftrightarrow> snapshot_ok s) \<and>
   (snapshot_ok s \<longrightarrow>
      (\<forall>m r. 0 \<le> m \<and> m < is_NumMapPartitions s \<and> 0 \<le> r \<and> r < is_NumReducePartitions s \<longrightarrow>
         (\<exists>!output. output \<in> set (is_Outputs s) \<and> ai_MapPartitionID (mo_Attempt output) = m) \<and>
         (\<exists>output \<in> set (is_Outputs s). ai_MapPartitionID (mo_Attempt output) = m \<and>
            (\<exists>b \<in> set (mo_Buckets output). bm_PartitionID b = r))) \<and>
      distinct (map mo_Attempt (is_Outputs s)))"
proof (intro conjI impI allI)
  show "InputSnapshot_Validate s = None \<longleftrightarrow> snapshot_ok s" by (rule InputSnapshot_Validate_iff)
  assume ok: "snapshot_ok s"
  let ?os = "is_Outputs s"
  have mem: "i < length ?os \<Longrightarrow> snapshot_member s i (?os ! i)" for i using ok by (simp add: snapshot_ok_def)
  then have pos: "i < length ?os \<Longrightarrow> ai_MapPartitionID (mo_Attempt (?os ! i)) = int i" for i
    by (simp add: snapshot_member_def)
  then have inj: "i < length ?os \<Longrightarrow> j < length ?os \<Longrightarrow> mo_Attempt (?os ! i) = mo_Attempt (?os ! j) \<Longrightarrow> i = j" for i j
    by (metis of_nat_eq_iff)
  then show "distinct (map mo_Attempt ?os)"
    unfolding distinct_conv_nth by auto
  fix m r assume b: "0 \<le> m \<and> m < is_NumMapPartitions s \<and> 0 \<le> r \<and> r < is_NumReducePartitions s"
  then have i: "nat m < length ?os" using ok by (auto simp: snapshot_ok_def)
  with b pos have at: "?os ! nat m \<in> set ?os" "ai_MapPartitionID (mo_Attempt (?os ! nat m)) = m" by auto
  show "\<exists>!out. out \<in> set ?os \<and> ai_MapPartitionID (mo_Attempt out) = m"
  proof (rule ex1I)
    show "?os ! nat m \<in> set ?os \<and> ai_MapPartitionID (mo_Attempt (?os ! nat m)) = m" using at by simp
  next
    fix out assume "out \<in> set ?os \<and> ai_MapPartitionID (mo_Attempt out) = m"
    then obtain j where "j < length ?os" "out = ?os ! j" "ai_MapPartitionID (mo_Attempt out) = m"
      by (auto simp: in_set_conv_nth)
    with pos have "j = nat m" by auto
    with \<open>out = ?os ! j\<close> show "out = ?os ! nat m" by simp
  qed
  have "nat r < length (mo_Buckets (?os ! nat m))" "output_ok (?os ! nat m)"
    using mem [OF i] b by (auto simp: snapshot_member_def output_ok_def)
  then have "mo_Buckets (?os ! nat m) ! nat r \<in> set (mo_Buckets (?os ! nat m))"
    "bm_PartitionID (mo_Buckets (?os ! nat m) ! nat r) = r"
    using b by (auto simp: output_ok_def bucket_ok_def)
  with at show "\<exists>out \<in> set ?os. ai_MapPartitionID (mo_Attempt out) = m \<and>
      (\<exists>b \<in> set (mo_Buckets out). bm_PartitionID b = r)" by blast
qed

section \<open>Partitioning by key\<close>

datatype PartitionError = PartitionCountNotPositive | KeyNotUTF8

definition PartitionFor :: "string \<Rightarrow> int \<Rightarrow> PartitionError + PartitionID" where
  "PartitionFor key numPartitions =
     (if numPartitions \<le> 0 then Inl PartitionCountNotPositive
      else if \<not> ValidString key then Inl KeyNotUTF8
      else Inr (to_int64 (uint (fnv64a key mod (of_int numPartitions :: 64 word)))))"

text \<open>
  What a client of a partitioner relies on: a key it accepts has a partition within the count.
  The bucket of a partition holds the records whose key the partitioner sends there.
\<close>

definition bucket :: "(string \<Rightarrow> 'e + int) \<Rightarrow> (string \<times> 'v) list \<Rightarrow> int \<Rightarrow> (string \<times> 'v) list" where
  "bucket part rs p = filter (\<lambda>(k, v). part k = Inr p) rs"

locale partitioner =
  fixes part :: "string \<Rightarrow> 'e + int"
    and accepts :: "string \<Rightarrow> bool"
    and n :: int
  assumes part_range: "accepts k \<Longrightarrow> \<exists>p. part k = Inr p \<and> 0 \<le> p \<and> p < n"
begin

lemma bucket_key: "part k = Inr p \<Longrightarrow> filter (\<lambda>r. fst r = k) (bucket part rs p) = filter (\<lambda>r. fst r = k) rs"
  by (auto simp: bucket_def intro!: filter_cong)

lemma bucket_other: "part k \<noteq> Inr p \<Longrightarrow> filter (\<lambda>r. fst r = k) (bucket part rs p) = []"
  by (auto simp: bucket_def filter_empty_conv)

lemma buckets_complete:
  assumes "\<forall>r \<in> set rs. accepts (fst r)"
  shows "(\<Union>p \<in> {0..<n}. set (bucket part rs p)) = set rs"
  using part_range assms by (force simp: bucket_def)

lemma buckets_length:
  assumes "\<forall>r \<in> set rs. accepts (fst r)"
  shows "(\<Sum>p \<in> {0..<n}. length (bucket part rs p)) = length rs"
  using assms
proof (induction rs)
  case (Cons r rs)
  obtain q where q: "part (fst r) = Inr q" "0 \<le> q" "q < n" using part_range Cons.prems by force
  have "(\<Sum>p \<in> {0..<n}. length (bucket part (r # rs) p)) =
        (\<Sum>p \<in> {0..<n}. (if p = q then 1 else 0) + length (bucket part rs p))"
    using q(1) by (intro sum.cong) (auto simp: bucket_def split: prod.splits)
  then show ?case using Cons q by (simp add: sum.distrib)
qed (simp add: bucket_def)

end

lemma uint_word_mod:
  assumes "0 < n" "n < 2 ^ 63"
  shows "uint (w mod (of_int n :: 64 word)) = uint w mod n"
  using assms by (simp add: uint_mod uint_word_of_int)

lemma PartitionFor_value:
  assumes "0 < n" "n < 2 ^ 63" "ValidString key"
  shows "PartitionFor key n = Inr (uint (fnv64a key) mod n)"
proof -
  have "0 \<le> uint (fnv64a key) mod n" "uint (fnv64a key) mod n < 2 ^ 63"
    using assms pos_mod_bound [of n "uint (fnv64a key)"] by (simp, linarith)
  then have "to_int64 (uint (fnv64a key) mod n) = uint (fnv64a key) mod n" by (intro to_int64_id) auto
  then show ?thesis using assms by (simp add: PartitionFor_def uint_word_mod)
qed

text \<open>The contract holds of the hash partitioner for every count a Go \<open>int\<close> holds.\<close>

interpretation hash: partitioner "\<lambda>k. PartitionFor k n" "\<lambda>k. ValidString k \<and> 0 < n \<and> n < 2 ^ 63" n
  for n :: int
  by unfold_locales (auto simp: PartitionFor_value)

text \<open>
  C22: For every count an \<open>int\<close> holds, \<open>PartitionFor\<close> accepts exactly the valid UTF-8 keys when the
  count is positive, and then returns the 64-bit FNV-1a hash of the key modulo the count, which is
  at least 0 and below the count. Splitting records with valid keys into buckets loses nothing:
  every bucket holds all records of its keys in their order and no record of another bucket's
  keys, and the bucket sizes add up to the number of records.
\<close>
theorem PartitionFor_correct:
  assumes "n < 2 ^ 63"
  shows "((\<exists>p. PartitionFor key n = Inr p) \<longleftrightarrow> 0 < n \<and> ValidString key) \<and>
    (\<forall>p. PartitionFor key n = Inr p \<longrightarrow>
       p = uint (fnv64a key) mod n \<and> 0 \<le> p \<and> p < n \<and>
       (\<forall>q. filter (\<lambda>r. fst r = key) (bucket (\<lambda>k. PartitionFor k n) rs q) =
             (if q = p then filter (\<lambda>r. fst r = key) rs else []))) \<and>
    (0 < n \<and> (\<forall>r \<in> set rs. ValidString (fst r)) \<longrightarrow>
       (\<Sum>p \<in> {0..<n}. length (bucket (\<lambda>k. PartitionFor k n) rs p)) = length rs)"
proof (intro conjI allI impI)
  show ex: "(\<exists>p. PartitionFor key n = Inr p) \<longleftrightarrow> 0 < n \<and> ValidString key"
    using assms PartitionFor_value [of n key] by (auto simp: PartitionFor_def)
  fix p q assume p: "PartitionFor key n = Inr p"
  then have ok: "0 < n" "ValidString key" using ex by auto
  with p assms show v: "p = uint (fnv64a key) mod n" by (simp add: PartitionFor_value)
  show "0 \<le> p" "p < n" using v ok by simp_all
  show "filter (\<lambda>r. fst r = key) (bucket (\<lambda>k. PartitionFor k n) rs q) =
      (if q = p then filter (\<lambda>r. fst r = key) rs else [])"
    by (cases "q = p") (simp_all add: hash.bucket_key p hash.bucket_other)
next
  assume "0 < n \<and> (\<forall>r \<in> set rs. ValidString (fst r))"
  then show "(\<Sum>p \<in> {0..<n}. length (bucket (\<lambda>k. PartitionFor k n) rs p)) = length rs"
    using assms by (intro hash.buckets_length) auto
qed

theorem PartitionFor_correct_witness:
  "PartitionFor ''spark'' 4 = Inr (uint (fnv64a ''spark'') mod 4) \<and> uint (fnv64a ''spark'') mod 4 < (4 :: int)"
proof -
  have "ValidString ''spark''" by code_simp
  then obtain p where "PartitionFor ''spark'' 4 = Inr p" using PartitionFor_correct [of 4 "''spark''" "[]"] by auto
  then show ?thesis using PartitionFor_correct [of 4 "''spark''" "[]"] by auto
qed

section \<open>A snapshot of two map outputs\<close>

lemma emptyDigest_value [code]:
  "emptyDigest = ''e3b0c44298fc1c149afbf4c8996fb92427ae41e4649b934ca495991b7852b855''"
  by (simp add: emptyDigest_def sha256_hex_empty)

definition ex_identity :: "int \<Rightarrow> AttemptIdentity" where
  "ex_identity m = \<lparr>ai_RunID = replicate 32 CHR ''a'', ai_JobID = 0, ai_ShuffleID = 0, ai_StageID = 0,
     ai_StageAttemptID = 0, ai_TaskID = of_int m, ai_TaskAttemptID = of_int m, ai_MapPartitionID = m\<rparr>"

definition ex_output :: "int \<Rightarrow> MapOutput" where
  "ex_output m = \<lparr>mo_Version = 1, mo_Attempt = ex_identity m, mo_NumMapPartitions = 2,
     mo_NumReducePartitions = 1,
     mo_Buckets = [\<lparr>bm_PartitionID = 0, bm_RecordCount = 0, bm_ByteCount = 0, bm_SHA256 = emptyDigest\<rparr>]\<rparr>"

definition ex_snapshot :: InputSnapshot where
  "ex_snapshot = \<lparr>is_RunID = replicate 32 CHR ''a'', is_JobID = 0, is_ShuffleID = 0, is_StageID = 0,
     is_StageAttemptID = 0, is_NumMapPartitions = 2, is_NumReducePartitions = 1,
     is_Outputs = [ex_output 0, ex_output 1]\<rparr>"

lemma lowerHex_ex: "lowerHex (replicate 32 CHR ''a'') 32"
  by code_simp

lemma ex_output_ok: "m \<in> {0, 1} \<Longrightarrow> output_ok (ex_output m)"
  by (auto simp: output_ok_def ex_output_def ex_identity_def identity_ok_def lowerHex_ex bucket_ok_def)

lemma ex_snapshot_ok: "snapshot_ok ex_snapshot"
  using ex_output_ok [of 0] ex_output_ok [of 1]
  by (auto simp: snapshot_ok_def ex_snapshot_def lowerHex_ex snapshot_member_def less_Suc_eq)
    (auto simp: ex_output_def ex_identity_def)

theorem InputSnapshot_Validate_correct_witness:
  "snapshot_ok ex_snapshot \<and> InputSnapshot_Validate ex_snapshot = None \<and>
   distinct (map mo_Attempt (is_Outputs ex_snapshot))"
  using InputSnapshot_Validate_correct [of ex_snapshot] ex_snapshot_ok by auto

end
