(* ===== verification/Task_Output.thy ===== *)
theory Task_Output
  imports Stage_Planner Shuffle_Metadata
begin

text \<open>
  What crosses the boundary between a worker and the schedulers: task sets
  (\<open>src/scheduler/task_set.go\<close>), attempt identities and reports (\<open>src/scheduler/task.go\<close>),
  task outputs and their acceptance test (\<open>src/scheduler/event.go\<close>,
  \<open>src/scheduler/task_output.go\<close>), and the classification of failures
  (\<open>src/scheduler/failure.go\<close>).

  Go errors that are inspected with \<open>errors.Is\<close> and \<open>errors.As\<close> are trees; messages that the
  program builds with \<open>fmt.Sprintf\<close> and never parses are constructors.
\<close>

section \<open>Values and errors\<close>

text \<open>The dynamic types of \<open>any\<close> that the program distinguishes.\<close>

datatype any =
    NilV
  | BoolV bool
  | StringV string
  | IntV int
  | Int64V int
  | NumberV string
  | KeyValueV string any
  | ArrayV "any list"
  | ObjectV "(string \<times> any) list"
  | RawMessageV string
  | OtherV nat

datatype go_error =
    ErrorText string
  | ContextError ctx_err
  | ErrNotExist
  | ErrPermission
  | ErrInvalidRecord
  | ErrRecordTooLarge
  | ErrShuffleInput
  | ErrEOF
  | InputError AttemptIdentity PartitionID go_error
  | permanentError go_error
  | WrapError "go_error list"

text \<open>The errors of a tree in the order in which \<open>errors.Is\<close> and \<open>errors.As\<close> visit them.\<close>

fun error_tree :: "go_error \<Rightarrow> go_error list" where
  "error_tree (InputError a p e) = InputError a p e # error_tree e"
| "error_tree (permanentError e) = permanentError e # error_tree e"
| "error_tree (WrapError es) = WrapError es # concat (map error_tree es)"
| "error_tree e = [e]"

definition error_matches :: "go_error \<Rightarrow> go_error \<Rightarrow> bool" where
  "error_matches target e \<longleftrightarrow>
     e = target \<or> (case e of InputError _ _ _ \<Rightarrow> target = ErrShuffleInput | _ \<Rightarrow> False)"

definition errors_Is :: "go_error \<Rightarrow> go_error \<Rightarrow> bool" where
  "errors_Is e target = list_ex (error_matches target) (error_tree e)"

fun as_input :: "go_error \<Rightarrow> (AttemptIdentity \<times> PartitionID) option" where
  "as_input (InputError a p e) = Some (a, p)"
| "as_input _ = None"

fun is_permanent :: "go_error \<Rightarrow> bool" where
  "is_permanent (permanentError e) = True"
| "is_permanent _ = False"

definition errors_As_InputError :: "go_error \<Rightarrow> (AttemptIdentity \<times> PartitionID) option" where
  "errors_As_InputError e =
     (case List.map_filter as_input (error_tree e) of [] \<Rightarrow> None | x # _ \<Rightarrow> Some x)"

definition errors_As_permanentError :: "go_error \<Rightarrow> bool" where
  "errors_As_permanentError e = list_ex is_permanent (error_tree e)"

section \<open>Attempts and reports\<close>

record TaskAttemptIdentity =
  tai_ID :: TaskAttemptID
  tai_TaskID :: TaskID
  tai_StageAttemptID :: StageAttemptID

datatype TaskState = TaskPending | TaskRunning | TaskSucceeded | TaskFailed

record TaskAttempt =
  ta_Identity :: TaskAttemptIdentity
  ta_Task :: Task
  ta_WorkerID :: WorkerID
  ta_State :: TaskState

record TaskOutput =
  to_Records :: "any list option"
  to_Count :: int
  to_ShuffleOutput :: "MapOutput option"

datatype FailureKind =
    FailureExecution
  | FailurePermanent
  | FailureShuffleInput
  | FailureCanceled
  | FailureWorkerLost
  | FailureKindOther string

text \<open>The text of a failure: a worker's own message, or the scheduler's message on expiry.\<close>

datatype errorText = Text string | HeartbeatExpired WorkerID

record TaskAttemptSuccess =
  ts_JobID :: JobID
  ts_StageID :: StageID
  ts_Attempt :: TaskAttemptIdentity
  ts_PartitionID :: PartitionID
  ts_WorkerID :: WorkerID
  ts_Output :: TaskOutput

record TaskAttemptFailure =
  tf_Kind :: FailureKind
  tf_ShuffleInput :: "InputReference option"
  tf_JobID :: JobID
  tf_StageID :: StageID
  tf_Attempt :: TaskAttemptIdentity
  tf_PartitionID :: PartitionID
  tf_WorkerID :: WorkerID
  tf_Error :: errorText

record TaskExecution =
  te_RunID :: string
  te_JobID :: JobID
  te_Task :: Task
  te_Attempt :: TaskAttemptIdentity
  te_WorkerID :: WorkerID
  te_ShuffleInputs :: "InputSnapshot option"

record TaskSet =
  set_ShuffleInputs :: "InputSnapshot option"
  set_JobID :: JobID
  set_StageID :: StageID
  set_StageAttemptID :: StageAttemptID
  set_Tasks :: "Task list"

datatype ExecutionError = ExecutionRunID | ExecutionWorkerID | ExecutionTaskMismatch

text \<open>
  The run identifier must be its own lower case and decode as hexadecimal: every byte is a
  lower-case hexadecimal digit. Both failures are reported under \<open>run_id\<close>.
\<close>

definition TaskExecution_Validate :: "TaskExecution \<Rightarrow> ExecutionError option" where
  "TaskExecution_Validate e =
     (if \<not> lowerHex (te_RunID e) 32 then Some ExecutionRunID
      else if blank (te_WorkerID e) then Some ExecutionWorkerID
      else if tai_TaskID (te_Attempt e) \<noteq> task_ID (te_Task e) then Some ExecutionTaskMismatch
      else None)"

section \<open>Acceptance of task output\<close>

datatype OutputError =
    MapRequiresShuffleOutput
  | OutputMetadata MetadataError
  | OutputMismatch
  | ResultRequiresAction
  | CountHasRecords
  | CollectRequiresRecords
  | UnsupportedResultAction ActionKind

definition ValidateFor :: "TaskOutput \<Rightarrow> TaskExecution \<Rightarrow> OutputError option" where
  "ValidateFor o1 e =
     (let t = te_Task e in
      if task_StageKind t = StageShuffleMap then
        (case (task_ShuffleWrite t, to_ShuffleOutput o1) of
           (Some write, Some m) \<Rightarrow>
             if task_FinalAction t \<noteq> None \<or> to_Records o1 \<noteq> None \<or> to_Count o1 \<noteq> 0
             then Some MapRequiresShuffleOutput
             else (case MapOutput_Validate m of
                     Some err \<Rightarrow> Some (OutputMetadata err)
                   | None \<Rightarrow>
                       let a = mo_Attempt m in
                       if ai_RunID a \<noteq> te_RunID e \<or> ai_JobID a \<noteq> te_JobID e \<or>
                          ai_ShuffleID a \<noteq> sw_ShuffleID write \<or> ai_StageID a \<noteq> task_StageID t \<or>
                          ai_StageAttemptID a \<noteq> tai_StageAttemptID (te_Attempt e) \<or>
                          ai_TaskID a \<noteq> task_ID t \<or> ai_TaskAttemptID a \<noteq> tai_ID (te_Attempt e) \<or>
                          ai_MapPartitionID a \<noteq> task_PartitionID t \<or>
                          mo_NumMapPartitions m \<noteq> task_NumPartitions t \<or>
                          mo_NumReducePartitions m \<noteq> ps_NumPartitions (sw_Partitioner write)
                       then Some OutputMismatch
                       else None)
         | _ \<Rightarrow> Some MapRequiresShuffleOutput)
      else if task_StageKind t \<noteq> StageResult \<or> to_ShuffleOutput o1 \<noteq> None \<or> to_Count o1 < 0
      then Some ResultRequiresAction
      else (case task_FinalAction t of
              None \<Rightarrow> Some ResultRequiresAction
            | Some action \<Rightarrow>
                (case act_Kind action of
                   ActionCount \<Rightarrow> if to_Records o1 \<noteq> None then Some CountHasRecords else None
                 | ActionCollect \<Rightarrow>
                     if to_Count o1 \<noteq> 0 \<or> to_Records o1 = None then Some CollectRequiresRecords else None
                 | kind \<Rightarrow> Some (UnsupportedResultAction kind))))"

definition TaskOutput_Clone :: "TaskOutput \<Rightarrow> TaskOutput" where
  "TaskOutput_Clone o1 =
     o1\<lparr>to_Records := map_option (\<lambda>rs. [] @ rs) (to_Records o1),
        to_ShuffleOutput := map_option clone_buckets (to_ShuffleOutput o1)\<rparr>"

lemma TaskOutput_Clone_id [simp]: "TaskOutput_Clone o1 = o1"
  by (cases o1; cases "to_ShuffleOutput o1"; cases "to_Records o1") (simp_all add: TaskOutput_Clone_def)

text \<open>The identity a map task's output carries (\<open>runShuffleMap\<close> builds the same record).\<close>

definition map_identity :: "TaskExecution \<Rightarrow> ShuffleWriteSpec \<Rightarrow> AttemptIdentity" where
  "map_identity e write =
     \<lparr>ai_RunID = te_RunID e, ai_JobID = te_JobID e, ai_ShuffleID = sw_ShuffleID write,
      ai_StageID = task_StageID (te_Task e), ai_StageAttemptID = tai_StageAttemptID (te_Attempt e),
      ai_TaskID = task_ID (te_Task e), ai_TaskAttemptID = tai_ID (te_Attempt e),
      ai_MapPartitionID = task_PartitionID (te_Task e)\<rparr>"

definition map_output_for :: "TaskExecution \<Rightarrow> TaskOutput \<Rightarrow> bool" where
  "map_output_for e o1 \<longleftrightarrow>
     (\<exists>write m. task_ShuffleWrite (te_Task e) = Some write \<and> task_FinalAction (te_Task e) = None \<and>
        o1 = \<lparr>to_Records = None, to_Count = 0, to_ShuffleOutput = Some m\<rparr> \<and>
        output_ok m \<and> mo_Attempt m = map_identity e write \<and>
        mo_NumMapPartitions m = task_NumPartitions (te_Task e) \<and>
        mo_NumReducePartitions m = ps_NumPartitions (sw_Partitioner write))"

definition action_output_for :: "TaskExecution \<Rightarrow> TaskOutput \<Rightarrow> bool" where
  "action_output_for e o1 \<longleftrightarrow>
     (\<exists>action. task_FinalAction (te_Task e) = Some action \<and>
        (act_Kind action = ActionCount \<and> 0 \<le> to_Count o1 \<and>
           o1 = \<lparr>to_Records = None, to_Count = to_Count o1, to_ShuffleOutput = None\<rparr> \<or>
         act_Kind action = ActionCollect \<and>
           (\<exists>rs. o1 = \<lparr>to_Records = Some rs, to_Count = 0, to_ShuffleOutput = None\<rparr>)))"

lemma mo_Attempt_eq_map_identity:
  "mo_Attempt m = map_identity e write \<longleftrightarrow>
     (let a = mo_Attempt m; t = te_Task e in
      ai_RunID a = te_RunID e \<and> ai_JobID a = te_JobID e \<and>
      ai_ShuffleID a = sw_ShuffleID write \<and> ai_StageID a = task_StageID t \<and>
      ai_StageAttemptID a = tai_StageAttemptID (te_Attempt e) \<and>
      ai_TaskID a = task_ID t \<and> ai_TaskAttemptID a = tai_ID (te_Attempt e) \<and>
      ai_MapPartitionID a = task_PartitionID t)"
  by (cases "mo_Attempt m") (auto simp: map_identity_def Let_def)

lemma ValidateFor_map:
  assumes "task_StageKind (te_Task e) = StageShuffleMap"
  shows "ValidateFor o1 e = None \<longleftrightarrow> map_output_for e o1"
proof (cases "task_ShuffleWrite (te_Task e)"; cases "to_ShuffleOutput o1")
  fix w m
  assume wm: "task_ShuffleWrite (te_Task e) = Some w" "to_ShuffleOutput o1 = Some m"
  have "o1 = \<lparr>to_Records = None, to_Count = 0, to_ShuffleOutput = Some m'\<rparr> \<longleftrightarrow>
      to_Records o1 = None \<and> to_Count o1 = 0 \<and> m' = m" for m'
    using wm by (cases o1) auto
  with assms wm show ?thesis
    by (auto simp: ValidateFor_def map_output_for_def mo_Attempt_eq_map_identity Let_def
        MapOutput_Validate_iff [symmetric] split: option.splits)
qed (use assms in \<open>auto simp: ValidateFor_def map_output_for_def Let_def\<close>)

lemma ValidateFor_result:
  assumes "task_StageKind (te_Task e) = StageResult"
  shows "ValidateFor o1 e = None \<longleftrightarrow> action_output_for e o1"
  using assms
  by (cases o1) (auto simp: ValidateFor_def action_output_for_def Let_def
      split: option.splits ActionKind.splits)

text \<open>
  C13: The schedulers accept exactly the output that the assigned task must produce. A map task's
  output is accepted exactly when it consists of one valid map-output descriptor whose attempt
  identity is that of the assignment (run, job, shuffle, stage, stage attempt, task, task attempt
  and map partition) with the assigned numbers of map and reduce partitions. A result task's output
  is accepted exactly when it is a non-negative count for \<open>Count\<close> or a record array for \<open>Collect\<close>,
  and nothing else. Output of any other kind of task is rejected.
\<close>
theorem ValidateFor_correct:
  "ValidateFor o1 e = None \<longleftrightarrow>
     task_StageKind (te_Task e) = StageShuffleMap \<and> map_output_for e o1 \<or>
     task_StageKind (te_Task e) = StageResult \<and> action_output_for e o1"
proof (cases "task_StageKind (te_Task e)")
  case (StageKindOther k)
  then show ?thesis by (simp add: ValidateFor_def Let_def)
qed (auto simp: ValidateFor_map ValidateFor_result)

section \<open>Failures\<close>

datatype FailureError =
    FailureRequiresInput
  | FailureReference MetadataError
  | FailureHasInput
  | UnknownFailureKind FailureKind

definition ValidateFailure :: "FailureKind \<Rightarrow> InputReference option \<Rightarrow> FailureError option" where
  "ValidateFailure kind input =
     (case kind of
        FailureShuffleInput \<Rightarrow>
          (case input of
             None \<Rightarrow> Some FailureRequiresInput
           | Some ref \<Rightarrow> map_option FailureReference (InputReference_Validate ref))
      | FailureExecution \<Rightarrow> if input \<noteq> None then Some FailureHasInput else None
      | FailurePermanent \<Rightarrow> if input \<noteq> None then Some FailureHasInput else None
      | FailureCanceled \<Rightarrow> if input \<noteq> None then Some FailureHasInput else None
      | _ \<Rightarrow> Some (UnknownFailureKind kind))"

definition PermanentFailure :: "go_error option \<Rightarrow> go_error option" where
  "PermanentFailure err = map_option permanentError err"

definition ClassifyFailure :: "ctx_err option \<Rightarrow> go_error \<Rightarrow> FailureKind \<times> InputReference option" where
  "ClassifyFailure ctx err =
     (if ctx \<noteq> None \<or> errors_Is err (ContextError Canceled) \<or> errors_Is err (ContextError DeadlineExceeded)
      then (FailureCanceled, None)
      else case errors_As_InputError err of
        Some (attempt, p) \<Rightarrow> (FailureShuffleInput, Some \<lparr>ir_Attempt = attempt, ir_PartitionID = p\<rparr>)
      | None \<Rightarrow>
          if errors_As_permanentError err \<or> errors_Is err ErrNotExist \<or> errors_Is err ErrPermission \<or>
             errors_Is err ErrInvalidRecord \<or> errors_Is err ErrRecordTooLarge
          then (FailurePermanent, None)
          else (FailureExecution, None))"

lemma ValidateFailure_iff:
  "ValidateFailure kind input = None \<longleftrightarrow>
     kind = FailureShuffleInput \<and> (\<exists>ref. input = Some ref \<and> identity_ok (ir_Attempt ref) \<and> 0 \<le> ir_PartitionID ref) \<or>
     kind \<in> {FailureExecution, FailurePermanent, FailureCanceled} \<and> input = None"
  by (cases kind) (auto simp: ValidateFailure_def InputReference_Validate_iff split: option.splits)

lemma error_tree_self: "e \<in> set (error_tree e)"
  by (cases e) auto

lemma errors_As_InputError_iff:
  "errors_As_InputError e = None \<longleftrightarrow> (\<forall>a p i. InputError a p i \<notin> set (error_tree e))"
proof -
  have "as_input x = None \<longleftrightarrow> (\<forall>a p i. x \<noteq> InputError a p i)" for x by (cases x) auto
  moreover have "errors_As_InputError e = None \<longleftrightarrow> List.map_filter as_input (error_tree e) = []"
    by (simp add: errors_As_InputError_def split: list.splits)
  ultimately show ?thesis
    by (auto simp: List.map_filter_def filter_empty_conv)
qed

lemma errors_As_InputError_Some:
  assumes "errors_As_InputError e = Some (a, p)"
  shows "\<exists>i. InputError a p i \<in> set (error_tree e)"
proof -
  have "(a, p) \<in> set (List.map_filter as_input (error_tree e))"
    using assms by (simp add: errors_As_InputError_def split: list.splits)
  then obtain x where "x \<in> set (error_tree e)" "as_input x = Some (a, p)"
    by (auto simp: List.map_filter_def)
  moreover from this(2) obtain i where "x = InputError a p i" by (cases x) auto
  ultimately show ?thesis by auto
qed

text \<open>
  C23: Classification of an execution error, in this precedence: a cancelled context or a
  cancellation anywhere in the error makes it \<open>canceled\<close>; otherwise an input error anywhere in it
  makes it \<open>shuffle_input\<close> with the reference of such an error; otherwise a permanent marker, a
  missing or forbidden file or a bad record makes it \<open>permanent\<close>; every other error is \<open>execution\<close>.
  The result is never the scheduler's own \<open>worker_lost\<close>, and the coordinator's validation accepts it
  whenever the input error named a valid bucket.
\<close>
theorem ClassifyFailure_correct:
  assumes "ClassifyFailure ctx err = (kind, input)"
  defines "canceled \<equiv> ctx \<noteq> None \<or> (\<exists>c. errors_Is err (ContextError c))"
    and "lost \<equiv> \<exists>a p i. InputError a p i \<in> set (error_tree err)"
    and "hopeless \<equiv> errors_As_permanentError err \<or>
           list_ex (errors_Is err) [ErrNotExist, ErrPermission, ErrInvalidRecord, ErrRecordTooLarge]"
  shows "(kind = FailureCanceled \<longleftrightarrow> canceled) \<and>
    (kind = FailureShuffleInput \<longleftrightarrow> \<not> canceled \<and> lost) \<and>
    (kind = FailurePermanent \<longleftrightarrow> \<not> canceled \<and> \<not> lost \<and> hopeless) \<and>
    (kind = FailureExecution \<longleftrightarrow> \<not> canceled \<and> \<not> lost \<and> \<not> hopeless) \<and>
    kind \<noteq> FailureWorkerLost \<and>
    (kind = FailureShuffleInput \<longrightarrow>
       (\<exists>a p i. input = Some \<lparr>ir_Attempt = a, ir_PartitionID = p\<rparr> \<and> InputError a p i \<in> set (error_tree err) \<and>
          (identity_ok a \<and> 0 \<le> p \<longrightarrow> ValidateFailure kind input = None))) \<and>
    (kind \<noteq> FailureShuffleInput \<longrightarrow> ValidateFailure kind input = None)"
proof -
  have can: "canceled \<longleftrightarrow> ctx \<noteq> None \<or> errors_Is err (ContextError Canceled) \<or>
      errors_Is err (ContextError DeadlineExceeded)"
    unfolding canceled_def by (metis ctx_err.exhaust)
  have lost: "lost \<longleftrightarrow> errors_As_InputError err \<noteq> None"
    unfolding lost_def errors_As_InputError_iff by blast
  consider (c) "canceled" "kind = FailureCanceled" "input = None"
    | (l) a p where "\<not> canceled" "errors_As_InputError err = Some (a, p)" "kind = FailureShuffleInput"
        "input = Some \<lparr>ir_Attempt = a, ir_PartitionID = p\<rparr>"
    | (h) "\<not> canceled" "\<not> lost" "hopeless" "kind = FailurePermanent" "input = None"
    | (x) "\<not> canceled" "\<not> lost" "\<not> hopeless" "kind = FailureExecution" "input = None"
    using assms(1) unfolding ClassifyFailure_def can lost hopeless_def
    by (auto split: if_splits option.splits)
  then show ?thesis
  proof cases
    case l
    then show ?thesis using errors_As_InputError_Some [OF l(2)] lost by (auto simp: ValidateFailure_iff)
  qed (auto simp: ValidateFailure_iff lost)
qed

theorem ClassifyFailure_correct_witness:
  "ClassifyFailure None (WrapError [permanentError ErrEOF, InputError (ex_identity 1) 0 (ErrorText ''gone'')]) =
     (FailureShuffleInput, Some \<lparr>ir_Attempt = ex_identity 1, ir_PartitionID = 0\<rparr>) \<and>
   (\<not> errors_Is (WrapError [permanentError ErrEOF, InputError (ex_identity 1) 0 (ErrorText ''gone'')])
        (ContextError Canceled))"
proof -
  have e: "ClassifyFailure None (WrapError [permanentError ErrEOF, InputError (ex_identity 1) 0 (ErrorText ''gone'')]) =
     (FailureShuffleInput, Some \<lparr>ir_Attempt = ex_identity 1, ir_PartitionID = 0\<rparr>)" by code_simp
  then show ?thesis using ClassifyFailure_correct [OF e] by auto
qed

end
