(* ===== verification/Worker_Registry.thy ===== *)
theory Worker_Registry
  imports Prelude
begin

text \<open>
  The registry of workers, \<open>src/scheduler/worker_registry.go\<close>: identities that are never
  forgotten, their liveness, their last heartbeat and the attempts that hold their slots.
\<close>

section \<open>Time\<close>

text \<open>
  A \<open>time.Time\<close> is its distance in nanoseconds from a fixed instant; \<open>Sub\<close> saturates at the
  bounds of \<open>time.Duration\<close>, an \<open>int64\<close>.
\<close>

type_synonym time = int
type_synonym duration = int

definition time_Sub :: "time \<Rightarrow> time \<Rightarrow> duration" where
  "time_Sub t u = max (- (2 ^ 63)) (min (2 ^ 63 - 1) (t - u))"

section \<open>Workers\<close>

datatype WorkerStatus = WorkerAlive | WorkerLost

record WorkerSnapshot =
  ws_ID :: WorkerID
  ws_Status :: WorkerStatus
  ws_TotalSlots :: int
  ws_ReportedFreeSlots :: int
  ws_RunningAttemptIDs :: "TaskAttemptID list"
  ws_LastHeartbeat :: time
  ws_ReservedSlots :: int

record workerState = WorkerSnapshot +
  w_reserved :: "TaskAttemptID fset"

type_synonym WorkerRegistry = "(WorkerID, workerState) fmap"

datatype WorkerError =
    ErrUnknownWorker WorkerID
  | ErrWorkerLost WorkerID
  | ErrWorkerConflict WorkerID int
  | ErrInvalidWorker
  | ErrInvalidCapacity WorkerID
  | ErrInvalidRunningAttempt TaskAttemptID WorkerID

definition new_worker :: "WorkerID \<Rightarrow> int \<Rightarrow> time \<Rightarrow> workerState" where
  "new_worker wid slots now =
     \<lparr>ws_ID = wid, ws_Status = WorkerAlive, ws_TotalSlots = slots, ws_ReportedFreeSlots = 0,
      ws_RunningAttemptIDs = [], ws_LastHeartbeat = now, ws_ReservedSlots = 0, w_reserved = {||}\<rparr>"

definition register :: "WorkerRegistry \<Rightarrow> WorkerID \<Rightarrow> int \<Rightarrow> time \<Rightarrow> WorkerError + WorkerRegistry" where
  "register r wid slots now =
     (if wid = [] \<or> slots \<le> 0 then Inl ErrInvalidWorker
      else case fmlookup r wid of
        Some worker \<Rightarrow>
          if ws_Status worker = WorkerLost then Inl (ErrWorkerLost wid)
          else if ws_TotalSlots worker \<noteq> slots then Inl (ErrWorkerConflict wid (ws_TotalSlots worker))
          else Inr r
      | None \<Rightarrow> Inr (fmupd wid (new_worker wid slots now) r))"

definition snapshot :: "WorkerRegistry \<Rightarrow> WorkerID \<Rightarrow> WorkerError + WorkerSnapshot" where
  "snapshot r wid =
     (case fmlookup r wid of
        None \<Rightarrow> Inl (ErrUnknownWorker wid)
      | Some worker \<Rightarrow>
          Inr (WorkerSnapshot.truncate
                (worker\<lparr>ws_RunningAttemptIDs := sort (ws_RunningAttemptIDs worker),
                        ws_ReservedSlots := int (fcard (w_reserved worker))\<rparr>)))"

lemma register_InrD:
  assumes "register r wid slots now = Inr r'"
  shows "0 < slots \<and> wid \<noteq> [] \<and>
    (r' = r \<and> (\<exists>worker. fmlookup r wid = Some worker \<and> ws_Status worker = WorkerAlive \<and> ws_TotalSlots worker = slots) \<or>
     fmlookup r wid = None \<and> r' = fmupd wid (new_worker wid slots now) r)"
  using assms by (auto simp: register_def split: if_splits option.splits) (metis WorkerStatus.exhaust)

text \<open>
  Registration. It succeeds exactly for a non-empty identifier with a positive number of slots
  that is new or names a living worker of the same capacity; a repeated successful registration
  changes nothing; a registered worker is found under its identifier with that capacity, and no
  other worker changes. A lost identifier is refused for good.
\<close>
theorem register_correct:
  "((\<exists>r'. register r wid slots now = Inr r') \<longleftrightarrow>
      wid \<noteq> [] \<and> 0 < slots \<and>
      (case fmlookup r wid of
         None \<Rightarrow> True
       | Some w \<Rightarrow> ws_Status w = WorkerAlive \<and> ws_TotalSlots w = slots)) \<and>
   (\<forall>r'. register r wid slots now = Inr r' \<longrightarrow>
      (\<exists>w. fmlookup r' wid = Some w \<and> ws_Status w = WorkerAlive \<and> ws_TotalSlots w = slots \<and>
           snapshot r' wid \<noteq> Inl (ErrUnknownWorker wid)) \<and>
      (\<forall>other. other \<noteq> wid \<longrightarrow> fmlookup r' other = fmlookup r other) \<and>
      (\<forall>later. register r' wid slots later = Inr r')) \<and>
   (\<forall>w. wid \<noteq> [] \<and> 0 < slots \<and> fmlookup r wid = Some w \<and> ws_Status w = WorkerLost \<longrightarrow>
      register r wid slots now = Inl (ErrWorkerLost wid))"
proof (intro conjI allI impI)
  show "(\<exists>r'. register r wid slots now = Inr r') \<longleftrightarrow> wid \<noteq> [] \<and> 0 < slots \<and>
      (case fmlookup r wid of None \<Rightarrow> True | Some w \<Rightarrow> ws_Status w = WorkerAlive \<and> ws_TotalSlots w = slots)"
    by (auto simp: register_def split: option.splits) (metis WorkerStatus.exhaust)
next
  fix r' assume r': "register r wid slots now = Inr r'"
  note d = register_InrD [OF r']
  show "\<exists>w. fmlookup r' wid = Some w \<and> ws_Status w = WorkerAlive \<and> ws_TotalSlots w = slots \<and>
      snapshot r' wid \<noteq> Inl (ErrUnknownWorker wid)"
    using d by (auto simp: new_worker_def snapshot_def)
  show "fmlookup r' other = fmlookup r other" if "other \<noteq> wid" for other using d that by auto
  show "register r' wid slots later = Inr r'" for later using d by (auto simp: register_def new_worker_def)
qed (auto simp: register_def)

theorem register_correct_witness:
  "\<exists>r'. register fmempty ''w'' 2 0 = Inr r' \<and> register r' ''w'' 2 9 = Inr r'"
  using register_correct [of fmempty "''w''" 2 0] by auto

end
