(* ===== verification/Scheduler_Options.thy ===== *)
theory Scheduler_Options
  imports Prelude
begin

text \<open>
  The limits both schedulers are constructed with: \<open>src/scheduler/options.go\<close>. The logger and the
  clock are not modelled; the clock's readings are arguments of the operations that use it.
\<close>

definition DefaultMaxTaskAttempts :: int where
  "DefaultMaxTaskAttempts = 3"

definition DefaultMaxStageAttempts :: int where
  "DefaultMaxStageAttempts = 2"

datatype Option = WithMaxStageAttempts int | WithMaxTaskAttempts int

record schedulerOptions =
  opt_maxTaskAttempts :: int
  opt_maxStageAttempts :: int

text \<open>The constructors of options panic on a limit that is not positive.\<close>

fun apply_option :: "Option \<Rightarrow> schedulerOptions \<Rightarrow> schedulerOptions option" where
  "apply_option (WithMaxStageAttempts m) c = (if m \<le> 0 then None else Some (c\<lparr>opt_maxStageAttempts := m\<rparr>))"
| "apply_option (WithMaxTaskAttempts m) c = (if m \<le> 0 then None else Some (c\<lparr>opt_maxTaskAttempts := m\<rparr>))"

definition resolveSchedulerOptions :: "Option list \<Rightarrow> schedulerOptions option" where
  "resolveSchedulerOptions options =
     fold (\<lambda>opt c. Option.bind c (apply_option opt)) options
       (Some \<lparr>opt_maxTaskAttempts = DefaultMaxTaskAttempts, opt_maxStageAttempts = DefaultMaxStageAttempts\<rparr>)"

lemma resolve_positive:
  assumes "fold (\<lambda>opt c. Option.bind c (apply_option opt)) options c = Some config"
    "\<forall>c0. c = Some c0 \<longrightarrow> 0 < opt_maxTaskAttempts c0 \<and> 0 < opt_maxStageAttempts c0"
  shows "0 < opt_maxTaskAttempts config \<and> 0 < opt_maxStageAttempts config"
  using assms
proof (induction options arbitrary: c)
  case (Cons opt options)
  have "\<forall>c1. Option.bind c (apply_option opt) = Some c1 \<longrightarrow> 0 < opt_maxTaskAttempts c1 \<and> 0 < opt_maxStageAttempts c1"
    using Cons.prems(2) by (cases opt; cases c) (auto split: if_splits)
  with Cons show ?case by simp
qed simp

lemma resolveSchedulerOptions_positive:
  "resolveSchedulerOptions options = Some config \<Longrightarrow>
     0 < opt_maxTaskAttempts config \<and> 0 < opt_maxStageAttempts config"
  unfolding resolveSchedulerOptions_def
  by (erule resolve_positive) (simp add: DefaultMaxTaskAttempts_def DefaultMaxStageAttempts_def)

end
