(* ===== verification/FIFO_Scheduler.thy ===== *)
theory FIFO_Scheduler
  imports Task_Output Worker_Registry Scheduler_Options
begin

text \<open>
  The physical task scheduler of the coordinator: \<open>src/scheduler/fifo_task_scheduler.go\<close> and
  \<open>src/scheduler/worker_expiry.go\<close>.

  The scheduler's mutable objects live in one state record. A pointer to a task set is its key
  (a key is never reused and a set never removed), a pointer to a logical task is the key of its
  set and the position in it. Every method body runs under the mutex and is one function on the
  state. \<open>ScheduleTaskSet\<close> alone releases the mutex while it runs: it is an admission, and then
  an alternation of \<open>drain\<close> (the loop body) and \<open>await\<close> (the final \<open>select\<close>). The readings of
  contexts are an argument. The loggers are not modelled.
\<close>

section \<open>State\<close>

record TaskAssignment =
  as_ShuffleInputs :: "InputSnapshot option"
  as_RunID :: string
  as_JobID :: JobID
  as_StageID :: StageID
  as_Attempt :: TaskAttempt

record taskSetKey =
  k_job :: JobID
  k_stage :: StageID
  k_attempt :: StageAttemptID

record logicalTaskState =
  lt_task :: Task
  lt_state :: TaskState
  lt_active :: TaskAttemptID
  lt_output :: TaskOutput
  lt_attempts :: int

datatype InvalidReport =
    EmptyFailureMessage
  | ReportOutput OutputError
  | ReportFailureKind FailureError
  | NotAssignedInput

datatype fifoError =
    ErrTaskSchedulerClosed
  | ErrContext ctx_err
  | ObserverNil
  | SetHasNoTasks
  | SetInputsInvalid MetadataError
  | InvalidTask TaskID PartitionID StageID
  | AlreadySubmitted taskSetKey
  | TaskSetFailed StageID TaskID PartitionID errorText
  | ErrWorker WorkerError
  | TimeoutNotPositive
  | ErrUnknownAttempt TaskAttemptID
  | ErrMismatchedReport TaskAttemptID
  | ErrInvalidTaskReport InvalidReport

record terminalReport =
  tr_success :: "TaskAttemptSuccess option"
  tr_failure :: "TaskAttemptFailure option"
  tr_requeued :: bool
  tr_exhausted :: bool
  tr_attempts :: int

text \<open>\<open>fs_wake\<close> tells whether the one-element buffer of the \<open>wake\<close> channel is full.\<close>

record fifoTaskSet =
  fs_inputs :: "InputSnapshot option"
  fs_key :: taskSetKey
  fs_sequence :: "64 word"
  fs_ctx :: ctx
  fs_tasks :: "logicalTaskState list"
  fs_remaining :: int
  fs_reports :: "terminalReport list"
  fs_wake :: bool
  fs_terminal :: bool
  fs_err :: "fifoError option"

record assignedAttempt =
  aa_assignment :: TaskAssignment
  aa_set :: taskSetKey
  aa_task :: nat
  aa_terminal :: bool

record FIFO =
  maxTaskAttempts :: int
  runID :: string
  registry :: WorkerRegistry
  sets :: "(taskSetKey, fifoTaskSet) fmap"
  queue :: "taskSetKey list"
  attempts :: "(TaskAttemptID, assignedAttempt) fmap"
  nextSequence :: "64 word"
  nextAttempt :: TaskAttemptID
  closed :: bool
  submissions :: int

definition NewFIFOTaskScheduler :: "Option list \<Rightarrow> string \<Rightarrow> FIFO option" where
  "NewFIFOTaskScheduler options newRunID =
     (case resolveSchedulerOptions options of
        None \<Rightarrow> None
      | Some config \<Rightarrow>
          Some \<lparr>maxTaskAttempts = opt_maxTaskAttempts config, runID = newRunID, registry = fmempty,
                sets = fmempty, queue = [], attempts = fmempty, nextSequence = 0, nextAttempt = 0,
                closed = False, submissions = 0\<rparr>)"

section \<open>Mutation through pointers\<close>

definition upd_set :: "taskSetKey \<Rightarrow> (fifoTaskSet \<Rightarrow> fifoTaskSet) \<Rightarrow> FIFO \<Rightarrow> FIFO" where
  "upd_set key f s = s\<lparr>sets := fmadjust key f (sets s)\<rparr>"

definition upd_task :: "taskSetKey \<Rightarrow> nat \<Rightarrow> (logicalTaskState \<Rightarrow> logicalTaskState) \<Rightarrow> FIFO \<Rightarrow> FIFO" where
  "upd_task key i f =
     upd_set key (\<lambda>ts. ts\<lparr>fs_tasks := (fs_tasks ts)[i := f (fs_tasks ts ! i)]\<rparr>)"

definition upd_attempt :: "TaskAttemptID \<Rightarrow> (assignedAttempt \<Rightarrow> assignedAttempt) \<Rightarrow> FIFO \<Rightarrow> FIFO" where
  "upd_attempt a f s = s\<lparr>attempts := fmadjust a f (attempts s)\<rparr>"

definition upd_worker :: "WorkerID \<Rightarrow> (workerState \<Rightarrow> workerState) \<Rightarrow> FIFO \<Rightarrow> FIFO" where
  "upd_worker w f s = s\<lparr>registry := fmadjust w f (registry s)\<rparr>"

definition set_terminal :: "FIFO \<Rightarrow> taskSetKey \<Rightarrow> bool" where
  "set_terminal s key = (case fmlookup (sets s) key of None \<Rightarrow> True | Some ts \<Rightarrow> fs_terminal ts)"

definition set_ctx_err :: "ctx_env \<Rightarrow> FIFO \<Rightarrow> taskSetKey \<Rightarrow> ctx_err option" where
  "set_ctx_err env s key = (case fmlookup (sets s) key of None \<Rightarrow> None | Some ts \<Rightarrow> env (fs_ctx ts))"

definition task_at :: "FIFO \<Rightarrow> taskSetKey \<Rightarrow> nat \<Rightarrow> logicalTaskState option" where
  "task_at s key i =
     (case fmlookup (sets s) key of
        None \<Rightarrow> None
      | Some ts \<Rightarrow> if i < length (fs_tasks ts) then Some (fs_tasks ts ! i) else None)"

abbreviation aa_identity :: "assignedAttempt \<Rightarrow> TaskAttemptIdentity" where
  "aa_identity att \<equiv> ta_Identity (as_Attempt (aa_assignment att))"

abbreviation aa_worker :: "assignedAttempt \<Rightarrow> WorkerID" where
  "aa_worker att \<equiv> ta_WorkerID (as_Attempt (aa_assignment att))"

abbreviation aa_Task :: "assignedAttempt \<Rightarrow> Task" where
  "aa_Task att \<equiv> ta_Task (as_Attempt (aa_assignment att))"

section \<open>Notification and completion of a task set\<close>

definition notify :: "taskSetKey \<Rightarrow> FIFO \<Rightarrow> FIFO" where
  "notify key = upd_set key (\<lambda>ts. ts\<lparr>fs_wake := True\<rparr>)"

definition finish :: "taskSetKey \<Rightarrow> fifoError option \<Rightarrow> FIFO \<Rightarrow> FIFO" where
  "finish key err s =
     (if set_terminal s key then s
      else notify key (upd_set key (\<lambda>ts. ts\<lparr>fs_terminal := True, fs_err := err\<rparr>) s))"

definition release :: "assignedAttempt \<Rightarrow> TaskState \<Rightarrow> FIFO \<Rightarrow> FIFO" where
  "release att state s =
     upd_worker (aa_worker att)
       (\<lambda>w. w\<lparr>w_reserved := w_reserved w |-| {|tai_ID (aa_identity att)|}\<rparr>)
      (upd_task (aa_set att) (aa_task att) (\<lambda>t. t\<lparr>lt_state := state\<rparr>)
        (upd_attempt (tai_ID (aa_identity att))
          (\<lambda>a. a\<lparr>aa_terminal := True,
                 aa_assignment := (aa_assignment a)\<lparr>as_Attempt := (as_Attempt (aa_assignment a))\<lparr>ta_State := state\<rparr>\<rparr>\<rparr>)
          s))"

definition compactQueue :: "FIFO \<Rightarrow> FIFO" where
  "compactQueue s = s\<lparr>queue := filter (\<lambda>key. \<not> set_terminal s key) (queue s)\<rparr>"

section \<open>Submission\<close>

definition zeroTaskOutput :: TaskOutput where
  "zeroTaskOutput = \<lparr>to_Records = None, to_Count = 0, to_ShuffleOutput = None\<rparr>"

definition new_logical :: "Task \<Rightarrow> logicalTaskState" where
  "new_logical task = \<lparr>lt_task = cloneTask task, lt_state = TaskPending, lt_active = 0,
     lt_output = zeroTaskOutput, lt_attempts = 0\<rparr>"

fun prepareTasks ::
  "StageID \<Rightarrow> Task list \<Rightarrow> TaskID list \<Rightarrow> PartitionID list \<Rightarrow> logicalTaskState list \<Rightarrow>
   fifoError + logicalTaskState list"
where
  "prepareTasks stage [] ids partitions acc = Inr acc"
| "prepareTasks stage (task # rest) ids partitions acc =
     (if task_StageID task \<noteq> stage \<or> task_PartitionID task < 0 \<or> task_ID task \<in> set ids \<or>
         task_PartitionID task \<in> set partitions
      then Inl (InvalidTask (task_ID task) (task_PartitionID task) stage)
      else prepareTasks stage rest (task_ID task # ids) (task_PartitionID task # partitions)
             (acc @ [new_logical task]))"

definition set_key :: "TaskSet \<Rightarrow> taskSetKey" where
  "set_key input = \<lparr>k_job = set_JobID input, k_stage = set_StageID input, k_attempt = set_StageAttemptID input\<rparr>"

definition prepareTaskSet :: "ctx \<Rightarrow> TaskSet \<Rightarrow> fifoError + fifoTaskSet" where
  "prepareTaskSet c input =
     (if set_Tasks input = [] then Inl SetHasNoTasks
      else case Option.bind (set_ShuffleInputs input) InputSnapshot_Validate of
        Some err \<Rightarrow> Inl (SetInputsInvalid err)
      | None \<Rightarrow>
          (case prepareTasks (set_StageID input) (set_Tasks input) [] [] [] of
             Inl err \<Rightarrow> Inl err
           | Inr tasks \<Rightarrow>
               Inr \<lparr>fs_inputs = CloneInput (set_ShuffleInputs input), fs_key = set_key input,
                    fs_sequence = 0, fs_ctx = c,
                    fs_tasks = sort_key (\<lambda>t. task_PartitionID (lt_task t)) tasks,
                    fs_remaining = int (length (set_Tasks input)), fs_reports = [], fs_wake = False,
                    fs_terminal = False, fs_err = None\<rparr>))"

definition ScheduleTaskSet_admit ::
  "ctx_env \<Rightarrow> ctx \<Rightarrow> TaskSet \<Rightarrow> bool \<Rightarrow> FIFO \<Rightarrow> (fifoError + taskSetKey) \<times> FIFO"
where
  "ScheduleTaskSet_admit env c input observerNil s =
     (if observerNil then (Inl ObserverNil, s)
      else case prepareTaskSet c input of
        Inl err \<Rightarrow> (Inl err, s)
      | Inr ts \<Rightarrow>
          if closed s then (Inl ErrTaskSchedulerClosed, s)
          else case env c of
            Some err \<Rightarrow> (Inl (ErrContext err), s)
          | None \<Rightarrow>
              if fs_key ts |\<in>| fmdom (sets s) then (Inl (AlreadySubmitted (fs_key ts)), s)
              else (Inr (fs_key ts),
                    s\<lparr>nextSequence := nextSequence s + 1,
                      sets := fmupd (fs_key ts) (ts\<lparr>fs_sequence := nextSequence s\<rparr>) (sets s),
                      queue := queue s @ [fs_key ts],
                      submissions := submissions s + 1\<rparr>))"

text \<open>The calls of the observer, in order; requeued failures stay internal.\<close>

datatype observerCall = ObserveSuccess TaskAttemptSuccess | ObserveFailure TaskAttemptFailure

fun deliver :: "terminalReport list \<Rightarrow> observerCall list" where
  "deliver [] = []"
| "deliver (report # rest) =
     (case tr_success report of
        Some r \<Rightarrow> ObserveSuccess r # deliver rest
      | None \<Rightarrow>
          if tr_requeued report then deliver rest
          else (case tr_failure report of
                  Some r \<Rightarrow> ObserveFailure r # deliver rest
                | None \<Rightarrow> deliver rest))"

definition ScheduleTaskSet_drain ::
  "ctx_env \<Rightarrow> taskSetKey \<Rightarrow> FIFO \<Rightarrow> observerCall list \<times> fifoError option option \<times> FIFO"
where
  "ScheduleTaskSet_drain env key s =
     (let s1 = (case set_ctx_err env s key of Some err \<Rightarrow> finish key (Some (ErrContext err)) s | None \<Rightarrow> s) in
      case fmlookup (sets s1) key of
        None \<Rightarrow> ([], None, s1)
      | Some ts \<Rightarrow>
          let s2 = upd_set key (\<lambda>ts. ts\<lparr>fs_reports := []\<rparr>) s1 in
          if fs_terminal ts
          then (deliver (fs_reports ts), Some (fs_err ts), s2\<lparr>submissions := submissions s2 - 1\<rparr>)
          else (deliver (fs_reports ts), None, s2))"

text \<open>
  The \<open>select\<close> on \<open>wake\<close> and \<open>ctx.Done()\<close>: \<open>None\<close> while both block. When both are ready Go takes
  either; \<open>pick_wake\<close> is the choice.
\<close>

definition ScheduleTaskSet_await :: "ctx_env \<Rightarrow> bool \<Rightarrow> taskSetKey \<Rightarrow> FIFO \<Rightarrow> FIFO option" where
  "ScheduleTaskSet_await env pick_wake key s =
     (case fmlookup (sets s) key of
        None \<Rightarrow> None
      | Some ts \<Rightarrow>
          if fs_wake ts \<and> (pick_wake \<or> env (fs_ctx ts) = None)
          then Some (upd_set key (\<lambda>ts. ts\<lparr>fs_wake := False\<rparr>) s)
          else if env (fs_ctx ts) \<noteq> None then Some s
          else None)"

section \<open>Workers\<close>

definition RegisterWorker :: "WorkerID \<Rightarrow> int \<Rightarrow> time \<Rightarrow> FIFO \<Rightarrow> fifoError option \<times> FIFO" where
  "RegisterWorker wid slots now s =
     (if closed s then (Some ErrTaskSchedulerClosed, s)
      else case register (registry s) wid slots now of
        Inl err \<Rightarrow> (Some (ErrWorker err), s)
      | Inr r \<Rightarrow> (None, s\<lparr>registry := r\<rparr>))"

definition Worker :: "WorkerID \<Rightarrow> FIFO \<Rightarrow> WorkerError + WorkerSnapshot" where
  "Worker wid s = snapshot (registry s) wid"

fun checkRunning :: "FIFO \<Rightarrow> WorkerID \<Rightarrow> TaskAttemptID list \<Rightarrow> TaskAttemptID fset \<Rightarrow> WorkerError + TaskAttemptID fset" where
  "checkRunning s wid [] seen = Inr seen"
| "checkRunning s wid (a # rest) seen =
     (case fmlookup (attempts s) a of
        None \<Rightarrow> Inl (ErrInvalidRunningAttempt a wid)
      | Some att \<Rightarrow>
          if a |\<in>| seen \<or> aa_worker att \<noteq> wid then Inl (ErrInvalidRunningAttempt a wid)
          else checkRunning s wid rest (finsert a seen))"

text \<open>The attempt that the next assignment of a pending task creates.\<close>

definition new_assignment :: "WorkerID \<Rightarrow> fifoTaskSet \<Rightarrow> nat \<Rightarrow> FIFO \<Rightarrow> TaskAssignment" where
  "new_assignment wid ts i s =
     (let task = lt_task (fs_tasks ts ! i) in
      \<lparr>as_ShuffleInputs = CloneInput (fs_inputs ts), as_RunID = runID s,
       as_JobID = k_job (fs_key ts), as_StageID = k_stage (fs_key ts),
       as_Attempt =
         \<lparr>ta_Identity = \<lparr>tai_ID = nextAttempt s, tai_TaskID = task_ID task,
                         tai_StageAttemptID = k_attempt (fs_key ts)\<rparr>,
          ta_Task = cloneTask task, ta_WorkerID = wid, ta_State = TaskRunning\<rparr>\<rparr>)"

definition assignTask :: "WorkerID \<Rightarrow> taskSetKey \<Rightarrow> fifoTaskSet \<Rightarrow> nat \<Rightarrow> FIFO \<Rightarrow> TaskAssignment \<times> FIFO" where
  "assignTask wid key ts i s =
     (let a = nextAttempt s;
          assignment = new_assignment wid ts i s;
          s1 = upd_task key i (\<lambda>t. t\<lparr>lt_state := TaskRunning, lt_attempts := lt_attempts t + 1, lt_active := a\<rparr>)
                 (s\<lparr>nextAttempt := a + 1\<rparr>);
          s2 = s1\<lparr>attempts := fmupd a \<lparr>aa_assignment = assignment, aa_set = key, aa_task = i,
                                       aa_terminal = False\<rparr> (attempts s1)\<rparr>;
          s3 = upd_worker wid (\<lambda>w. w\<lparr>w_reserved := finsert a (w_reserved w)\<rparr>) s2
      in (assignment\<lparr>as_Attempt := (as_Attempt assignment)\<lparr>ta_Task := cloneTask (ta_Task (as_Attempt assignment))\<rparr>,
                     as_ShuffleInputs := CloneInput (as_ShuffleInputs assignment)\<rparr>, s3))"

fun offerTasks ::
  "WorkerID \<Rightarrow> taskSetKey \<Rightarrow> nat list \<Rightarrow> int \<times> TaskAssignment list \<times> FIFO \<Rightarrow> int \<times> TaskAssignment list \<times> FIFO"
where
  "offerTasks wid key [] st = st"
| "offerTasks wid key (i # rest) (available, assignments, s) =
     (if available \<le> 0 then (available, assignments, s)
      else case fmlookup (sets s) key of
        None \<Rightarrow> (available, assignments, s)
      | Some ts \<Rightarrow>
          if lt_state (fs_tasks ts ! i) \<noteq> TaskPending
          then offerTasks wid key rest (available, assignments, s)
          else (case assignTask wid key ts i s of
                  (assignment, s') \<Rightarrow>
                    offerTasks wid key rest (available - 1, assignments @ [assignment], s')))"

fun offerSets ::
  "ctx_env \<Rightarrow> WorkerID \<Rightarrow> taskSetKey list \<Rightarrow> int \<times> TaskAssignment list \<times> FIFO \<Rightarrow> int \<times> TaskAssignment list \<times> FIFO"
where
  "offerSets env wid [] st = st"
| "offerSets env wid (key # rest) (available, assignments, s) =
     (case fmlookup (sets s) key of
        None \<Rightarrow> offerSets env wid rest (available, assignments, s)
      | Some ts \<Rightarrow>
          if fs_terminal ts then offerSets env wid rest (available, assignments, s)
          else (case env (fs_ctx ts) of
                  Some err \<Rightarrow>
                    offerSets env wid rest (available, assignments, finish key (Some (ErrContext err)) s)
                | None \<Rightarrow>
                    offerSets env wid rest
                      (offerTasks wid key [0..<length (fs_tasks ts)] (available, assignments, s))))"

definition available_slots :: "workerState \<Rightarrow> int \<Rightarrow> TaskAttemptID fset \<Rightarrow> int" where
  "available_slots worker free seen =
     min (free - int (fcard (w_reserved worker |-| seen)))
         (ws_TotalSlots worker - int (fcard (w_reserved worker)))"

definition OfferResources ::
  "ctx_env \<Rightarrow> time \<Rightarrow> WorkerID \<Rightarrow> int \<Rightarrow> TaskAttemptID list \<Rightarrow> FIFO \<Rightarrow> (fifoError + TaskAssignment list) \<times> FIFO"
where
  "OfferResources env now wid free running s =
     (if closed s then (Inl ErrTaskSchedulerClosed, s)
      else case fmlookup (registry s) wid of
        None \<Rightarrow> (Inl (ErrWorker (ErrUnknownWorker wid)), s)
      | Some worker \<Rightarrow>
          if ws_Status worker = WorkerLost then (Inl (ErrWorker (ErrWorkerLost wid)), s)
          else if free < 0 \<or> free > ws_TotalSlots worker \<or>
                  int (length running) > ws_TotalSlots worker - free
          then (Inl (ErrWorker (ErrInvalidCapacity wid)), s)
          else (case checkRunning s wid running {||} of
                  Inl err \<Rightarrow> (Inl (ErrWorker err), s)
                | Inr seen \<Rightarrow>
                    let s1 = upd_worker wid (\<lambda>w. w\<lparr>ws_ReportedFreeSlots := free,
                               ws_RunningAttemptIDs := running, ws_LastHeartbeat := now\<rparr>) s in
                    case offerSets env wid (queue s1) (available_slots worker free seen, [], s1) of
                      (_, assignments, s2) \<Rightarrow> (Inr assignments, compactQueue s2)))"

section \<open>Reports\<close>

text \<open>\<open>Inr None\<close> is the pair of two \<open>nil\<close>s: a known attempt whose report is obsolete.\<close>

definition validateReport ::
  "JobID \<Rightarrow> StageID \<Rightarrow> TaskAttemptIdentity \<Rightarrow> PartitionID \<Rightarrow> WorkerID \<Rightarrow> FIFO \<Rightarrow>
   fifoError + assignedAttempt option"
where
  "validateReport job stage identity p worker s =
     (if closed s then Inl ErrTaskSchedulerClosed
      else if worker |\<notin>| fmdom (registry s) then Inl (ErrWorker (ErrUnknownWorker worker))
      else case fmlookup (attempts s) (tai_ID identity) of
        None \<Rightarrow> Inl (ErrUnknownAttempt (tai_ID identity))
      | Some att \<Rightarrow>
          let a = aa_assignment att in
          if as_JobID a \<noteq> job \<or> as_StageID a \<noteq> stage \<or> aa_identity att \<noteq> identity \<or>
             task_PartitionID (aa_Task att) \<noteq> p \<or> aa_worker att \<noteq> worker
          then Inl (ErrMismatchedReport (tai_ID identity))
          else if aa_terminal att \<or>
                  map_option lt_active (task_at s (aa_set att) (aa_task att)) \<noteq> Some (tai_ID identity)
          then Inr None
          else Inr (Some att))"

definition attempt_execution :: "TaskAssignment \<Rightarrow> TaskExecution" where
  "attempt_execution a =
     \<lparr>te_RunID = as_RunID a, te_JobID = as_JobID a, te_Task = ta_Task (as_Attempt a),
      te_Attempt = ta_Identity (as_Attempt a), te_WorkerID = [], te_ShuffleInputs = None\<rparr>"

definition succeedAttempt :: "ctx_env \<Rightarrow> assignedAttempt \<Rightarrow> TaskAttemptSuccess \<Rightarrow> FIFO \<Rightarrow> FIFO" where
  "succeedAttempt env att report s =
     (let key = aa_set att; s1 = release att TaskSucceeded s in
      if set_terminal s1 key then s1
      else case set_ctx_err env s1 key of
        Some err \<Rightarrow> finish key (Some (ErrContext err)) s1
      | None \<Rightarrow>
          let report' = report\<lparr>ts_Output := TaskOutput_Clone (ts_Output report)\<rparr>;
              s2 = upd_task key (aa_task att) (\<lambda>t. t\<lparr>lt_output := TaskOutput_Clone (ts_Output report')\<rparr>) s1;
              s3 = upd_set key (\<lambda>ts. ts\<lparr>fs_remaining := fs_remaining ts - 1,
                     fs_reports := fs_reports ts @ [\<lparr>tr_success = Some report', tr_failure = None,
                       tr_requeued = False, tr_exhausted = False, tr_attempts = 0\<rparr>]\<rparr>) s2 in
          if map_option fs_remaining (fmlookup (sets s3) key) = Some 0 then finish key None s3
          else notify key s3)"

definition ReportSuccess :: "ctx_env \<Rightarrow> TaskAttemptSuccess \<Rightarrow> FIFO \<Rightarrow> fifoError option \<times> FIFO" where
  "ReportSuccess env report s =
     (case validateReport (ts_JobID report) (ts_StageID report) (ts_Attempt report)
             (ts_PartitionID report) (ts_WorkerID report) s of
        Inl err \<Rightarrow> (Some err, s)
      | Inr None \<Rightarrow> (None, s)
      | Inr (Some att) \<Rightarrow>
          (case ValidateFor (ts_Output report) (attempt_execution (aa_assignment att)) of
             Some err \<Rightarrow> (Some (ErrInvalidTaskReport (ReportOutput err)), s)
           | None \<Rightarrow> (None, succeedAttempt env att report s)))"

definition retryable :: "FailureKind \<Rightarrow> bool" where
  "retryable kind \<longleftrightarrow> kind = FailureExecution \<or> kind = FailureWorkerLost"

definition failAttempt :: "ctx_env \<Rightarrow> assignedAttempt \<Rightarrow> TaskAttemptFailure \<Rightarrow> FIFO \<Rightarrow> FIFO" where
  "failAttempt env att report s =
     (let key = aa_set att; i = aa_task att; s1 = release att TaskFailed s in
      if set_terminal s1 key then s1
      else case set_ctx_err env s1 key of
        Some err \<Rightarrow> finish key (Some (ErrContext err)) s1
      | None \<Rightarrow>
          let tries = (case task_at s1 key i of None \<Rightarrow> 0 | Some t \<Rightarrow> lt_attempts t);
              requeued = (retryable (tf_Kind report) \<and> tries < maxTaskAttempts s1);
              s2 = upd_set key (\<lambda>ts. ts\<lparr>fs_reports := fs_reports ts @
                     [\<lparr>tr_success = None, tr_failure = Some report, tr_requeued = requeued,
                       tr_exhausted = (retryable (tf_Kind report) \<and> \<not> requeued), tr_attempts = tries\<rparr>]\<rparr>) s1 in
          if requeued then notify key (upd_task key i (\<lambda>t. t\<lparr>lt_state := TaskPending\<rparr>) s2)
          else finish key (Some (TaskSetFailed (tf_StageID report) (tai_TaskID (tf_Attempt report))
                 (tf_PartitionID report) (tf_Error report))) s2)"

text \<open>
  A validated reference names one of the attempt's assigned inputs. A negative position cannot
  pass \<open>ValidateFailure\<close>, so the index is in range when the bound holds.
\<close>

definition assigned_input :: "assignedAttempt \<Rightarrow> InputReference \<Rightarrow> bool" where
  "assigned_input att ref =
     (case as_ShuffleInputs (aa_assignment att) of
        None \<Rightarrow> False
      | Some inputs \<Rightarrow>
          ir_PartitionID ref = task_PartitionID (aa_Task att) \<and>
          ai_MapPartitionID (ir_Attempt ref) < int (length (is_Outputs inputs)) \<and>
          mo_Attempt (is_Outputs inputs ! nat (ai_MapPartitionID (ir_Attempt ref))) = ir_Attempt ref)"

definition ReportFailure :: "ctx_env \<Rightarrow> TaskAttemptFailure \<Rightarrow> FIFO \<Rightarrow> fifoError option \<times> FIFO" where
  "ReportFailure env report s =
     (if tf_Error report = Text [] then (Some (ErrInvalidTaskReport EmptyFailureMessage), s)
      else case validateReport (tf_JobID report) (tf_StageID report) (tf_Attempt report)
                  (tf_PartitionID report) (tf_WorkerID report) s of
        Inl err \<Rightarrow> (Some err, s)
      | Inr None \<Rightarrow> (None, s)
      | Inr (Some att) \<Rightarrow>
          (case ValidateFailure (tf_Kind report) (tf_ShuffleInput report) of
             Some err \<Rightarrow> (Some (ErrInvalidTaskReport (ReportFailureKind err)), s)
           | None \<Rightarrow>
               (case tf_ShuffleInput report of
                  Some ref \<Rightarrow>
                    if assigned_input att ref then (None, failAttempt env att report s)
                    else (Some (ErrInvalidTaskReport NotAssignedInput), s)
                | None \<Rightarrow> (None, failAttempt env att report s))))"

section \<open>Expiry and closing\<close>

definition expired :: "time \<Rightarrow> duration \<Rightarrow> workerState \<Rightarrow> bool" where
  "expired now timeout worker \<longleftrightarrow>
     ws_Status worker = WorkerAlive \<and> time_Sub now (ws_LastHeartbeat worker) \<ge> timeout"

definition lost_report :: "WorkerID \<Rightarrow> TaskAssignment \<Rightarrow> TaskAttemptFailure" where
  "lost_report wid a =
     \<lparr>tf_Kind = FailureWorkerLost, tf_ShuffleInput = None, tf_JobID = as_JobID a, tf_StageID = as_StageID a,
      tf_Attempt = ta_Identity (as_Attempt a), tf_PartitionID = task_PartitionID (ta_Task (as_Attempt a)),
      tf_WorkerID = wid, tf_Error = HeartbeatExpired wid\<rparr>"

text \<open>
  A context may end between two of the attempts that one call retires, so the readings are
  indexed by the attempt.
\<close>

fun expireAttempts :: "(TaskAttemptID \<Rightarrow> ctx_env) \<Rightarrow> WorkerID \<Rightarrow> TaskAttemptID list \<Rightarrow> FIFO \<Rightarrow> FIFO" where
  "expireAttempts env wid [] s = s"
| "expireAttempts env wid (a # rest) s =
     (case fmlookup (attempts s) a of
        None \<Rightarrow> expireAttempts env wid rest s
      | Some att \<Rightarrow>
          expireAttempts env wid rest (failAttempt (env a) att (lost_report wid (aa_assignment att)) s))"

definition loseWorker :: "(TaskAttemptID \<Rightarrow> ctx_env) \<Rightarrow> WorkerID \<Rightarrow> FIFO \<Rightarrow> FIFO" where
  "loseWorker env wid s =
     (case fmlookup (registry s) wid of
        None \<Rightarrow> s
      | Some worker \<Rightarrow>
          expireAttempts env wid (sorted_list_of_fset (w_reserved worker))
            (upd_worker wid (\<lambda>w. w\<lparr>ws_Status := WorkerLost\<rparr>) s))"

definition ExpireWorkers ::
  "(TaskAttemptID \<Rightarrow> ctx_env) \<Rightarrow> time \<Rightarrow> duration \<Rightarrow> FIFO \<Rightarrow> (fifoError + WorkerID list) \<times> FIFO"
where
  "ExpireWorkers env now timeout s =
     (if timeout \<le> 0 then (Inl TimeoutNotPositive, s)
      else if closed s then (Inl ErrTaskSchedulerClosed, s)
      else let lost = sorted_list_of_fset
                 (ffilter (\<lambda>wid. case fmlookup (registry s) wid of None \<Rightarrow> False | Some w \<Rightarrow> expired now timeout w)
                   (fmdom (registry s)))
           in (Inr lost, compactQueue (fold (loseWorker env) lost s)))"

text \<open>\<open>finish\<close> on every set; the sets are independent, so the order of the map does not matter.\<close>

definition Close :: "FIFO \<Rightarrow> FIFO" where
  "Close s =
     s\<lparr>closed := True,
       sets := fmmap (\<lambda>ts. if fs_terminal ts then ts
                            else ts\<lparr>fs_terminal := True, fs_err := Some ErrTaskSchedulerClosed, fs_wake := True\<rparr>)
                 (sets s)\<rparr>"

end
