(* ===== verification/DAG_Scheduler.thy ===== *)
theory DAG_Scheduler
  imports FIFO_Scheduler "HOL-Library.Monad_Syntax"
begin

text \<open>
  The job scheduler of the coordinator: \<open>src/scheduler/dag_scheduler.go\<close>,
  \<open>src/scheduler/dag_stage_execution.go\<close>, \<open>src/scheduler/dag_recovery.go\<close>, the events of
  \<open>src/scheduler/event.go\<close> and the loop of \<open>src/scheduler/event_loop.go\<close>.

  The event loop owns the state and handles one event at a time, so a handler is a function from
  the state to the new state and the list of its effects on the outside (answers on channels,
  goroutines started, cancellations). A handler that would dereference \<open>nil\<close> has the value
  \<open>None\<close>; the reachable states are later shown to exclude it. What a handler reads from outside,
  the errors of contexts (once at its own check and once when stages are started) and the order
  in which Go ranges over the map of jobs, is an argument. The loggers are not modelled.
\<close>

section \<open>State\<close>

record JobResult =
  jr_Records :: "any list option"
  jr_Count :: int

datatype setError = PhysicalError fifoError | OtherSetError go_error

datatype dagError =
    ErrSchedulerClosed
  | TaskSchedulerNil
  | PlanFailed PlanError
  | ExecutionUnsupported ExecutionPlanError
  | GenerateFailed GenerateError
  | JobContext ctx_err
  | TaskSetError setError
  | TaskSchedulerExited int
  | InvalidStageOutput OutputError
  | TaskFailedError StageID TaskID PartitionID errorText
  | StageExhausted StageID int "errorText option"
  | BuildStageInputs StageID MetadataError
  | NoRecoverableParent StageID
  | NoCompletedParent StageID
  | InvalidShuffleFailure FailureError
  | NotCurrentInput StageID

record jobCompletion =
  jc_result :: JobResult
  jc_err :: "dagError option"

datatype stageExecutionStatus = stagePending | stageRunning | stageSucceeded

text \<open>A \<open>CancelFunc\<close> of a stage is the attempt it cancels; a response channel is its number.\<close>

record stageState =
  ss_stage :: Stage
  ss_attemptID :: StageAttemptID
  ss_status :: stageExecutionStatus
  ss_attempts :: int
  ss_cancel :: "StageAttemptID option"
  ss_tasks :: "Task list"
  ss_remaining :: int
  ss_outputs :: "(PartitionID, TaskOutput) fmap"

record jobState =
  js_action :: ActionSpec
  js_runID :: string
  js_stages :: "(StageID, stageState) fmap"
  js_order :: "StageID list"
  js_resultStageID :: StageID
  js_ctx :: ctx
  js_response :: nat

record DAG =
  d_maxStageAttempts :: int
  d_functions :: "FunctionLookup option"
  d_taskScheduler :: bool
  d_jobs :: "(JobID, jobState) fmap"
  d_nextStageAttemptID :: StageAttemptID
  d_stopping :: bool

datatype schedulerEvent =
    jobSubmitted JobID ctx "RDDGraph option" ActionSpec nat
  | taskSucceeded TaskAttemptSuccess
  | taskFailed TaskAttemptFailure
  | taskSetFinished JobID StageID StageAttemptID "setError option"
  | jobCanceled JobID ctx_err
  | schedulerStopping

datatype dagEffect =
    Respond nat jobCompletion
  | StartTaskSet TaskSet
  | WatchCancellation JobID ctx
  | CancelStage JobID StageID StageAttemptID
  | CancelJob JobID
  | StoppedAck

record readings =
  rd_check :: ctx_env
  rd_start :: ctx_env
  rd_order :: "JobID list"

definition NewDAGScheduler :: "FunctionLookup option \<Rightarrow> bool \<Rightarrow> Option list \<Rightarrow> DAG option" where
  "NewDAGScheduler functions taskScheduler options =
     (case resolveSchedulerOptions options of
        None \<Rightarrow> None
      | Some config \<Rightarrow>
          Some \<lparr>d_maxStageAttempts = opt_maxStageAttempts config, d_functions = functions,
                d_taskScheduler = taskScheduler, d_jobs = fmempty, d_nextStageAttemptID = 0,
                d_stopping = False\<rparr>)"

definition put_stage :: "StageID \<Rightarrow> stageState \<Rightarrow> jobState \<Rightarrow> jobState" where
  "put_stage sid stage job = job\<lparr>js_stages := fmupd sid stage (js_stages job)\<rparr>"

definition put_job :: "JobID \<Rightarrow> jobState \<Rightarrow> DAG \<Rightarrow> DAG" where
  "put_job jid job s = s\<lparr>d_jobs := fmupd jid job (d_jobs s)\<rparr>"

section \<open>Answers\<close>

definition zeroJobResult :: JobResult where
  "zeroJobResult = \<lparr>jr_Records = None, jr_Count = 0\<rparr>"

definition failed :: "dagError \<Rightarrow> jobCompletion" where
  "failed err = \<lparr>jc_result = zeroJobResult, jc_err = Some err\<rparr>"

definition rejectJob :: "nat \<Rightarrow> dagError \<Rightarrow> DAG \<Rightarrow> DAG \<times> dagEffect list" where
  "rejectJob response err s = (s, [Respond response (failed err)])"

definition failJob :: "JobID \<Rightarrow> dagError \<Rightarrow> DAG \<Rightarrow> DAG \<times> dagEffect list" where
  "failJob jid err s =
     (case fmlookup (d_jobs s) jid of
        None \<Rightarrow> (s, [])
      | Some job \<Rightarrow>
          (s\<lparr>d_jobs := fmdrop jid (d_jobs s)\<rparr>, [CancelJob jid, Respond (js_response job) (failed err)]))"

text \<open>Appending to a slice keeps \<open>nil\<close> when there is nothing to append.\<close>

definition go_append :: "'a list option \<Rightarrow> 'a list \<Rightarrow> 'a list option" where
  "go_append xs ys = (if ys = [] then xs else Some ((case xs of None \<Rightarrow> [] | Some zs \<Rightarrow> zs) @ ys))"

fun mergeLoop ::
  "ActionKind \<Rightarrow> (PartitionID, TaskOutput) fmap \<Rightarrow> nat \<Rightarrow> nat \<Rightarrow> JobResult \<Rightarrow> JobResult"
where
  "mergeLoop kind outputs part 0 result = result"
| "mergeLoop kind outputs part (Suc left) result =
     (let out = (case fmlookup outputs (int part) of None \<Rightarrow> zeroTaskOutput | Some x \<Rightarrow> x) in
      mergeLoop kind outputs (Suc part) left
        (case kind of
           ActionCollect \<Rightarrow>
             result\<lparr>jr_Records := go_append (jr_Records result)
                      (case to_Records out of None \<Rightarrow> [] | Some rs \<Rightarrow> rs)\<rparr>
         | ActionCount \<Rightarrow> result\<lparr>jr_Count := to_int64 (jr_Count result + to_Count out)\<rparr>
         | ActionKindOther _ \<Rightarrow> result))"

definition mergeTaskOutputs :: "ActionKind \<Rightarrow> (PartitionID, TaskOutput) fmap \<Rightarrow> JobResult" where
  "mergeTaskOutputs kind outputs = mergeLoop kind outputs 0 (fcard (fmdom outputs)) zeroJobResult"

section \<open>Starting stages\<close>

fun parentsSucceeded :: "jobState \<Rightarrow> StageID list \<Rightarrow> bool option" where
  "parentsSucceeded job [] = Some True"
| "parentsSucceeded job (parent # rest) =
     do { stage \<leftarrow> fmlookup (js_stages job) parent;
          ready \<leftarrow> parentsSucceeded job rest;
          Some (ss_status stage = stageSucceeded \<and> ready) }"

definition acceptedOutputs :: "stageState \<Rightarrow> MapOutput list option" where
  "acceptedOutputs parent =
     those (map (\<lambda>p. do { out \<leftarrow> fmlookup (ss_outputs parent) (int p);
                          to_ShuffleOutput (TaskOutput_Clone out) })
                [0 ..< length (ss_tasks parent)])"

definition buildInputs :: "JobID \<Rightarrow> jobState \<Rightarrow> stageState \<Rightarrow> InputSnapshot option" where
  "buildInputs jid job stage =
     do { parent \<leftarrow> fmlookup (js_stages job) (hd (stage_ParentIDs (ss_stage stage)));
          shuffleWrite \<leftarrow> stage_ShuffleWrite (ss_stage parent);
          outputs \<leftarrow> acceptedOutputs parent;
          Some \<lparr>is_RunID = js_runID job, is_JobID = jid, is_ShuffleID = sw_ShuffleID shuffleWrite,
                is_StageID = stage_ID (ss_stage parent), is_StageAttemptID = ss_attemptID parent,
                is_NumMapPartitions = int (length (ss_tasks parent)),
                is_NumReducePartitions = stage_NumPartitions (ss_stage stage),
                is_Outputs = outputs\<rparr> }"

text \<open>The inputs of a stage: none without a parent, otherwise a snapshot that has to validate.\<close>

definition stageInputs ::
  "JobID \<Rightarrow> jobState \<Rightarrow> StageID \<Rightarrow> stageState \<Rightarrow> (dagError + InputSnapshot option) option"
where
  "stageInputs jid job sid stage =
     (if stage_ParentIDs (ss_stage stage) = [] then Some (Inr None)
      else do { inputs \<leftarrow> buildInputs jid job stage;
                Some (case InputSnapshot_Validate inputs of
                        Some err \<Rightarrow> Inl (BuildStageInputs sid err)
                      | None \<Rightarrow> Inr (Some inputs)) })"

definition stage_set :: "JobID \<Rightarrow> StageID \<Rightarrow> StageAttemptID \<Rightarrow> InputSnapshot option \<Rightarrow> stageState \<Rightarrow> TaskSet" where
  "stage_set jid sid attempt inputs stage =
     \<lparr>set_ShuffleInputs = inputs, set_JobID = jid, set_StageID = sid, set_StageAttemptID = attempt,
      set_Tasks = map cloneTask (ss_tasks stage)\<rparr>"

definition launched :: "StageAttemptID \<Rightarrow> stageState \<Rightarrow> stageState" where
  "launched attempt stage =
     stage\<lparr>ss_attemptID := attempt, ss_status := stageRunning, ss_attempts := ss_attempts stage + 1,
           ss_cancel := Some attempt\<rparr>"

text \<open>One round of the loop: the stage is skipped, or fails, or runs as a new attempt.\<close>

definition startStage ::
  "int \<Rightarrow> JobID \<Rightarrow> StageID \<Rightarrow> jobState \<Rightarrow> StageAttemptID \<Rightarrow>
   (dagError + jobState \<times> StageAttemptID \<times> dagEffect list) option"
where
  "startStage maxAttempts jid sid job attempt =
     do { stage \<leftarrow> fmlookup (js_stages job) sid;
          if ss_status stage \<noteq> stagePending then Some (Inr (job, attempt, []))
          else do { ready \<leftarrow> parentsSucceeded job (stage_ParentIDs (ss_stage stage));
            if \<not> ready then Some (Inr (job, attempt, []))
            else if ss_attempts stage \<ge> maxAttempts then Some (Inl (StageExhausted sid maxAttempts None))
            else do { checked \<leftarrow> stageInputs jid job sid stage;
              case checked of
                Inl err \<Rightarrow> Some (Inl err)
              | Inr inputs \<Rightarrow>
                  Some (Inr (put_stage sid (launched attempt stage) job, attempt + 1,
                             [StartTaskSet (stage_set jid sid attempt inputs stage)])) } } }"

fun startStages ::
  "int \<Rightarrow> JobID \<Rightarrow> StageID list \<Rightarrow> jobState \<Rightarrow> StageAttemptID \<Rightarrow>
   (dagError option \<times> jobState \<times> StageAttemptID \<times> dagEffect list) option"
where
  "startStages maxAttempts jid [] job attempt = Some (None, job, attempt, [])"
| "startStages maxAttempts jid (sid # rest) job attempt =
     do { r \<leftarrow> startStage maxAttempts jid sid job attempt;
          case r of
            Inl err \<Rightarrow> Some (Some err, job, attempt, [])
          | Inr (job', attempt', started) \<Rightarrow>
              do { (err, job'', attempt'', more) \<leftarrow> startStages maxAttempts jid rest job' attempt';
                   Some (err, job'', attempt'', started @ more) } }"

definition startReadyStages ::
  "ctx_env \<Rightarrow> JobID \<Rightarrow> jobState \<Rightarrow> DAG \<Rightarrow> (dagError option \<times> DAG \<times> dagEffect list) option"
where
  "startReadyStages env jid job s =
     (case env (js_ctx job) of
        Some err \<Rightarrow> Some (Some (JobContext err), put_job jid job s, [])
      | None \<Rightarrow>
          do { (err, job', attempt, started) \<leftarrow>
                 startStages (d_maxStageAttempts s) jid (js_order job) job (d_nextStageAttemptID s);
               Some (err, put_job jid job' (s\<lparr>d_nextStageAttemptID := attempt\<rparr>), started) })"

text \<open>The callers of \<open>startReadyStages\<close> fail the job with its error.\<close>

definition fail_on_error ::
  "JobID \<Rightarrow> (dagError option \<times> DAG \<times> dagEffect list) option \<Rightarrow> (DAG \<times> dagEffect list) option"
where
  "fail_on_error jid r =
     do { (err, s, effects) \<leftarrow> r;
          case err of
            None \<Rightarrow> Some (s, effects)
          | Some e \<Rightarrow> (let (s', more) = failJob jid e s in Some (s', effects @ more)) }"

section \<open>Submission\<close>

definition new_stage :: "Stage \<Rightarrow> stageState" where
  "new_stage stage =
     \<lparr>ss_stage = stage, ss_attemptID = 0, ss_status = stagePending, ss_attempts = 0,
      ss_cancel = None, ss_tasks = [], ss_remaining = stage_NumPartitions stage, ss_outputs = fmempty\<rparr>"

fun addStages :: "Stage list \<Rightarrow> jobState \<Rightarrow> jobState" where
  "addStages [] job = job"
| "addStages (stage # rest) job =
     (let job1 = put_stage (stage_ID stage) (new_stage stage)
                   (job\<lparr>js_order := js_order job @ [stage_ID stage]\<rparr>) in
      addStages rest
        (if stage_Kind stage = StageResult then job1\<lparr>js_resultStageID := stage_ID stage\<rparr> else job1))"

fun addTasks :: "Task list \<Rightarrow> jobState \<Rightarrow> jobState option" where
  "addTasks [] job = Some job"
| "addTasks (task # rest) job =
     do { stage \<leftarrow> fmlookup (js_stages job) (task_StageID task);
          addTasks rest (put_stage (task_StageID task) (stage\<lparr>ss_tasks := ss_tasks stage @ [task]\<rparr>) job) }"

definition empty_job :: "ActionSpec \<Rightarrow> ctx \<Rightarrow> nat \<Rightarrow> jobState" where
  "empty_job action c response =
     \<lparr>js_action = action, js_runID = [], js_stages = fmempty, js_order = [], js_resultStageID = 0,
      js_ctx = c, js_response = response\<rparr>"

definition handleJobSubmitted ::
  "readings \<Rightarrow> JobID \<Rightarrow> ctx \<Rightarrow> RDDGraph option \<Rightarrow> ActionSpec \<Rightarrow> nat \<Rightarrow> DAG \<Rightarrow>
   (DAG \<times> dagEffect list) option"
where
  "handleJobSubmitted r jid c graph action response s =
     (if d_stopping s then Some (rejectJob response ErrSchedulerClosed s)
      else if \<not> d_taskScheduler s then Some (rejectJob response TaskSchedulerNil s)
      else case Plan (Some (d_functions s)) graph action of
        Inl err \<Rightarrow> Some (rejectJob response (PlanFailed err) s)
      | Inr stagePlan \<Rightarrow>
          (case validateExecutionPlan stagePlan of
             Some err \<Rightarrow> Some (rejectJob response (ExecutionUnsupported err) s)
           | None \<Rightarrow>
               (case GenerateTasks stagePlan of
                  Inl err \<Rightarrow> Some (rejectJob response (GenerateFailed err) s)
                | Inr tasks \<Rightarrow>
                    do { job \<leftarrow> addTasks tasks (addStages (sp_Stages stagePlan) (empty_job action c response));
                         (s', effects) \<leftarrow> fail_on_error jid (startReadyStages (rd_start r) jid job (put_job jid job s));
                         Some (s', WatchCancellation jid c # effects) })))"

section \<open>Reports\<close>

definition pendingTask ::
  "DAG \<Rightarrow> JobID \<Rightarrow> StageID \<Rightarrow> TaskAttemptIdentity \<Rightarrow> PartitionID \<Rightarrow> jobState option"
where
  "pendingTask s jid sid attempt p =
     (case fmlookup (d_jobs s) jid of
        None \<Rightarrow> None
      | Some job \<Rightarrow>
          (case fmlookup (js_stages job) sid of
             None \<Rightarrow> None
           | Some stage \<Rightarrow>
               if ss_status stage \<noteq> stageRunning \<or> tai_StageAttemptID attempt \<noteq> ss_attemptID stage \<or>
                  p < 0 \<or> p \<ge> int (length (ss_tasks stage))
               then None
               else if task_ID (ss_tasks stage ! nat p) \<noteq> tai_TaskID attempt then None
               else if p |\<in>| fmdom (ss_outputs stage) then None
               else Some job))"

definition report_runID :: "jobState \<Rightarrow> TaskOutput \<Rightarrow> string" where
  "report_runID job out =
     (if js_runID job = [] then
        (case to_ShuffleOutput out of Some m \<Rightarrow> ai_RunID (mo_Attempt m) | None \<Rightarrow> [])
      else js_runID job)"

definition success_execution :: "TaskAttemptSuccess \<Rightarrow> jobState \<Rightarrow> stageState \<Rightarrow> TaskExecution" where
  "success_execution report job stage =
     \<lparr>te_RunID = report_runID job (ts_Output report), te_JobID = ts_JobID report,
      te_Task = ss_tasks stage ! nat (ts_PartitionID report), te_Attempt = ts_Attempt report,
      te_WorkerID = [], te_ShuffleInputs = None\<rparr>"

definition accept_output :: "TaskAttemptSuccess \<Rightarrow> stageState \<Rightarrow> stageState" where
  "accept_output report stage =
     stage\<lparr>ss_outputs := fmupd (ts_PartitionID report) (TaskOutput_Clone (ts_Output report)) (ss_outputs stage),
           ss_remaining := ss_remaining stage - 1\<rparr>"

definition handleTaskSucceeded :: "readings \<Rightarrow> TaskAttemptSuccess \<Rightarrow> DAG \<Rightarrow> (DAG \<times> dagEffect list) option" where
  "handleTaskSucceeded r report s =
     (let jid = ts_JobID report; sid = ts_StageID report in
      case pendingTask s jid sid (ts_Attempt report) (ts_PartitionID report) of
        None \<Rightarrow> Some (s, [])
      | Some job \<Rightarrow>
          (case rd_check r (js_ctx job) of
             Some err \<Rightarrow> Some (failJob jid (JobContext err) s)
           | None \<Rightarrow>
               do { stage \<leftarrow> fmlookup (js_stages job) sid;
                    case ValidateFor (ts_Output report) (success_execution report job stage) of
                      Some err \<Rightarrow> Some (failJob jid (InvalidStageOutput err) s)
                    | None \<Rightarrow>
                        (let job1 = (if stage_Kind (ss_stage stage) = StageShuffleMap
                                     then job\<lparr>js_runID := report_runID job (ts_Output report)\<rparr> else job);
                             stage1 = accept_output report stage in
                         if ss_remaining stage1 \<noteq> 0
                         then Some (put_job jid (put_stage sid stage1 job1) s, [])
                         else (let stage2 = stage1\<lparr>ss_status := stageSucceeded\<rparr>;
                                   job2 = put_stage sid stage2 job1 in
                               if sid \<noteq> js_resultStageID job
                               then fail_on_error jid (startReadyStages (rd_start r) jid job2 s)
                               else Some (s\<lparr>d_jobs := fmdrop jid (d_jobs s)\<rparr>,
                                      [CancelJob jid,
                                       Respond (js_response job)
                                         \<lparr>jc_result = mergeTaskOutputs (act_Kind (js_action job)) (ss_outputs stage2),
                                          jc_err = None\<rparr>]))) }))"

section \<open>Recovery of lost shuffle input\<close>

definition reset_stage :: "stageState \<Rightarrow> stageState" where
  "reset_stage stage =
     stage\<lparr>ss_cancel := None, ss_status := stagePending,
           ss_remaining := int (length (ss_tasks stage)), ss_outputs := fmempty\<rparr>"

fun exhausted :: "int \<Rightarrow> errorText \<Rightarrow> stageState list \<Rightarrow> dagError option" where
  "exhausted maxAttempts message [] = None"
| "exhausted maxAttempts message (stage # rest) =
     (if ss_attempts stage \<ge> maxAttempts
      then Some (StageExhausted (stage_ID (ss_stage stage)) maxAttempts (Some message))
      else exhausted maxAttempts message rest)"

definition lost_input_check :: "TaskAttemptFailure \<Rightarrow> stageState \<Rightarrow> dagError option" where
  "lost_input_check report parent =
     (case ValidateFailure (tf_Kind report) (tf_ShuffleInput report) of
        Some err \<Rightarrow> Some (InvalidShuffleFailure err)
      | None \<Rightarrow>
          (case tf_ShuffleInput report of
             None \<Rightarrow> None
           | Some ref \<Rightarrow>
               let accepted = Option.bind (fmlookup (ss_outputs parent) (ai_MapPartitionID (ir_Attempt ref)))
                                to_ShuffleOutput in
               if ir_PartitionID ref \<noteq> tf_PartitionID report \<or>
                  map_option mo_Attempt accepted \<noteq> Some (ir_Attempt ref)
               then Some (NotCurrentInput (tf_StageID report)) else None))"

text \<open>The result stage and its map stage start over, unless one of them has used up its attempts.\<close>

definition recoverShuffle ::
  "readings \<Rightarrow> jobState \<Rightarrow> TaskAttemptFailure \<Rightarrow> DAG \<Rightarrow> (dagError option \<times> DAG \<times> dagEffect list) option"
where
  "recoverShuffle r job report s =
     do { child \<leftarrow> fmlookup (js_stages job) (tf_StageID report);
          case stage_ParentIDs (ss_stage child) of
            [parentID] \<Rightarrow>
              if stage_Kind (ss_stage child) \<noteq> StageResult
              then Some (Some (NoRecoverableParent (tf_StageID report)), s, [])
              else
              (case fmlookup (js_stages job) parentID of
                 None \<Rightarrow> Some (Some (NoCompletedParent (tf_StageID report)), s, [])
               | Some parent \<Rightarrow>
                   if stage_Kind (ss_stage parent) \<noteq> StageShuffleMap \<or> ss_status parent \<noteq> stageSucceeded
                   then Some (Some (NoCompletedParent (tf_StageID report)), s, [])
                   else case lost_input_check report parent of
                     Some err \<Rightarrow> Some (Some err, s, [])
                   | None \<Rightarrow>
                       (case exhausted (d_maxStageAttempts s) (tf_Error report) [parent, child] of
                          Some err \<Rightarrow> Some (Some err, s, [])
                        | None \<Rightarrow>
                            do { parentCancel \<leftarrow> ss_cancel parent;
                                 childCancel \<leftarrow> ss_cancel child;
                                 (err, s', effects) \<leftarrow>
                                   startReadyStages (rd_start r) (tf_JobID report)
                                     (put_stage (tf_StageID report) (reset_stage child)
                                       (put_stage parentID (reset_stage parent) job)) s;
                                 Some (err, s', CancelStage (tf_JobID report) parentID parentCancel #
                                                CancelStage (tf_JobID report) (tf_StageID report) childCancel #
                                                effects) }))
          | _ \<Rightarrow> Some (Some (NoRecoverableParent (tf_StageID report)), s, []) }"

definition handleTaskFailed :: "readings \<Rightarrow> TaskAttemptFailure \<Rightarrow> DAG \<Rightarrow> (DAG \<times> dagEffect list) option" where
  "handleTaskFailed r report s =
     (let jid = tf_JobID report in
      case pendingTask s jid (tf_StageID report) (tf_Attempt report) (tf_PartitionID report) of
        None \<Rightarrow> Some (s, [])
      | Some job \<Rightarrow>
          (case rd_check r (js_ctx job) of
             Some err \<Rightarrow> Some (failJob jid (JobContext err) s)
           | None \<Rightarrow>
               if tf_Kind report = FailureShuffleInput
               then fail_on_error jid (recoverShuffle r job report s)
               else Some (failJob jid
                      (TaskFailedError (tf_StageID report) (tai_TaskID (tf_Attempt report))
                         (tf_PartitionID report) (tf_Error report)) s)))"

section \<open>The other events\<close>

definition handleTaskSetFinished ::
  "readings \<Rightarrow> JobID \<Rightarrow> StageID \<Rightarrow> StageAttemptID \<Rightarrow> setError option \<Rightarrow> DAG \<Rightarrow> DAG \<times> dagEffect list"
where
  "handleTaskSetFinished r jid sid attempt err s =
     (case fmlookup (d_jobs s) jid of
        None \<Rightarrow> (s, [])
      | Some job \<Rightarrow>
          (case fmlookup (js_stages job) sid of
             None \<Rightarrow> (s, [])
           | Some stage \<Rightarrow>
               if ss_status stage \<noteq> stageRunning \<or> ss_attemptID stage \<noteq> attempt then (s, [])
               else failJob jid
                      (case rd_check r (js_ctx job) of
                         Some e \<Rightarrow> JobContext e
                       | None \<Rightarrow>
                           (case err of
                              Some e \<Rightarrow> TaskSetError e
                            | None \<Rightarrow> TaskSchedulerExited (ss_remaining stage))) s))"

fun failJobs :: "JobID list \<Rightarrow> dagError \<Rightarrow> DAG \<Rightarrow> DAG \<times> dagEffect list" where
  "failJobs [] err s = (s, [])"
| "failJobs (jid # rest) err s =
     (let (s', effects) = failJob jid err s; (s'', more) = failJobs rest err s' in (s'', effects @ more))"

definition handleStopping :: "JobID list \<Rightarrow> DAG \<Rightarrow> DAG \<times> dagEffect list" where
  "handleStopping order s =
     (let (s', effects) = failJobs order ErrSchedulerClosed (s\<lparr>d_stopping := True\<rparr>) in
      (s', effects @ [StoppedAck]))"

fun handleEvent :: "readings \<Rightarrow> schedulerEvent \<Rightarrow> DAG \<Rightarrow> (DAG \<times> dagEffect list) option" where
  "handleEvent r (jobSubmitted jid c graph action response) s =
     handleJobSubmitted r jid c graph action response s"
| "handleEvent r (taskSucceeded report) s = handleTaskSucceeded r report s"
| "handleEvent r (taskFailed report) s = handleTaskFailed r report s"
| "handleEvent r (taskSetFinished jid sid attempt err) s =
     Some (handleTaskSetFinished r jid sid attempt err s)"
| "handleEvent r (jobCanceled jid err) s = Some (failJob jid (JobContext err) s)"
| "handleEvent r schedulerStopping s = Some (handleStopping (rd_order r) s)"

section \<open>Observers and goroutines\<close>

text \<open>
  What the goroutine of a task set sends to the loop: the observer passes on the reports of its
  own stage attempt, and the end of \<open>ScheduleTaskSet\<close> is an event of its own.
\<close>

definition observed :: "TaskSet \<Rightarrow> JobID \<Rightarrow> StageID \<Rightarrow> TaskAttemptIdentity \<Rightarrow> bool" where
  "observed ts jid sid attempt \<longleftrightarrow>
     jid = set_JobID ts \<and> sid = set_StageID ts \<and> tai_StageAttemptID attempt = set_StageAttemptID ts"

fun dagTaskSetObserver :: "TaskSet \<Rightarrow> observerCall \<Rightarrow> schedulerEvent option" where
  "dagTaskSetObserver ts (ObserveSuccess report) =
     (if observed ts (ts_JobID report) (ts_StageID report) (ts_Attempt report)
      then Some (taskSucceeded (report\<lparr>ts_Output := TaskOutput_Clone (ts_Output report)\<rparr>)) else None)"
| "dagTaskSetObserver ts (ObserveFailure report) =
     (if observed ts (tf_JobID report) (tf_StageID report) (tf_Attempt report)
      then Some (taskFailed (report\<lparr>tf_ShuffleInput := map_option (\<lambda>input. input) (tf_ShuffleInput report)\<rparr>))
      else None)"

definition scheduleTaskSet_end :: "TaskSet \<Rightarrow> setError option \<Rightarrow> schedulerEvent" where
  "scheduleTaskSet_end ts err = taskSetFinished (set_JobID ts) (set_StageID ts) (set_StageAttemptID ts) err"

definition watchCancellation :: "ctx_env \<Rightarrow> JobID \<Rightarrow> ctx \<Rightarrow> schedulerEvent option" where
  "watchCancellation env jid c = map_option (jobCanceled jid) (env c)"

text \<open>What \<open>Run\<close> returns for the completion it receives: the result, unless there is an error.\<close>

definition Run_result :: "jobCompletion \<Rightarrow> dagError + JobResult" where
  "Run_result completion =
     (case jc_err completion of Some err \<Rightarrow> Inl err | None \<Rightarrow> Inr (jc_result completion))"

end
