(* ===== verification/DAG_Invariant.thy ===== *)
theory DAG_Invariant
  imports DAG_Scheduler
begin

text \<open>
  The invariant of the job scheduler. The two shapes of an executable job are described with all
  their stage states (\<open>narrow_job\<close>, \<open>shuffle_job\<close>); every handler is shown to keep each active
  job in one of them, and never to dereference \<open>nil\<close>.
\<close>

section \<open>Stages and their tasks\<close>

definition tasks_of :: "Stage \<Rightarrow> Task list \<Rightarrow> bool" where
  "tasks_of stage tasks \<longleftrightarrow>
     (\<exists>k. tasks = map (\<lambda>j. stage_task stage (k + j) (int j)) [0 ..< nat (stage_NumPartitions stage)])"

lemma tasks_of_length: "tasks_of stage tasks \<Longrightarrow> length tasks = nat (stage_NumPartitions stage)"
  by (auto simp: tasks_of_def)

lemma tasks_of_nth:
  assumes "tasks_of stage tasks" "j < length tasks"
  shows "task_StageKind (tasks ! j) = stage_Kind stage" "task_PartitionID (tasks ! j) = int j"
    "task_StageID (tasks ! j) = stage_ID stage" "task_NumPartitions (tasks ! j) = stage_NumPartitions stage"
    "task_ShuffleWrite (tasks ! j) = stage_ShuffleWrite stage"
    "task_FinalAction (tasks ! j) = stage_FinalAction stage"
  using assms by (auto simp: tasks_of_def stage_task_def)

text \<open>An output was accepted for a partition: some attempt of the stage's task has this output.\<close>

definition accepted :: "string \<Rightarrow> JobID \<Rightarrow> stageState \<Rightarrow> PartitionID \<Rightarrow> TaskOutput \<Rightarrow> bool" where
  "accepted run jid st p out \<longleftrightarrow>
     0 \<le> p \<and> p < int (length (ss_tasks st)) \<and>
     (\<exists>e. te_Task e = ss_tasks st ! nat p \<and> te_JobID e = jid \<and>
        tai_StageAttemptID (te_Attempt e) = ss_attemptID st \<and>
        (stage_Kind (ss_stage st) = StageShuffleMap \<longrightarrow> te_RunID e = run) \<and>
        ValidateFor out e = None)"

definition stage_inv :: "int \<Rightarrow> string \<Rightarrow> JobID \<Rightarrow> stageState \<Rightarrow> bool" where
  "stage_inv m run jid st \<longleftrightarrow>
     tasks_of (ss_stage st) (ss_tasks st) \<and> 0 < stage_NumPartitions (ss_stage st) \<and>
     0 \<le> ss_attempts st \<and> ss_attempts st \<le> m \<and>
     (\<forall>p out. fmlookup (ss_outputs st) p = Some out \<longrightarrow> accepted run jid st p out) \<and>
     ss_remaining st = int (length (ss_tasks st)) - int (fcard (fmdom (ss_outputs st))) \<and>
     (case ss_status st of
        stagePending \<Rightarrow> ss_outputs st = fmempty \<and> ss_attempts st < m
      | stageRunning \<Rightarrow> 0 < ss_remaining st \<and> ss_cancel st = Some (ss_attemptID st) \<and> 0 < ss_attempts st
      | stageSucceeded \<Rightarrow> ss_remaining st = 0 \<and> ss_cancel st = Some (ss_attemptID st) \<and> 0 < ss_attempts st)"

definition result_stage :: "StageID \<Rightarrow> StageID list \<Rightarrow> ActionSpec \<Rightarrow> Stage \<Rightarrow> bool" where
  "result_stage r parents action stage \<longleftrightarrow>
     stage_ID stage = r \<and> stage_Kind stage = StageResult \<and> stage_ParentIDs stage = parents \<and>
     stage_ShuffleWrite stage = None \<and> stage_FinalAction stage = Some action \<and>
     act_Kind action \<in> {ActionCollect, ActionCount}"

definition shuffle_stage :: "StageID \<Rightarrow> Stage \<Rightarrow> bool" where
  "shuffle_stage m stage \<longleftrightarrow>
     stage_ID stage = m \<and> stage_Kind stage = StageShuffleMap \<and> stage_ParentIDs stage = [] \<and>
     stage_ShuffleWrite stage \<noteq> None \<and> stage_FinalAction stage = None"

section \<open>The two shapes of a job\<close>

definition narrow_shape :: "jobState \<Rightarrow> StageID \<Rightarrow> stageState \<Rightarrow> bool" where
  "narrow_shape job r rst \<longleftrightarrow>
     js_order job = [r] \<and> js_resultStageID job = r \<and>
     (\<forall>x. fmlookup (js_stages job) x = (if x = r then Some rst else None)) \<and>
     result_stage r [] (js_action job) (ss_stage rst)"

definition shuffle_shape :: "jobState \<Rightarrow> StageID \<Rightarrow> stageState \<Rightarrow> StageID \<Rightarrow> stageState \<Rightarrow> bool" where
  "shuffle_shape job m mst r rst \<longleftrightarrow>
     js_order job = [m, r] \<and> js_resultStageID job = r \<and> m \<noteq> r \<and>
     (\<forall>x. fmlookup (js_stages job) x = (if x = m then Some mst else if x = r then Some rst else None)) \<and>
     shuffle_stage m (ss_stage mst) \<and> result_stage r [m] (js_action job) (ss_stage rst)"

definition job_inv :: "int \<Rightarrow> JobID \<Rightarrow> jobState \<Rightarrow> bool" where
  "job_inv k jid job \<longleftrightarrow>
     (\<exists>r rst. narrow_shape job r rst \<and> stage_inv k (js_runID job) jid rst \<and> ss_status rst = stageRunning) \<or>
     (\<exists>m mst r rst. shuffle_shape job m mst r rst \<and>
        stage_inv k (js_runID job) jid mst \<and> stage_inv k (js_runID job) jid rst \<and>
        (ss_status mst = stageRunning \<and> ss_status rst = stagePending \<or>
         ss_status mst = stageSucceeded \<and> ss_status rst = stageRunning))"

lemma job_inv_cases [consumes 1, case_names narrow mapping reducing]:
  assumes "job_inv k jid job"
  obtains
      r rst where "narrow_shape job r rst" "stage_inv k (js_runID job) jid rst" "ss_status rst = stageRunning"
    | m mst r rst where "shuffle_shape job m mst r rst" "stage_inv k (js_runID job) jid mst"
        "stage_inv k (js_runID job) jid rst" "ss_status mst = stageRunning" "ss_status rst = stagePending"
    | m mst r rst where "shuffle_shape job m mst r rst" "stage_inv k (js_runID job) jid mst"
        "stage_inv k (js_runID job) jid rst" "ss_status mst = stageSucceeded" "ss_status rst = stageRunning"
  using assms by (auto simp: job_inv_def)

section \<open>Submission builds such a job\<close>

lemma addTasks_append: "addTasks (xs @ ys) job = Option.bind (addTasks xs job) (addTasks ys)"
  by (induction xs arbitrary: job) (auto intro: Option.bind_cong)

lemma addTasks_stage:
  assumes "\<And>t. t \<in> set ts \<Longrightarrow> task_StageID t = sid" "fmlookup (js_stages job) sid = Some st"
  shows "addTasks ts job = Some (put_stage sid (st\<lparr>ss_tasks := ss_tasks st @ ts\<rparr>) job)"
  using assms
proof (induction ts arbitrary: job st)
  case Nil
  have "fmupd sid st (js_stages job) = js_stages job" using Nil(2) by (intro fmap_ext) auto
  then show ?case by (simp add: put_stage_def)
next
  case (Cons t ts)
  have "addTasks ts (put_stage sid (st\<lparr>ss_tasks := ss_tasks st @ [t]\<rparr>) job)
      = Some (put_stage sid (st\<lparr>ss_tasks := ss_tasks st @ t # ts\<rparr>)
               (put_stage sid (st\<lparr>ss_tasks := ss_tasks st @ [t]\<rparr>) job))"
    using Cons.IH [of "put_stage sid (st\<lparr>ss_tasks := ss_tasks st @ [t]\<rparr>) job" "st\<lparr>ss_tasks := ss_tasks st @ [t]\<rparr>"]
      Cons.prems by (simp add: put_stage_def)
  then show ?case using Cons.prems by (simp add: put_stage_def)
qed

definition fresh_stage :: "Stage \<Rightarrow> stageState \<Rightarrow> bool" where
  "fresh_stage stage st \<longleftrightarrow>
     ss_stage st = stage \<and> ss_status st = stagePending \<and> ss_attempts st = 0 \<and> ss_outputs st = fmempty \<and>
     ss_cancel st = None \<and> ss_remaining st = stage_NumPartitions stage \<and> tasks_of stage (ss_tasks st)"

lemma fresh_stage_new:
  "fresh_stage stage ((new_stage stage)\<lparr>ss_tasks := map (\<lambda>j. stage_task stage (k + j) (int j))
     [0 ..< nat (stage_NumPartitions stage)]\<rparr>)"
  by (auto simp: fresh_stage_def new_stage_def tasks_of_def)

lemma fresh_stage_inv:
  assumes "fresh_stage stage st" "0 < stage_NumPartitions stage" "0 < k"
  shows "stage_inv k run jid st"
  using assms tasks_of_length [of stage "ss_tasks st"] by (auto simp: fresh_stage_def stage_inv_def)

definition fresh_job :: "ActionSpec \<Rightarrow> ctx \<Rightarrow> nat \<Rightarrow> jobState \<Rightarrow> bool" where
  "fresh_job action c response job \<longleftrightarrow>
     js_action job = action \<and> js_runID job = [] \<and> js_ctx job = c \<and> js_response job = response \<and>
     ((\<exists>r rst. narrow_shape job r rst \<and> fresh_stage (ss_stage rst) rst \<and> 0 < stage_NumPartitions (ss_stage rst)) \<or>
      (\<exists>m mst r rst. shuffle_shape job m mst r rst \<and> fresh_stage (ss_stage mst) mst \<and>
         fresh_stage (ss_stage rst) rst \<and> 0 < stage_NumPartitions (ss_stage mst) \<and>
         0 < stage_NumPartitions (ss_stage rst)))"

lemma Plan_Inr_args:
  assumes "Plan (Some functions) graph action = Inr p"
  obtains fns g where "functions = Some fns" "graph = Some g"
  using assms
  by (auto simp: Plan_def validateFunctions_def split: option.splits)

lemma addTasks_generated:
  assumes "fmlookup (js_stages job) (stage_ID s) = Some st"
  shows "addTasks (map (\<lambda>j. stage_task s (k + j) (int j)) [0 ..< n]) job =
     Some (put_stage (stage_ID s)
             (st\<lparr>ss_tasks := ss_tasks st @ map (\<lambda>j. stage_task s (k + j) (int j)) [0 ..< n]\<rparr>) job)"
  by (rule addTasks_stage [OF _ assms]) (auto simp: stage_task_def)

lemma addTasks_narrow:
  assumes "plan_chain g action [s]" "act_Kind action \<in> {ActionCollect, ActionCount}"
  shows "\<exists>job. addTasks (generateTasksLoop [s] []) (addStages [s] (empty_job action c response)) = Some job \<and>
    fresh_job action c response job"
proof -
  let ?j = "addStages [s] (empty_job action c response)"
  let ?ts = "map (\<lambda>j. stage_task s (0 + j) (int j)) [0 ..< nat (stage_NumPartitions s)]"
  let ?st = "(new_stage s)\<lparr>ss_tasks := ?ts\<rparr>"
  have s: "stage_ParentIDs s = []" "stage_Kind s = StageResult" "stage_ShuffleWrite s = None"
    "stage_FinalAction s = Some action" "0 < stage_NumPartitions s"
    using assms(1) by (auto simp: plan_chain_def stage_link_def stage_parents_def)
  have ts: "generateTasksLoop [s] [] = ?ts"
    by (simp add: generateTasksLoop_eq stage_partitions_def number_tasks_stage)
  have "fmlookup (js_stages ?j) (stage_ID s) = Some (new_stage s)"
    using s(2) by (simp add: put_stage_def Let_def empty_job_def)
  from addTasks_generated [OF this, of 0 "nat (stage_NumPartitions s)"]
  have add: "addTasks ?ts ?j = Some (put_stage (stage_ID s) ?st ?j)"
    by (simp add: new_stage_def)
  have "fresh_stage s ?st" by (rule fresh_stage_new)
  moreover have "ss_stage ?st = s" by (simp add: new_stage_def)
  ultimately have "fresh_job action c response (put_stage (stage_ID s) ?st ?j)"
    using s assms(2)
    by (auto simp: fresh_job_def narrow_shape_def put_stage_def Let_def empty_job_def result_stage_def
        intro!: exI[of _ "stage_ID s"] exI[of _ ?st])
  with ts add show ?thesis by metis
qed

lemma put_stage_fields [simp]:
  "js_action (put_stage sid st job) = js_action job" "js_runID (put_stage sid st job) = js_runID job"
  "js_order (put_stage sid st job) = js_order job" "js_ctx (put_stage sid st job) = js_ctx job"
  "js_response (put_stage sid st job) = js_response job"
  "js_resultStageID (put_stage sid st job) = js_resultStageID job"
  "fmlookup (js_stages (put_stage sid st job)) x = (if x = sid then Some st else fmlookup (js_stages job) x)"
  by (simp_all add: put_stage_def)

lemma addStages_shuffle:
  assumes "stage_Kind m \<noteq> StageResult" "stage_Kind r = StageResult"
  shows "addStages [m, r] job =
    (put_stage (stage_ID r) (new_stage r) (put_stage (stage_ID m) (new_stage m) job))
      \<lparr>js_order := js_order job @ [stage_ID m, stage_ID r], js_resultStageID := stage_ID r\<rparr>"
  using assms by (simp add: Let_def put_stage_def)

lemma addTasks_shuffle:
  assumes "plan_chain g action [m, r]" "act_Kind action \<in> {ActionCollect, ActionCount}"
  shows "\<exists>job. addTasks (generateTasksLoop [m, r] []) (addStages [m, r] (empty_job action c response)) = Some job \<and>
    fresh_job action c response job"
proof -
  define n where "n = nat (stage_NumPartitions m)"
  define mst where "mst = (new_stage m)\<lparr>ss_tasks := map (\<lambda>j. stage_task m (0 + j) (int j)) [0 ..< n]\<rparr>"
  define rst where "rst = (new_stage r)\<lparr>ss_tasks := map (\<lambda>j. stage_task r (n + j) (int j))
    [0 ..< nat (stage_NumPartitions r)]\<rparr>"
  define j where "j = addStages [m, r] (empty_job action c response)"
  have l: "stage_link g [m, r] 0" "stage_link g [m, r] 1" "map_stage m" "stage_Kind r = StageResult"
    "stage_ShuffleWrite r = None" "stage_FinalAction r = Some action"
    using assms(1) by (auto simp: plan_chain_def)
  then have s: "stage_ParentIDs m = []" "stage_ParentIDs r = [0]" "stage_ID m = 0" "stage_ID r = 1"
    "0 < stage_NumPartitions m" "0 < stage_NumPartitions r" "stage_Kind m = StageShuffleMap"
    "stage_ShuffleWrite m \<noteq> None" "stage_FinalAction m = None"
    by (auto simp: stage_link_def stage_parents_def map_stage_def)
  have j: "j = (put_stage 1 (new_stage r) (put_stage 0 (new_stage m) (empty_job action c response)))
      \<lparr>js_order := [0, 1], js_resultStageID := 1\<rparr>"
    unfolding j_def using s l(4) by (subst addStages_shuffle) (simp_all add: empty_job_def)
  have ts: "generateTasksLoop [m, r] [] = ss_tasks mst @ ss_tasks rst"
    by (simp add: generateTasksLoop_eq stage_partitions_def number_tasks_append number_tasks_stage mst_def rst_def n_def)
  have "fmlookup (js_stages j) (stage_ID m) = Some (new_stage m)" using s by (simp add: j)
  from addTasks_generated [OF this, of 0 n] have add1: "addTasks (ss_tasks mst) j = Some (put_stage 0 mst j)"
    by (simp add: new_stage_def mst_def s)
  have "fmlookup (js_stages (put_stage 0 mst j)) (stage_ID r) = Some (new_stage r)" using s by (simp add: j)
  from addTasks_generated [OF this, of n "nat (stage_NumPartitions r)"]
  have add2: "addTasks (ss_tasks rst) (put_stage 0 mst j) = Some (put_stage 1 rst (put_stage 0 mst j))"
    by (simp add: new_stage_def rst_def s)
  have fresh: "fresh_stage m mst" "fresh_stage r rst" unfolding mst_def rst_def n_def by (rule fresh_stage_new)+
  then have "ss_stage mst = m" "ss_stage rst = r" by (simp_all add: fresh_stage_def)
  moreover have "shuffle_shape (put_stage 1 rst (put_stage 0 mst j)) 0 mst 1 rst"
    using s l assms(2) calculation
    by (simp add: shuffle_shape_def j empty_job_def shuffle_stage_def result_stage_def)
  ultimately have "fresh_job action c response (put_stage 1 rst (put_stage 0 mst j))"
    using s fresh unfolding fresh_job_def by (auto simp: j empty_job_def)
  with add1 add2 show ?thesis unfolding addTasks_append ts j_def [symmetric] by simp
qed

lemma submitted_job:
  assumes wf: "graph_wf g" and plan: "Plan (Some (Some fns)) (Some g) action = Inr p"
    and exec: "validateExecutionPlan p = None" and tasks: "GenerateTasks p = Inr tasks"
  shows "\<exists>job. addTasks tasks (addStages (sp_Stages p) (empty_job action c response)) = Some job \<and>
    fresh_job action c response job"
proof -
  have chain: "plan_chain g action (sp_Stages p)" using Plan_Inr(2) [OF wf plan] by simp
  have kind: "act_Kind action \<in> {ActionCollect, ActionCount}"
    using Plan_Inr(1) [OF wf, of fns action] plan by blast
  have ts: "tasks = generateTasksLoop (sp_Stages p) []"
    using tasks by (auto simp: GenerateTasks_def split: option.splits)
  consider s where "sp_Stages p = [s]" | m r where "sp_Stages p = [m, r]"
    using exec by (auto simp: validateExecutionPlan_def split: list.splits)
  then show ?thesis
    using chain kind ts by cases (simp_all only: addTasks_narrow addTasks_shuffle)
qed

section \<open>What starting the ready stages does\<close>

lemma launched_fields [simp]:
  "ss_stage (launched a st) = ss_stage st" "ss_attemptID (launched a st) = a"
  "ss_status (launched a st) = stageRunning" "ss_attempts (launched a st) = ss_attempts st + 1"
  "ss_cancel (launched a st) = Some a" "ss_tasks (launched a st) = ss_tasks st"
  "ss_remaining (launched a st) = ss_remaining st" "ss_outputs (launched a st) = ss_outputs st"
  by (simp_all add: launched_def)

lemma narrow_shape_put:
  "narrow_shape job r rst \<Longrightarrow> ss_stage st = ss_stage rst \<Longrightarrow> narrow_shape (put_stage r st job) r st"
  by (simp add: narrow_shape_def)

lemma shuffle_shape_put:
  "shuffle_shape job m mst r rst \<Longrightarrow> ss_stage st = ss_stage rst \<Longrightarrow>
     shuffle_shape (put_stage r st job) m mst r st"
  "shuffle_shape job m mst r rst \<Longrightarrow> ss_stage st = ss_stage mst \<Longrightarrow>
     shuffle_shape (put_stage m st job) m st r rst"
  by (auto simp: shuffle_shape_def)

lemma launched_inv:
  assumes "stage_inv k run jid st" "ss_status st = stagePending"
  shows "stage_inv k run' jid (launched a st)"
  using assms tasks_of_length [of "ss_stage st" "ss_tasks st"]
  by (auto simp: stage_inv_def fcard.rep_eq)

text \<open>The task set of the running stage, whose inputs are the parent's accepted outputs.\<close>

definition current_set :: "JobID \<Rightarrow> jobState \<Rightarrow> TaskSet \<Rightarrow> bool" where
  "current_set jid job ts \<longleftrightarrow>
     (case fmlookup (js_stages job) (set_StageID ts) of
        None \<Rightarrow> False
      | Some st \<Rightarrow>
          ss_status st = stageRunning \<and>
          ts = stage_set jid (set_StageID ts) (ss_attemptID st) (set_ShuffleInputs ts) st \<and>
          stageInputs jid job (set_StageID ts) st = Some (Inr (set_ShuffleInputs ts)))"

definition stage_count :: "jobState \<Rightarrow> StageID \<Rightarrow> int" where
  "stage_count job sid = (case fmlookup (js_stages job) sid of None \<Rightarrow> 0 | Some st \<Rightarrow> ss_attempts st)"

definition started :: "int \<Rightarrow> JobID \<Rightarrow> jobState \<Rightarrow> StageAttemptID \<Rightarrow> jobState \<Rightarrow> TaskSet \<Rightarrow> bool" where
  "started k jid job a job' ts \<longleftrightarrow>
     js_response job' = js_response job \<and> js_ctx job' = js_ctx job \<and> js_action job' = js_action job \<and>
     job_inv k jid job' \<and> current_set jid job' ts \<and> set_JobID ts = jid \<and> set_StageAttemptID ts = a \<and>
     (\<forall>x. stage_count job' x = stage_count job x + (if x = set_StageID ts then 1 else 0))"

lemma those_map_Some:
  "(\<And>x. x \<in> set xs \<Longrightarrow> \<exists>y. f x = Some y) \<Longrightarrow> \<exists>ys. those (map f xs) = Some ys"
  by (induction xs) fastforce+

text \<open>The outputs of a finished map stage: one descriptor for every partition.\<close>

lemma complete_outputs:
  assumes inv: "stage_inv k run jid st" and rem: "ss_remaining st = 0" and j: "j < length (ss_tasks st)"
  shows "\<exists>out. fmlookup (ss_outputs st) (int j) = Some out \<and> accepted run jid st (int j) out"
proof -
  have card: "fcard (fmdom (ss_outputs st)) = length (ss_tasks st)"
    and acc: "\<And>p out. fmlookup (ss_outputs st) p = Some out \<Longrightarrow> accepted run jid st p out"
    using inv rem by (simp_all add: stage_inv_def)
  have sub: "fset (fmdom (ss_outputs st)) \<subseteq> {0 ..< int (length (ss_tasks st))}"
    using acc by (auto simp: accepted_def fmlookup_dom_iff)
  moreover have "card (fset (fmdom (ss_outputs st))) = card {0 ..< int (length (ss_tasks st))}"
    using card by (simp add: fcard.rep_eq)
  ultimately have "fset (fmdom (ss_outputs st)) = {0 ..< int (length (ss_tasks st))}"
    by (intro card_subset_eq) auto
  then have "int j |\<in>| fmdom (ss_outputs st)" using j by auto
  then show ?thesis using acc by (auto simp: fmlookup_dom_iff)
qed

lemma accepted_map_output:
  assumes "accepted run jid st p out" "shuffle_stage m (ss_stage st)" "tasks_of (ss_stage st) (ss_tasks st)"
  obtains mo where "to_ShuffleOutput out = Some mo" "output_ok mo"
proof -
  from assms(1) obtain e where e: "te_Task e = ss_tasks st ! nat p" "ValidateFor out e = None"
    "0 \<le> p" "p < int (length (ss_tasks st))" by (auto simp: accepted_def)
  have "task_StageKind (te_Task e) = StageShuffleMap"
    using assms(2,3) e tasks_of_nth [OF assms(3), of "nat p"] by (simp add: shuffle_stage_def)
  then have "map_output_for e out" using e(2) ValidateFor_map by blast
  then show ?thesis using that by (auto simp: map_output_for_def)
qed

lemma stageInputs_defined:
  assumes "shuffle_shape job m mst r rst" "stage_inv k (js_runID job) jid mst" "ss_remaining mst = 0"
  shows "stageInputs jid job sid rst \<noteq> None"
proof -
  have m: "shuffle_stage m (ss_stage mst)" "stage_ParentIDs (ss_stage rst) = [m]"
    "fmlookup (js_stages job) m = Some mst" "tasks_of (ss_stage mst) (ss_tasks mst)"
    using assms by (auto simp: shuffle_shape_def result_stage_def stage_inv_def)
  have "\<exists>ys. acceptedOutputs mst = Some ys"
    unfolding acceptedOutputs_def
  proof (rule those_map_Some)
    fix j assume "j \<in> set [0 ..< length (ss_tasks mst)]"
    then obtain out where out: "fmlookup (ss_outputs mst) (int j) = Some out"
      "accepted (js_runID job) jid mst (int j) out"
      using complete_outputs [OF assms(2,3), of j] by auto
    obtain mo where "to_ShuffleOutput out = Some mo" by (rule accepted_map_output [OF out(2) m(1,4)])
    with out(1) show "\<exists>y. Option.bind (fmlookup (ss_outputs mst) (int j))
        (\<lambda>out. to_ShuffleOutput (TaskOutput_Clone out)) = Some y" by simp
  qed
  with m show ?thesis
    by (auto simp: stageInputs_def buildInputs_def shuffle_stage_def Option.bind_eq_None_conv)
qed

lemma startStages_narrow:
  assumes "narrow_shape job r rst" "ss_status rst = stagePending" "ss_attempts rst < k"
  shows "startStages k jid (js_order job) job a =
    Some (None, put_stage r (launched a rst) job, a + 1, [StartTaskSet (stage_set jid r a None rst)])"
  using assms by (simp add: narrow_shape_def startStage_def result_stage_def stageInputs_def)

lemma startStages_map:
  assumes "shuffle_shape job m mst r rst" "ss_status mst = stagePending" "ss_attempts mst < k"
    "ss_status rst = stagePending"
  shows "startStages k jid (js_order job) job a =
    Some (None, put_stage m (launched a mst) job, a + 1, [StartTaskSet (stage_set jid m a None mst)])"
  using assms by (simp add: shuffle_shape_def startStage_def result_stage_def shuffle_stage_def stageInputs_def)

lemma startStages_reduce:
  assumes "shuffle_shape job m mst r rst" "ss_status mst = stageSucceeded" "ss_attempts rst < k"
    "ss_status rst = stagePending" "stageInputs jid job r rst = Some inputs"
  shows "startStages k jid (js_order job) job a =
    (case inputs of
       Inl err \<Rightarrow> Some (Some err, job, a, [])
     | Inr i \<Rightarrow> Some (None, put_stage r (launched a rst) job, a + 1, [StartTaskSet (stage_set jid r a i rst)]))"
  using assms by (cases inputs) (auto simp: shuffle_shape_def startStage_def result_stage_def)

lemma narrow_shapeD:
  assumes "narrow_shape job r rst"
  shows "fmlookup (js_stages job) x = (if x = r then Some rst else None)" "js_resultStageID job = r"
    "stage_Kind (ss_stage rst) = StageResult" "stage_ParentIDs (ss_stage rst) = []"
  using assms by (simp_all add: narrow_shape_def result_stage_def)

lemma shuffle_shapeD:
  assumes "shuffle_shape job m mst r rst"
  shows "fmlookup (js_stages job) x = (if x = m then Some mst else if x = r then Some rst else None)"
    "js_resultStageID job = r" "m \<noteq> r" "shuffle_stage m (ss_stage mst)"
    "stage_Kind (ss_stage mst) = StageShuffleMap" "stage_ParentIDs (ss_stage mst) = []"
    "stage_Kind (ss_stage rst) = StageResult" "stage_ParentIDs (ss_stage rst) = [m]"
  using assms by (simp_all add: shuffle_shape_def result_stage_def shuffle_stage_def)

text \<open>Only the started stage changes, and it was pending.\<close>

definition launches :: "jobState \<Rightarrow> jobState \<Rightarrow> TaskSet \<Rightarrow> bool" where
  "launches job job' ts \<longleftrightarrow>
     (\<forall>x. x \<noteq> set_StageID ts \<longrightarrow> fmlookup (js_stages job') x = fmlookup (js_stages job) x) \<and>
     (case fmlookup (js_stages job) (set_StageID ts) of None \<Rightarrow> False | Some st \<Rightarrow> ss_status st = stagePending)"

lemma launches_put:
  "fmlookup (js_stages job) x = Some st \<Longrightarrow> ss_status st = stagePending \<Longrightarrow>
     launches job (put_stage x st' job) (stage_set jid x a i st'')"
  by (simp add: launches_def stage_set_def)

definition ready_job :: "int \<Rightarrow> JobID \<Rightarrow> jobState \<Rightarrow> bool" where
  "ready_job k jid job \<longleftrightarrow>
     (\<exists>r rst. narrow_shape job r rst \<and> stage_inv k (js_runID job) jid rst \<and> ss_status rst = stagePending) \<or>
     (\<exists>m mst r rst. shuffle_shape job m mst r rst \<and>
        stage_inv k (js_runID job) jid mst \<and> stage_inv k (js_runID job) jid rst \<and>
        ss_status mst \<in> {stagePending, stageSucceeded} \<and> ss_status rst = stagePending)"

lemma pending_attempts: "stage_inv k run jid st \<Longrightarrow> ss_status st = stagePending \<Longrightarrow> ss_attempts st < k"
  by (simp add: stage_inv_def)

lemma started_narrow:
  assumes "narrow_shape job r rst" "stage_inv k (js_runID job) jid rst" "ss_status rst = stagePending"
  shows "started k jid job a (put_stage r (launched a rst) job) (stage_set jid r a None rst)"
proof -
  let ?j = "put_stage r (launched a rst) job"
  have "narrow_shape ?j r (launched a rst)" by (rule narrow_shape_put [OF assms(1)]) simp
  then have "job_inv k jid ?j"
    unfolding job_inv_def using launched_inv [OF assms(2,3)] by (metis launched_fields(3) put_stage_fields(2))
  then show ?thesis using assms(1)
    by (auto simp: started_def current_set_def stage_set_def stage_count_def narrow_shape_def stageInputs_def
        result_stage_def)
qed

lemma started_map:
  assumes "shuffle_shape job m mst r rst" "stage_inv k (js_runID job) jid mst" "stage_inv k (js_runID job) jid rst"
    "ss_status mst = stagePending" "ss_status rst = stagePending"
  shows "started k jid job a (put_stage m (launched a mst) job) (stage_set jid m a None mst)"
proof -
  let ?j = "put_stage m (launched a mst) job"
  have "shuffle_shape ?j m (launched a mst) r rst" by (rule shuffle_shape_put(2) [OF assms(1)]) simp
  then have "job_inv k jid ?j"
    unfolding job_inv_def using launched_inv [OF assms(2,4)] assms(3,5)
    by (metis launched_fields(3) put_stage_fields(2))
  then show ?thesis using assms(1)
    by (auto simp: started_def current_set_def stage_set_def stage_count_def shuffle_shape_def stageInputs_def
        shuffle_stage_def)
qed

lemma stageInputs_put:
  assumes "shuffle_shape job m mst r rst" "ss_stage st = ss_stage rst"
  shows "stageInputs jid (put_stage r st job) r st = stageInputs jid job r rst"
  using assms by (auto simp: stageInputs_def buildInputs_def shuffle_shape_def result_stage_def)

lemma started_reduce:
  assumes "shuffle_shape job m mst r rst" "stage_inv k (js_runID job) jid mst" "stage_inv k (js_runID job) jid rst"
    "ss_status mst = stageSucceeded" "ss_status rst = stagePending" "stageInputs jid job r rst = Some (Inr i)"
  shows "started k jid job a (put_stage r (launched a rst) job) (stage_set jid r a i rst)"
proof -
  let ?j = "put_stage r (launched a rst) job"
  have "shuffle_shape ?j m mst r (launched a rst)" by (rule shuffle_shape_put(1) [OF assms(1)]) simp
  then have "job_inv k jid ?j"
    unfolding job_inv_def using launched_inv [OF assms(3,5)] assms(2,4)
    by (metis launched_fields(3) put_stage_fields(2))
  moreover have "stageInputs jid ?j r (launched a rst) = Some (Inr i)"
    using stageInputs_put [OF assms(1), of "launched a rst"] assms(6) by simp
  ultimately show ?thesis using assms(1)
    by (auto simp: started_def current_set_def stage_set_def stage_count_def shuffle_shape_def)
qed

lemma startStages_outcome:
  assumes "ready_job k jid job"
  shows "(\<exists>err. startStages k jid (js_order job) job a = Some (Some err, job, a, [])) \<or>
    (\<exists>job' ts. startStages k jid (js_order job) job a = Some (None, job', a + 1, [StartTaskSet ts]) \<and>
       started k jid job a job' ts \<and> launches job job' ts)"
proof -
  consider (n) r rst where "narrow_shape job r rst" "stage_inv k (js_runID job) jid rst" "ss_status rst = stagePending"
    | (m) m mst r rst where "shuffle_shape job m mst r rst" "stage_inv k (js_runID job) jid mst"
        "stage_inv k (js_runID job) jid rst" "ss_status mst = stagePending" "ss_status rst = stagePending"
    | (r) m mst r rst where "shuffle_shape job m mst r rst" "stage_inv k (js_runID job) jid mst"
        "stage_inv k (js_runID job) jid rst" "ss_status mst = stageSucceeded" "ss_status rst = stagePending"
    using assms unfolding ready_job_def by blast
  then show ?thesis
  proof cases
    case n
    show ?thesis
      using startStages_narrow [OF n(1,3) pending_attempts [OF n(2,3)]] started_narrow [OF n]
        launches_put [OF _ n(3)] narrow_shapeD(1) [OF n(1), of r] by metis
  next
    case m
    show ?thesis
      using startStages_map [OF m(1,4) pending_attempts [OF m(2,4)] m(5)] started_map [OF m]
        launches_put [OF _ m(4)] shuffle_shapeD(1) [OF m(1), of m] by metis
  next
    case r
    have "ss_remaining mst = 0" using r(2,4) by (simp add: stage_inv_def)
    then obtain inputs where i: "stageInputs jid job r rst = Some inputs"
      using stageInputs_defined [OF r(1,2), of r] by auto
    show ?thesis
      using startStages_reduce [OF r(1,4) pending_attempts [OF r(3,5)] r(5) i, of a] started_reduce [OF r] i
        launches_put [OF _ r(5), of job r] shuffle_shapeD(1) [OF r(1), of r] shuffle_shapeD(3) [OF r(1)]
      by (cases inputs) auto
  qed
qed

text \<open>Every way a handler can leave a job: ended with one answer, or with a new stage attempt.\<close>

definition ended :: "JobID \<Rightarrow> jobState \<Rightarrow> jobCompletion \<Rightarrow> DAG \<Rightarrow> DAG \<Rightarrow> dagEffect list \<Rightarrow> bool" where
  "ended jid job c s s' effects \<longleftrightarrow>
     s' = s\<lparr>d_jobs := fmdrop jid (d_jobs s)\<rparr> \<and> effects = [CancelJob jid, Respond (js_response job) c]"

definition restarted ::
  "JobID \<Rightarrow> jobState \<Rightarrow> jobState \<Rightarrow> TaskSet \<Rightarrow> DAG \<Rightarrow> DAG \<Rightarrow> dagEffect list \<Rightarrow> bool"
where
  "restarted jid job job' ts s s' effects \<longleftrightarrow>
     s' = put_job jid job' (s\<lparr>d_nextStageAttemptID := d_nextStageAttemptID s + 1\<rparr>) \<and>
     effects = [StartTaskSet ts] \<and>
     started (d_maxStageAttempts s) jid job (d_nextStageAttemptID s) job' ts"

lemma put_job_fields [simp]:
  "d_maxStageAttempts (put_job jid job s) = d_maxStageAttempts s"
  "d_functions (put_job jid job s) = d_functions s" "d_taskScheduler (put_job jid job s) = d_taskScheduler s"
  "d_nextStageAttemptID (put_job jid job s) = d_nextStageAttemptID s"
  "d_stopping (put_job jid job s) = d_stopping s"
  "fmlookup (d_jobs (put_job jid job s)) x = (if x = jid then Some job else fmlookup (d_jobs s) x)"
  by (simp_all add: put_job_def)

lemma failJob_put:
  "failJob jid err (put_job jid job s) =
     (s\<lparr>d_jobs := fmdrop jid (d_jobs s)\<rparr>, [CancelJob jid, Respond (js_response job) (failed err)])"
proof -
  have "fmdrop jid (fmupd jid job (d_jobs s)) = fmdrop jid (d_jobs s)" by (rule fmap_ext) simp
  then show ?thesis by (simp add: failJob_def put_job_def)
qed

lemma start_outcome:
  assumes "ready_job (d_maxStageAttempts s) jid job"
  obtains (fail) err s' effects where "fail_on_error jid (startReadyStages env jid job s) = Some (s', effects)"
      "ended jid job (failed err) s s' effects"
    | (start) job' ts s' effects where "fail_on_error jid (startReadyStages env jid job s) = Some (s', effects)"
      "restarted jid job job' ts s s' effects" "launches job job' ts"
proof (cases "env (js_ctx job)")
  case (Some e)
  then show ?thesis using fail
    by (simp add: startReadyStages_def fail_on_error_def failJob_put ended_def)
next
  case None
  let ?r = "startStages (d_maxStageAttempts s) jid (js_order job) job (d_nextStageAttemptID s)"
  have self: "s\<lparr>d_nextStageAttemptID := d_nextStageAttemptID s\<rparr> = s" by simp
  from startStages_outcome [OF assms, of "d_nextStageAttemptID s"] show ?thesis
  proof (elim disjE exE conjE)
    fix err assume "?r = Some (Some err, job, d_nextStageAttemptID s, [])"
    then show ?thesis using fail None
      by (simp add: startReadyStages_def fail_on_error_def failJob_put ended_def self)
  next
    fix job' ts
    assume "?r = Some (None, job', d_nextStageAttemptID s + 1, [StartTaskSet ts])"
      and "started (d_maxStageAttempts s) jid job (d_nextStageAttemptID s) job' ts" "launches job job' ts"
    then show ?thesis using start None
      by (simp add: startReadyStages_def fail_on_error_def restarted_def)
  qed
qed

section \<open>Accepting the output of a partition\<close>

lemma pendingTask_Some:
  assumes "pendingTask s jid sid attempt p = Some job"
  obtains st where "fmlookup (d_jobs s) jid = Some job" "fmlookup (js_stages job) sid = Some st"
    "ss_status st = stageRunning" "tai_StageAttemptID attempt = ss_attemptID st" "0 \<le> p"
    "p < int (length (ss_tasks st))" "task_ID (ss_tasks st ! nat p) = tai_TaskID attempt"
    "p |\<notin>| fmdom (ss_outputs st)"
  using assms by (auto simp: pendingTask_def split: option.splits if_splits)

lemma accept_output_fields [simp]:
  "ss_stage (accept_output report st) = ss_stage st" "ss_attemptID (accept_output report st) = ss_attemptID st"
  "ss_status (accept_output report st) = ss_status st" "ss_attempts (accept_output report st) = ss_attempts st"
  "ss_cancel (accept_output report st) = ss_cancel st" "ss_tasks (accept_output report st) = ss_tasks st"
  "ss_remaining (accept_output report st) = ss_remaining st - 1"
  "ss_outputs (accept_output report st) = fmupd (ts_PartitionID report) (ts_Output report) (ss_outputs st)"
  by (simp_all add: accept_output_def)

lemma accepted_cong:
  assumes "ss_stage st' = ss_stage st" "ss_attemptID st' = ss_attemptID st" "ss_tasks st' = ss_tasks st"
  shows "accepted run jid st' p out = accepted run jid st p out"
  using assms by (simp add: accepted_def)

lemma accepted_validated:
  assumes "ValidateFor (ts_Output report) (success_execution report job st) = None"
    "tai_StageAttemptID (ts_Attempt report) = ss_attemptID st"
    "0 \<le> ts_PartitionID report" "ts_PartitionID report < int (length (ss_tasks st))"
  shows "accepted (report_runID job (ts_Output report)) (ts_JobID report) st (ts_PartitionID report) (ts_Output report)"
  unfolding accepted_def using assms
  by (auto intro!: exI[of _ "success_execution report job st"] simp: success_execution_def)

lemma stage_inv_accept:
  assumes inv: "stage_inv k run jid st" and run: "ss_status st = stageRunning"
    and new: "ts_PartitionID report |\<notin>| fmdom (ss_outputs st)"
    and acc: "accepted run jid st (ts_PartitionID report) (ts_Output report)"
  shows "ss_remaining st - 1 \<noteq> 0 \<Longrightarrow> stage_inv k run jid (accept_output report st)"
    and "ss_remaining st - 1 = 0 \<Longrightarrow> stage_inv k run jid ((accept_output report st)\<lparr>ss_status := stageSucceeded\<rparr>)"
proof -
  have card: "fcard (fmdom (ss_outputs (accept_output report st))) = Suc (fcard (fmdom (ss_outputs st)))"
    using new by (simp add: fcard_finsert_disjoint)
  have "accepted run jid (accept_output report st) p out"
    if "fmlookup (ss_outputs (accept_output report st)) p = Some out" for p out
    using that inv acc accepted_cong [of "accept_output report st" st]
    by (auto simp: stage_inv_def split: if_splits)
  moreover have "accepted run jid ((accept_output report st)\<lparr>ss_status := stageSucceeded\<rparr>) p out
      = accepted run jid (accept_output report st) p out" for p out
    by (rule accepted_cong) simp_all
  ultimately show "ss_remaining st - 1 \<noteq> 0 \<Longrightarrow> stage_inv k run jid (accept_output report st)"
    and "ss_remaining st - 1 = 0 \<Longrightarrow> stage_inv k run jid ((accept_output report st)\<lparr>ss_status := stageSucceeded\<rparr>)"
    using inv run card by (simp_all add: stage_inv_def)
qed

lemma stage_inv_run:
  assumes "stage_inv k run jid st" "stage_Kind (ss_stage st) \<noteq> StageShuffleMap"
  shows "stage_inv k run' jid st"
proof -
  have "accepted run jid st p out = accepted run' jid st p out" for p out
    using assms(2) by (simp add: accepted_def)
  then show ?thesis using assms(1) by (simp add: stage_inv_def)
qed

text \<open>A map output always carries a run, so the job's run is known once one is accepted.\<close>

lemma no_run_no_outputs:
  assumes "stage_inv k [] jid st" "shuffle_stage m (ss_stage st)"
  shows "ss_outputs st = fmempty"
proof (rule fmap_ext)
  fix p show "fmlookup (ss_outputs st) p = fmlookup fmempty p"
  proof (cases "fmlookup (ss_outputs st) p")
    case (Some out)
    then have acc: "accepted [] jid st p out" using assms(1) by (simp add: stage_inv_def)
    then obtain e where e: "te_Task e = ss_tasks st ! nat p" "te_RunID e = []" "ValidateFor out e = None"
      "0 \<le> p" "p < int (length (ss_tasks st))"
      using assms(2) by (auto simp: accepted_def shuffle_stage_def)
    have "tasks_of (ss_stage st) (ss_tasks st)" using assms(1) by (simp add: stage_inv_def)
    then have "task_StageKind (te_Task e) = StageShuffleMap"
      using assms(2) e tasks_of_nth [of "ss_stage st" "ss_tasks st" "nat p"] by (simp add: shuffle_stage_def)
    then have "map_output_for e out" using e(3) ValidateFor_map by blast
    then obtain mo w where "output_ok mo" "mo_Attempt mo = map_identity e w" by (auto simp: map_output_for_def)
    then show ?thesis using e(2) by (simp add: output_ok_def identity_ok_def lowerHex_def map_identity_def)
  qed simp
qed

lemma stage_inv_first_run:
  assumes "stage_inv k (js_runID job) jid st" "shuffle_stage m (ss_stage st)"
  shows "stage_inv k (report_runID job out) jid st"
proof (cases "js_runID job = []")
  case True
  then have "ss_outputs st = fmempty" using no_run_no_outputs assms by simp
  then show ?thesis using assms(1) by (simp add: stage_inv_def)
qed (use assms in \<open>simp add: report_runID_def\<close>)

definition progressed :: "JobID \<Rightarrow> jobState \<Rightarrow> jobState \<Rightarrow> DAG \<Rightarrow> DAG \<Rightarrow> dagEffect list \<Rightarrow> bool" where
  "progressed jid job job' s s' effects \<longleftrightarrow>
     s' = put_job jid job' s \<and> effects = [] \<and>
     js_response job' = js_response job \<and> js_ctx job' = js_ctx job \<and> js_action job' = js_action job \<and>
     job_inv (d_maxStageAttempts s) jid job' \<and>
     (\<forall>ts. current_set jid job ts \<longrightarrow> current_set jid job' ts) \<and>
     (\<forall>x. stage_count job' x = stage_count job x)"

definition with_run :: "stageState \<Rightarrow> string \<Rightarrow> jobState \<Rightarrow> jobState" where
  "with_run st run job = (if stage_Kind (ss_stage st) = StageShuffleMap then job\<lparr>js_runID := run\<rparr> else job)"

lemma with_run_fields [simp]:
  "js_action (with_run st run job) = js_action job" "js_stages (with_run st run job) = js_stages job"
  "js_order (with_run st run job) = js_order job" "js_ctx (with_run st run job) = js_ctx job"
  "js_response (with_run st run job) = js_response job"
  "js_resultStageID (with_run st run job) = js_resultStageID job"
  by (simp_all add: with_run_def)

lemma shape_with_run [simp]:
  "narrow_shape (with_run st run job) r rst = narrow_shape job r rst"
  "shuffle_shape (with_run st run job) m mst r rst = shuffle_shape job m mst r rst"
  by (simp_all add: narrow_shape_def shuffle_shape_def)

lemma stageInputs_no_parent: "stage_ParentIDs (ss_stage st) = [] \<Longrightarrow> stageInputs jid job sid st = Some (Inr None)"
  by (simp add: stageInputs_def)

definition fits :: "JobID \<Rightarrow> jobState \<Rightarrow> stageState \<Rightarrow> TaskAttemptSuccess \<Rightarrow> bool" where
  "fits jid job st report \<longleftrightarrow>
     ss_status st = stageRunning \<and> ts_PartitionID report |\<notin>| fmdom (ss_outputs st) \<and>
     accepted (report_runID job (ts_Output report)) jid st (ts_PartitionID report) (ts_Output report)"

lemma stage_inv_fits:
  assumes "stage_inv k (js_runID job) jid st" "fits jid job st report"
    and "stage_Kind (ss_stage st) = StageShuffleMap \<Longrightarrow> shuffle_stage m (ss_stage st)"
  defines "run \<equiv> js_runID (with_run st (report_runID job (ts_Output report)) job)"
  shows "ss_remaining st - 1 \<noteq> 0 \<Longrightarrow> stage_inv k run jid (accept_output report st)"
    and "ss_remaining st - 1 = 0 \<Longrightarrow> stage_inv k run jid ((accept_output report st)\<lparr>ss_status := stageSucceeded\<rparr>)"
proof -
  have "stage_inv k run jid st \<and> accepted run jid st (ts_PartitionID report) (ts_Output report)"
  proof (cases "stage_Kind (ss_stage st) = StageShuffleMap")
    case True
    then show ?thesis using assms(2) stage_inv_first_run [OF assms(1,3)]
      by (simp add: run_def with_run_def fits_def)
  next
    case False
    then show ?thesis using assms(1,2) by (simp add: run_def with_run_def fits_def accepted_def)
  qed
  then show "ss_remaining st - 1 \<noteq> 0 \<Longrightarrow> stage_inv k run jid (accept_output report st)"
    and "ss_remaining st - 1 = 0 \<Longrightarrow> stage_inv k run jid ((accept_output report st)\<lparr>ss_status := stageSucceeded\<rparr>)"
    using stage_inv_accept assms(2) unfolding fits_def by blast+
qed

definition accepted_job :: "StageID \<Rightarrow> stageState \<Rightarrow> TaskAttemptSuccess \<Rightarrow> jobState \<Rightarrow> jobState" where
  "accepted_job sid st report job =
     put_stage sid (accept_output report st) (with_run st (report_runID job (ts_Output report)) job)"

definition finished_job :: "StageID \<Rightarrow> stageState \<Rightarrow> TaskAttemptSuccess \<Rightarrow> jobState \<Rightarrow> jobState" where
  "finished_job sid st report job =
     put_stage sid ((accept_output report st)\<lparr>ss_status := stageSucceeded\<rparr>)
       (with_run st (report_runID job (ts_Output report)) job)"

lemma accepted_job_inv:
  assumes inv: "job_inv k jid job" and st: "fmlookup (js_stages job) sid = Some st"
    and fits: "fits jid job st report" and rem: "ss_remaining st - 1 \<noteq> 0"
  shows "job_inv k jid (accepted_job sid st report job)"
    and "current_set jid job ts \<Longrightarrow> current_set jid (accepted_job sid st report job) ts"
  using inv
proof (atomize(full), cases rule: job_inv_cases)
  case (narrow r rst)
  then have sid: "sid = r" "st = rst" using st by (auto simp: narrow_shapeD split: if_splits)
  have "narrow_shape (accepted_job sid st report job) r (accept_output report rst)"
    unfolding accepted_job_def sid by (rule narrow_shape_put) (simp_all add: narrow)
  moreover have "stage_inv k (js_runID (accepted_job sid st report job)) jid (accept_output report rst)"
    using stage_inv_fits(1) [OF narrow(2) fits [unfolded sid], of 0] rem narrow_shapeD(3) [OF narrow(1)]
    by (simp add: accepted_job_def sid)
  ultimately have "job_inv k jid (accepted_job sid st report job)"
    unfolding job_inv_def using narrow(3) by fastforce
  moreover have "current_set jid job ts \<longrightarrow> current_set jid (accepted_job sid st report job) ts"
    using narrow_shapeD [OF narrow(1)] narrow(3)
    by (auto simp: current_set_def accepted_job_def sid stage_set_def stageInputs_no_parent split: if_splits)
  ultimately show "job_inv k jid (accepted_job sid st report job) \<and>
      (current_set jid job ts \<longrightarrow> current_set jid (accepted_job sid st report job) ts)" by blast
next
  case (mapping m mst r rst)
  note sh = shuffle_shapeD [OF mapping(1)]
  have sid: "sid = m" "st = mst" using st mapping fits by (auto simp: sh fits_def split: if_splits)
  have "shuffle_shape (accepted_job sid st report job) m (accept_output report mst) r rst"
    unfolding accepted_job_def sid by (rule shuffle_shape_put) (simp_all add: mapping)
  moreover have "stage_inv k (js_runID (accepted_job sid st report job)) jid (accept_output report mst)"
    using stage_inv_fits(1) [OF mapping(2) fits [unfolded sid], of m] rem sh(4)
    by (simp add: accepted_job_def sid)
  moreover have "stage_inv k (js_runID (accepted_job sid st report job)) jid rst"
    by (rule stage_inv_run [OF mapping(3)]) (simp add: sh)
  ultimately have "job_inv k jid (accepted_job sid st report job)"
    unfolding job_inv_def using mapping(4,5) by fastforce
  moreover have "current_set jid job ts \<longrightarrow> current_set jid (accepted_job sid st report job) ts"
    using sh mapping(4,5)
    by (auto simp: current_set_def accepted_job_def sid stage_set_def stageInputs_no_parent split: if_splits)
  ultimately show "job_inv k jid (accepted_job sid st report job) \<and>
      (current_set jid job ts \<longrightarrow> current_set jid (accepted_job sid st report job) ts)" by blast
next
  case (reducing m mst r rst)
  note sh = shuffle_shapeD [OF reducing(1)]
  have sid: "sid = r" "st = rst" using st reducing fits by (auto simp: sh fits_def split: if_splits)
  have aj: "accepted_job sid st report job = put_stage r (accept_output report rst) job"
    using sh by (simp add: accepted_job_def sid with_run_def)
  have "shuffle_shape (accepted_job sid st report job) m mst r (accept_output report rst)"
    unfolding aj by (rule shuffle_shape_put(1) [OF reducing(1)]) simp
  moreover have "stage_inv k (js_runID (accepted_job sid st report job)) jid (accept_output report rst)"
    using stage_inv_fits(1) [OF reducing(3) fits [unfolded sid], of 0] rem sh
    by (simp add: accepted_job_def sid)
  ultimately have "job_inv k jid (accepted_job sid st report job)"
    unfolding job_inv_def using reducing(2,4,5) by (fastforce simp: aj)
  moreover have "current_set jid job ts \<longrightarrow> current_set jid (accepted_job sid st report job) ts"
    using sh reducing(4,5) stageInputs_put [OF reducing(1), of "accept_output report rst"]
    by (auto simp: current_set_def aj stage_set_def split: if_splits)
  ultimately show "job_inv k jid (accepted_job sid st report job) \<and>
      (current_set jid job ts \<longrightarrow> current_set jid (accepted_job sid st report job) ts)" by blast
qed

lemma finished_job_ready:
  assumes inv: "job_inv k jid job" and st: "fmlookup (js_stages job) sid = Some st"
    and fits: "fits jid job st report" and rem: "ss_remaining st - 1 = 0" and map: "sid \<noteq> js_resultStageID job"
  shows "ready_job k jid (finished_job sid st report job)"
  using inv
proof (cases rule: job_inv_cases)
  case (mapping m mst r rst)
  note sh = shuffle_shapeD [OF mapping(1)]
  have sid: "sid = m" "st = mst" using st mapping fits by (auto simp: sh fits_def split: if_splits)
  let ?mst = "(accept_output report mst)\<lparr>ss_status := stageSucceeded\<rparr>"
  have "shuffle_shape (finished_job sid st report job) m ?mst r rst"
    unfolding finished_job_def sid by (rule shuffle_shape_put) (simp_all add: mapping)
  moreover have "stage_inv k (js_runID (finished_job sid st report job)) jid ?mst"
    using stage_inv_fits(2) [OF mapping(2) fits [unfolded sid], of m] rem sh(4)
    by (simp add: finished_job_def sid)
  moreover have "stage_inv k (js_runID (finished_job sid st report job)) jid rst"
    by (rule stage_inv_run [OF mapping(3)]) (simp add: sh)
  ultimately show ?thesis
    unfolding ready_job_def using mapping(5) by fastforce
qed (use st map fits in \<open>auto simp: narrow_shapeD shuffle_shapeD fits_def split: if_splits\<close>)

section \<open>What the handlers do to one job\<close>

definition cancels :: "dagEffect list \<Rightarrow> bool" where
  "cancels cs = list_all (\<lambda>e. case e of CancelStage _ _ _ \<Rightarrow> True | _ \<Rightarrow> False) cs"

definition changes :: "JobID \<Rightarrow> jobState \<Rightarrow> DAG \<Rightarrow> DAG \<Rightarrow> dagEffect list \<Rightarrow> bool" where
  "changes jid job s s' effects \<longleftrightarrow>
     (\<exists>c. ended jid job c s s' effects) \<or> (\<exists>job'. progressed jid job job' s s' effects) \<or>
     (\<exists>job' ts. restarted jid job job' ts s s' effects)"

definition outcome :: "JobID \<Rightarrow> DAG \<Rightarrow> DAG \<Rightarrow> dagEffect list \<Rightarrow> bool" where
  "outcome jid s s' effects \<longleftrightarrow>
     s' = s \<and> effects = [] \<or>
     (\<exists>job cs more. fmlookup (d_jobs s) jid = Some job \<and> effects = cs @ more \<and> cancels cs \<and>
        changes jid job s s' more)"

definition jobs_ok :: "DAG \<Rightarrow> bool" where
  "jobs_ok s \<longleftrightarrow>
     0 < d_maxStageAttempts s \<and>
     (\<forall>jid job. fmlookup (d_jobs s) jid = Some job \<longrightarrow> job_inv (d_maxStageAttempts s) jid job) \<and>
     (d_stopping s \<longrightarrow> d_jobs s = fmempty)"

lemma cancels_simps [simp]: "cancels []" "cancels (CancelStage j st a # cs) = cancels cs"
  by (simp_all add: cancels_def)

lemma outcome_ignored: "outcome jid s s []"
  by (simp add: outcome_def)

lemma outcome_changes: "fmlookup (d_jobs s) jid = Some job \<Longrightarrow> changes jid job s s' effects \<Longrightarrow> outcome jid s s' effects"
  unfolding outcome_def by (metis append_Nil cancels_simps(1))

lemma failJob_outcome:
  "failJob jid err s = (s', effects) \<Longrightarrow> outcome jid s s' effects"
  by (cases "fmlookup (d_jobs s) jid")
    (fastforce simp: failJob_def ended_def changes_def outcome_ignored intro: outcome_changes)+

definition same_job :: "jobState \<Rightarrow> jobState \<Rightarrow> bool" where
  "same_job job job' \<longleftrightarrow>
     js_response job' = js_response job \<and> js_ctx job' = js_ctx job \<and> js_action job' = js_action job \<and>
     (\<forall>x. stage_count job' x = stage_count job x)"

lemma start_changes:
  assumes "ready_job (d_maxStageAttempts s) jid job'" "same_job job job'"
  shows "\<exists>s' effects. fail_on_error jid (startReadyStages env jid job' s) = Some (s', effects) \<and>
    changes jid job s s' effects"
  using assms(1)
proof (cases rule: start_outcome [where env = env])
  case (fail err s' effects)
  then have "ended jid job (failed err) s s' effects" using assms(2) by (simp add: ended_def same_job_def)
  with fail show ?thesis unfolding changes_def by blast
next
  case (start job'' ts s' effects)
  then have "restarted jid job job'' ts s s' effects"
    using assms(2) by (simp add: restarted_def started_def same_job_def)
  with start show ?thesis unfolding changes_def by blast
qed

lemma same_job_finished:
  assumes "fmlookup (js_stages job) sid = Some st"
  shows "same_job job (finished_job sid st report job)" "same_job job (accepted_job sid st report job)"
  using assms by (auto simp: same_job_def finished_job_def accepted_job_def stage_count_def)

lemma handleTaskSucceeded_cases:
  assumes "pendingTask s (ts_JobID report) (ts_StageID report) (ts_Attempt report) (ts_PartitionID report) = Some job"
    "rd_check r (js_ctx job) = None" "fmlookup (js_stages job) (ts_StageID report) = Some st"
    "ValidateFor (ts_Output report) (success_execution report job st) = None"
  shows "handleTaskSucceeded r report s =
    (if ss_remaining st - 1 \<noteq> 0
     then Some (put_job (ts_JobID report) (accepted_job (ts_StageID report) st report job) s, [])
     else if ts_StageID report \<noteq> js_resultStageID job
     then fail_on_error (ts_JobID report)
            (startReadyStages (rd_start r) (ts_JobID report) (finished_job (ts_StageID report) st report job) s)
     else Some (s\<lparr>d_jobs := fmdrop (ts_JobID report) (d_jobs s)\<rparr>,
            [CancelJob (ts_JobID report),
             Respond (js_response job)
               \<lparr>jc_result = mergeTaskOutputs (act_Kind (js_action job))
                  (fmupd (ts_PartitionID report) (ts_Output report) (ss_outputs st)), jc_err = None\<rparr>]))"
  using assms unfolding handleTaskSucceeded_def accepted_job_def finished_job_def with_run_def by (simp add: Let_def)

lemma success_outcome:
  assumes ok: "jobs_ok s"
  shows "\<exists>s' effects. handleTaskSucceeded r report s = Some (s', effects) \<and> outcome (ts_JobID report) s s' effects"
proof (cases "pendingTask s (ts_JobID report) (ts_StageID report) (ts_Attempt report) (ts_PartitionID report)")
  case None
  then show ?thesis by (auto simp: handleTaskSucceeded_def intro: outcome_ignored)
next
  case (Some job)
  let ?jid = "ts_JobID report" and ?sid = "ts_StageID report"
  from Some obtain st where st: "fmlookup (d_jobs s) ?jid = Some job" "fmlookup (js_stages job) ?sid = Some st"
    "ss_status st = stageRunning" "tai_StageAttemptID (ts_Attempt report) = ss_attemptID st"
    "0 \<le> ts_PartitionID report" "ts_PartitionID report < int (length (ss_tasks st))"
    "ts_PartitionID report |\<notin>| fmdom (ss_outputs st)"
    by (rule pendingTask_Some)
  have inv: "job_inv (d_maxStageAttempts s) ?jid job" using ok st(1) by (simp add: jobs_ok_def)
  show ?thesis
  proof (cases "rd_check r (js_ctx job) = None \<and> ValidateFor (ts_Output report) (success_execution report job st) = None")
    case False
    then have "\<exists>err. handleTaskSucceeded r report s = Some (failJob ?jid err s)"
      using Some st(2) by (cases "rd_check r (js_ctx job)") (auto simp: handleTaskSucceeded_def)
    then show ?thesis using failJob_outcome by (metis surj_pair)
  next
    case True
    then have fits: "fits ?jid job st report" using st accepted_validated by (simp add: fits_def)
    note eq = handleTaskSucceeded_cases [OF Some _ st(2), of r]
    consider "ss_remaining st - 1 \<noteq> 0"
      | "ss_remaining st - 1 = 0" "?sid \<noteq> js_resultStageID job"
      | "ss_remaining st - 1 = 0" "?sid = js_resultStageID job" by blast
    then show ?thesis
    proof cases
      case 1
      then have "progressed ?jid job (accepted_job ?sid st report job) s
          (put_job ?jid (accepted_job ?sid st report job) s) []"
        using accepted_job_inv [OF inv st(2) fits] same_job_finished(2) [OF st(2), of report]
        by (simp add: progressed_def same_job_def)
      then have "outcome ?jid s (put_job ?jid (accepted_job ?sid st report job) s) []"
        by (intro outcome_changes [OF st(1)]) (auto simp: changes_def)
      with 1 True eq show ?thesis by simp
    next
      case 2
      from start_changes [OF finished_job_ready [OF inv st(2) fits 2] same_job_finished(1) [OF st(2)], of "rd_start r"]
      show ?thesis using 2 True eq outcome_changes [OF st(1)] by auto
    next
      case 3
      then show ?thesis using True eq outcome_changes [OF st(1)] by (auto simp: changes_def ended_def)
    qed
  qed
qed

section \<open>Recovery\<close>

lemma fail_on_error_prefix:
  "fail_on_error jid (do { (err, s', more) \<leftarrow> x; Some (err, s', cs @ more) }) =
     do { (s', more) \<leftarrow> fail_on_error jid x; Some (s', cs @ more) }"
  by (cases x) (auto simp: fail_on_error_def Let_def split: option.splits prod.splits)

lemma reset_stage_inv:
  assumes "stage_inv k run jid st" "ss_attempts st < k"
  shows "stage_inv k run' jid (reset_stage st)"
  using assms by (simp add: stage_inv_def reset_stage_def fcard.rep_eq)

lemma exhausted_None: "exhausted k message sts = None \<longleftrightarrow> (\<forall>st \<in> set sts. ss_attempts st < k)"
  by (induction sts) auto

definition reset_job :: "StageID \<Rightarrow> stageState \<Rightarrow> StageID \<Rightarrow> stageState \<Rightarrow> jobState \<Rightarrow> jobState" where
  "reset_job m mst r rst job = put_stage r (reset_stage rst) (put_stage m (reset_stage mst) job)"

lemma reset_job_ready:
  assumes sh: "shuffle_shape job m mst r rst" and "stage_inv k (js_runID job) jid mst"
    "stage_inv k (js_runID job) jid rst" "ss_attempts mst < k" "ss_attempts rst < k"
  shows "ready_job k jid (reset_job m mst r rst job)" "same_job job (reset_job m mst r rst job)"
proof -
  have "shuffle_shape (reset_job m mst r rst job) m (reset_stage mst) r (reset_stage rst)"
    using sh unfolding reset_job_def by (intro shuffle_shape_put) (auto simp: reset_stage_def shuffle_shape_def)
  moreover have "stage_inv k (js_runID (reset_job m mst r rst job)) jid (reset_stage mst)"
    "stage_inv k (js_runID (reset_job m mst r rst job)) jid (reset_stage rst)"
    using assms by (blast intro: reset_stage_inv)+
  ultimately show "ready_job k jid (reset_job m mst r rst job)"
    unfolding ready_job_def by (fastforce simp: reset_stage_def)
  show "same_job job (reset_job m mst r rst job)"
    using shuffle_shapeD [OF sh] by (auto simp: same_job_def reset_job_def stage_count_def reset_stage_def)
qed

lemma recoverShuffle_reducing:
  assumes sh: "shuffle_shape job m mst r rst" and inv: "stage_inv k (js_runID job) jid mst"
    "stage_inv k (js_runID job) jid rst" and status: "ss_status mst = stageSucceeded" "ss_status rst = stageRunning"
    and report: "tf_StageID report = r"
  shows "recoverShuffle rd job report s =
    (case lost_input_check report mst of
       Some err \<Rightarrow> Some (Some err, s, [])
     | None \<Rightarrow>
         (case exhausted (d_maxStageAttempts s) (tf_Error report) [mst, rst] of
            Some err \<Rightarrow> Some (Some err, s, [])
          | None \<Rightarrow>
              do { (err, s', effects) \<leftarrow>
                     startReadyStages (rd_start rd) (tf_JobID report) (reset_job m mst r rst job) s;
                   Some (err, s', [CancelStage (tf_JobID report) m (ss_attemptID mst),
                                   CancelStage (tf_JobID report) r (ss_attemptID rst)] @ effects) }))"
proof -
  have "ss_cancel mst = Some (ss_attemptID mst)" "ss_cancel rst = Some (ss_attemptID rst)"
    using inv status by (simp_all add: stage_inv_def)
  with shuffle_shapeD [OF sh] report status show ?thesis
    by (simp add: recoverShuffle_def reset_job_def split del: if_split split: option.split)
qed

lemma recoverShuffle_no_parent:
  assumes "fmlookup (js_stages job) (tf_StageID report) = Some st" "stage_ParentIDs (ss_stage st) = []"
  shows "recoverShuffle rd job report s = Some (Some (NoRecoverableParent (tf_StageID report)), s, [])"
  using assms by (simp add: recoverShuffle_def)

lemma fail_on_error_Some: "fail_on_error jid (Some (Some err, s, [])) = Some (failJob jid err s)"
  by (simp add: fail_on_error_def split: prod.split)

lemma recover_outcome:
  assumes inv: "job_inv (d_maxStageAttempts s) (tf_JobID report) job"
    and st: "fmlookup (d_jobs s) (tf_JobID report) = Some job"
    "fmlookup (js_stages job) (tf_StageID report) = Some st" "ss_status st = stageRunning"
  shows "\<exists>s' effects. fail_on_error (tf_JobID report) (recoverShuffle r job report s) = Some (s', effects) \<and>
    outcome (tf_JobID report) s s' effects"
proof -
  have fails: ?thesis if "recoverShuffle r job report s = Some (Some err, s, [])" for err
    unfolding that fail_on_error_Some using failJob_outcome by (metis surj_pair)
  show ?thesis
    using inv
  proof (cases rule: job_inv_cases)
    case (narrow rs rst)
    then have "stage_ParentIDs (ss_stage st) = []" using st by (auto simp: narrow_shapeD split: if_splits)
    then show ?thesis using recoverShuffle_no_parent [OF st(2)] fails by blast
  next
    case (mapping m mst rs rst)
    then have "stage_ParentIDs (ss_stage st) = []" using st by (auto simp: shuffle_shapeD split: if_splits)
    then show ?thesis using recoverShuffle_no_parent [OF st(2)] fails by blast
  next
    case (reducing m mst rs rst)
    then have "tf_StageID report = rs" using st by (auto simp: shuffle_shapeD split: if_splits)
    note eq = recoverShuffle_reducing [OF reducing this, of r s]
    show ?thesis
    proof (cases "lost_input_check report mst = None \<and>
        exhausted (d_maxStageAttempts s) (tf_Error report) [mst, rst] = None")
      case False
      then have "\<exists>err. recoverShuffle r job report s = Some (Some err, s, [])"
        unfolding eq by (cases "lost_input_check report mst";
          cases "exhausted (d_maxStageAttempts s) (tf_Error report) [mst, rst]")
          (simp_all del: exhausted.simps)
      then show ?thesis using fails by blast
    next
      case True
      then have att: "ss_attempts mst < d_maxStageAttempts s" "ss_attempts rst < d_maxStageAttempts s"
        by (simp_all add: exhausted_None del: exhausted.simps)
      from start_changes [OF reset_job_ready [OF reducing(1-3) att], of "rd_start r"] obtain s' effects where
        ch: "fail_on_error (tf_JobID report)
            (startReadyStages (rd_start r) (tf_JobID report) (reset_job m mst rs rst job) s) = Some (s', effects)"
          "changes (tf_JobID report) job s s' effects" by blast
      have "fail_on_error (tf_JobID report) (recoverShuffle r job report s) =
          Some (s', [CancelStage (tf_JobID report) m (ss_attemptID mst),
                     CancelStage (tf_JobID report) rs (ss_attemptID rst)] @ effects)"
        using True unfolding eq by (simp only: option.case fail_on_error_prefix ch) simp
      moreover have "outcome (tf_JobID report) s s' ([CancelStage (tf_JobID report) m (ss_attemptID mst),
                     CancelStage (tf_JobID report) rs (ss_attemptID rst)] @ effects)"
        unfolding outcome_def using st(1) ch(2)
        by (metis cancels_simps)
      ultimately show ?thesis by blast
    qed
  qed
qed

lemma failure_outcome:
  assumes ok: "jobs_ok s"
  shows "\<exists>s' effects. handleTaskFailed r report s = Some (s', effects) \<and> outcome (tf_JobID report) s s' effects"
proof (cases "pendingTask s (tf_JobID report) (tf_StageID report) (tf_Attempt report) (tf_PartitionID report)")
  case None
  then show ?thesis by (auto simp: handleTaskFailed_def intro: outcome_ignored)
next
  case (Some job)
  from Some obtain st where st: "fmlookup (d_jobs s) (tf_JobID report) = Some job"
    "fmlookup (js_stages job) (tf_StageID report) = Some st" "ss_status st = stageRunning"
    by (rule pendingTask_Some)
  show ?thesis
  proof (cases "rd_check r (js_ctx job) = None \<and> tf_Kind report = FailureShuffleInput")
    case True
    then show ?thesis using recover_outcome [OF _ st] ok st(1) Some
      by (simp add: handleTaskFailed_def jobs_ok_def)
  next
    case False
    then have "\<exists>err. handleTaskFailed r report s = Some (failJob (tf_JobID report) err s)"
      using Some by (cases "rd_check r (js_ctx job)") (auto simp: handleTaskFailed_def)
    then show ?thesis using failJob_outcome by (metis surj_pair)
  qed
qed

lemma setFinished_outcome:
  "handleTaskSetFinished r jid sid a err s = (s', effects) \<Longrightarrow> outcome jid s s' effects"
  by (auto simp: handleTaskSetFinished_def intro: outcome_ignored failJob_outcome split: option.splits if_splits)

section \<open>Submission\<close>

definition graph_ok :: "RDDGraph option \<Rightarrow> bool" where
  "graph_ok graph = (case graph of None \<Rightarrow> True | Some g \<Rightarrow> graph_wf g)"

lemma fresh_job_ready:
  assumes "fresh_job action c response job" "0 < k"
  shows "ready_job k jid job" "stage_count job x = 0"
proof -
  have st: "ss_status st = stagePending" "stage_inv k run jid st"
    if "fresh_stage (ss_stage st) st" "0 < stage_NumPartitions (ss_stage st)" for st run
    using that fresh_stage_inv [OF that assms(2)] by (auto simp: fresh_stage_def)
  then show "ready_job k jid job"
    using assms(1) unfolding fresh_job_def ready_job_def by blast
  show "stage_count job x = 0"
    using assms(1) by (auto simp: fresh_job_def stage_count_def narrow_shapeD shuffle_shapeD fresh_stage_def)
qed

lemma submit_outcome:
  assumes ok: "jobs_ok s" and g: "graph_ok graph" and new: "fmlookup (d_jobs s) jid = None"
  obtains (reject) err where
      "handleJobSubmitted r jid c graph action response s = Some (s, [Respond response (failed err)])"
    | (fail) err where
      "handleJobSubmitted r jid c graph action response s =
         Some (s, [WatchCancellation jid c, CancelJob jid, Respond response (failed err)])"
    | (start) job job' ts where
      "handleJobSubmitted r jid c graph action response s =
         Some (put_job jid job' (s\<lparr>d_nextStageAttemptID := d_nextStageAttemptID s + 1\<rparr>),
               [WatchCancellation jid c, StartTaskSet ts])"
      "started (d_maxStageAttempts s) jid job (d_nextStageAttemptID s) job' ts"
      "js_response job = response" "\<And>x. stage_count job x = 0" "\<not> d_stopping s"
proof (cases "\<exists>err. handleJobSubmitted r jid c graph action response s = Some (s, [Respond response (failed err)])")
  case True
  then show ?thesis using reject by blast
next
  case False
  then have run: "\<not> d_stopping s"
    by (cases "d_stopping s") (auto simp: handleJobSubmitted_def rejectJob_def)
  with False have "d_taskScheduler s"
    by (cases "d_taskScheduler s") (auto simp: handleJobSubmitted_def rejectJob_def)
  note run = run this
  with False obtain p where p: "Plan (Some (d_functions s)) graph action = Inr p"
    by (cases "Plan (Some (d_functions s)) graph action") (auto simp: handleJobSubmitted_def rejectJob_def)
  with run False have exec: "validateExecutionPlan p = None"
    by (cases "validateExecutionPlan p") (auto simp: handleJobSubmitted_def rejectJob_def)
  with p run False obtain tasks where tasks: "GenerateTasks p = Inr tasks"
    by (cases "GenerateTasks p") (auto simp: handleJobSubmitted_def rejectJob_def)
  from p obtain fns gr where args: "d_functions s = Some fns" "graph = Some gr" by (rule Plan_Inr_args)
  then have "graph_wf gr" "Plan (Some (Some fns)) (Some gr) action = Inr p"
    using g p by (simp_all add: graph_ok_def)
  from submitted_job [OF this exec tasks, of c response] obtain job where
    job: "addTasks tasks (addStages (sp_Stages p) (empty_job action c response)) = Some job"
    and fresh: "fresh_job action c response job" by blast
  have k: "0 < d_maxStageAttempts s" using ok by (simp add: jobs_ok_def)
  have resp: "js_response job = response" using fresh by (simp add: fresh_job_def)
  have drop: "fmdrop jid (fmupd jid job (d_jobs s)) = d_jobs s"
    using new by (intro fmap_ext) simp
  have handle: "handleJobSubmitted r jid c graph action response s =
      do { (s', effects) \<leftarrow> fail_on_error jid (startReadyStages (rd_start r) jid job (put_job jid job s));
           Some (s', WatchCancellation jid c # effects) }"
    using run p exec tasks job by (simp add: handleJobSubmitted_def)
  have "ready_job (d_maxStageAttempts (put_job jid job s)) jid job" using fresh_job_ready(1) [OF fresh] k by simp
  then show ?thesis
  proof (cases rule: start_outcome [where env = "rd_start r"])
    case (fail err s' effects)
    then show ?thesis using that(2) handle resp
      by (simp add: ended_def put_job_def drop)
  next
    case (start job' ts s' effects)
    have "put_job jid job' (put_job jid job s\<lparr>d_nextStageAttemptID := d_nextStageAttemptID s + 1\<rparr>)
        = put_job jid job' (s\<lparr>d_nextStageAttemptID := d_nextStageAttemptID s + 1\<rparr>)"
      by (simp add: put_job_def)
    then show ?thesis using that(3) [of job' ts job] handle start run resp fresh_job_ready(2) [OF fresh k]
      by (simp add: restarted_def)
  qed
qed

end
