(* ===== verification/DAG_System.thy ===== *)
theory DAG_System
  imports DAG_Invariant
begin

text \<open>
  The job scheduler with its callers: \<open>Run\<close> and \<open>Close\<close> of \<open>src/scheduler/dag_scheduler.go\<close>
  and the loop of \<open>src/scheduler/event_loop.go\<close>. \<open>Run\<close> takes a job number and offers a
  submission to the loop, whose channel has no buffer: the submission waits until the loop
  receives it, or the caller gives up because its context ends or the loop is gone. Reports,
  ends of task sets and cancellations may reach the loop in any order and with any content.
  All that the loop does on the outside is kept in a log.

  The theory shows the invariant of this system, from which the properties follow: each call is
  answered exactly once, stage attempts are numbered in order and bounded for each stage, and
  the task set of each running stage has been started with the accepted outputs of its parent.
\<close>

section \<open>The system\<close>

record dagSystem =
  sys_dag :: DAG
  sys_nextJobID :: JobID
  sys_closing :: bool
  sys_loopDone :: bool
  sys_pending :: "schedulerEvent list"
  sys_calls :: nat
  sys_refused :: "nat list"
  sys_log :: "dagEffect list"

text \<open>\<open>Run\<close> up to its \<open>send\<close>; a response channel is the number of the call.\<close>

definition Run_begin ::
  "ctx \<Rightarrow> RDDGraph option \<Rightarrow> ActionSpec \<Rightarrow> dagSystem \<Rightarrow> (dagError + JobID) \<times> dagSystem"
where
  "Run_begin c graph action s =
     (if sys_closing s then (Inl ErrSchedulerClosed, s)
      else (Inr (sys_nextJobID s),
            s\<lparr>sys_nextJobID := sys_nextJobID s + 1, sys_calls := sys_calls s + 1,
              sys_pending := sys_pending s @ [jobSubmitted (sys_nextJobID s) c graph action (sys_calls s)]\<rparr>))"

definition event_channel :: "schedulerEvent \<Rightarrow> nat option" where
  "event_channel e = (case e of jobSubmitted _ _ _ _ ch \<Rightarrow> Some ch | _ \<Rightarrow> None)"

text \<open>The loop receives an event and runs the handler; a stopped loop receives nothing.\<close>

definition loop_handle :: "readings \<Rightarrow> schedulerEvent \<Rightarrow> dagSystem \<Rightarrow> dagSystem option" where
  "loop_handle r e s =
     (if sys_loopDone s then None
      else do { (d, effects) \<leftarrow> handleEvent r e (sys_dag s);
                Some (s\<lparr>sys_dag := d, sys_log := sys_log s @ effects\<rparr>) })"

definition receive :: "readings \<Rightarrow> schedulerEvent \<Rightarrow> dagSystem \<Rightarrow> dagSystem option" where
  "receive r e s =
     (if e \<in> set (sys_pending s)
      then loop_handle r e (s\<lparr>sys_pending := remove1 e (sys_pending s)\<rparr>) else None)"

text \<open>\<open>send\<close> returns an error when the context has ended or the loop is gone.\<close>

definition send_fails :: "ctx_env \<Rightarrow> schedulerEvent \<Rightarrow> dagSystem \<Rightarrow> dagSystem option" where
  "send_fails env e s =
     (case e of
        jobSubmitted _ c _ _ ch \<Rightarrow>
          if e \<in> set (sys_pending s) \<and> (env c \<noteq> None \<or> sys_loopDone s)
          then Some (s\<lparr>sys_pending := remove1 e (sys_pending s), sys_refused := ch # sys_refused s\<rparr>)
          else None
      | _ \<Rightarrow> None)"

definition outside :: "schedulerEvent \<Rightarrow> bool" where
  "outside e = (case e of jobSubmitted _ _ _ _ _ \<Rightarrow> False | schedulerStopping \<Rightarrow> False | _ \<Rightarrow> True)"

definition sys_init :: "dagSystem \<Rightarrow> bool" where
  "sys_init s \<longleftrightarrow>
     (\<exists>functions scheduler options d. NewDAGScheduler functions scheduler options = Some d \<and>
        s = \<lparr>sys_dag = d, sys_nextJobID = 0, sys_closing = False, sys_loopDone = False, sys_pending = [],
             sys_calls = 0, sys_refused = [], sys_log = []\<rparr>)"

text \<open>
  The counter of jobs is not allowed to wrap. \<open>Close\<close> first forbids new calls, then has the loop
  stop all jobs in whatever order it ranges over them, and then ends the loop.
\<close>

inductive sys_step :: "dagSystem \<Rightarrow> dagSystem \<Rightarrow> bool" where
  step_run: "graph_ok graph \<Longrightarrow> sys_calls s < 2 ^ 64 \<Longrightarrow> sys_step s (snd (Run_begin c graph action s))"
| step_receive: "receive r e s = Some t \<Longrightarrow> sys_step s t"
| step_refused: "send_fails env e s = Some t \<Longrightarrow> sys_step s t"
| step_outside: "outside e \<Longrightarrow> loop_handle r e s = Some t \<Longrightarrow> sys_step s t"
| step_close: "sys_step s (s\<lparr>sys_closing := True\<rparr>)"
| step_stop: "sys_closing s \<Longrightarrow> \<not> d_stopping (sys_dag s) \<Longrightarrow> distinct (rd_order r) \<Longrightarrow>
    set (rd_order r) = fset (fmdom (d_jobs (sys_dag s))) \<Longrightarrow>
    loop_handle r schedulerStopping s = Some t \<Longrightarrow> sys_step s t"
| step_exit: "d_stopping (sys_dag s) \<Longrightarrow> sys_step s (s\<lparr>sys_loopDone := True\<rparr>)"

section \<open>What the log tells\<close>

fun started_sets :: "dagEffect list \<Rightarrow> TaskSet list" where
  "started_sets [] = []"
| "started_sets (StartTaskSet ts # rest) = ts # started_sets rest"
| "started_sets (_ # rest) = started_sets rest"

fun responses :: "dagEffect list \<Rightarrow> (nat \<times> jobCompletion) list" where
  "responses [] = []"
| "responses (Respond ch c # rest) = (ch, c) # responses rest"
| "responses (_ # rest) = responses rest"

definition answers :: "dagEffect list \<Rightarrow> nat \<Rightarrow> nat" where
  "answers log ch = length (filter (\<lambda>(c, _). c = ch) (responses log))"

definition stage_starts :: "dagEffect list \<Rightarrow> JobID \<Rightarrow> StageID \<Rightarrow> nat" where
  "stage_starts log jid sid =
     length (filter (\<lambda>ts. set_JobID ts = jid \<and> set_StageID ts = sid) (started_sets log))"

lemma started_sets_append [simp]: "started_sets (xs @ ys) = started_sets xs @ started_sets ys"
  by (induction xs rule: started_sets.induct) simp_all

lemma responses_append [simp]: "responses (xs @ ys) = responses xs @ responses ys"
  by (induction xs rule: responses.induct) simp_all

lemma cancels_log: "cancels cs \<Longrightarrow> started_sets cs = [] \<and> responses cs = []"
  by (induction cs) (auto simp: cancels_def split: dagEffect.splits)

section \<open>The invariant of state and log\<close>

definition owners_ok :: "nat \<Rightarrow> DAG \<Rightarrow> bool" where
  "owners_ok calls d \<longleftrightarrow>
     (\<forall>jid job. fmlookup (d_jobs d) jid = Some job \<longrightarrow> jid = of_nat (js_response job) \<and> js_response job < calls)"

definition starts_ok :: "DAG \<Rightarrow> dagEffect list \<Rightarrow> bool" where
  "starts_ok d log \<longleftrightarrow>
     map set_StageAttemptID (started_sets log) = map of_nat [0 ..< length (started_sets log)] \<and>
     d_nextStageAttemptID d = of_nat (length (started_sets log))"

text \<open>Task sets are started only for jobs that are active or have been answered.\<close>

definition budget_ok :: "nat \<Rightarrow> DAG \<Rightarrow> dagEffect list \<Rightarrow> bool" where
  "budget_ok calls d log \<longleftrightarrow>
     (\<forall>jid sid. int (stage_starts log jid sid) \<le> d_maxStageAttempts d) \<and>
     (\<forall>jid job sid. fmlookup (d_jobs d) jid = Some job \<longrightarrow> int (stage_starts log jid sid) = stage_count job sid) \<and>
     (\<forall>ts \<in> set (started_sets log). set_JobID ts |\<in>| fmdom (d_jobs d) \<or>
        (\<exists>ch < calls. set_JobID ts = of_nat ch \<and> 0 < answers log ch))"

definition inputs_ok :: "TaskSet \<Rightarrow> bool" where
  "inputs_ok ts \<longleftrightarrow>
     (case set_ShuffleInputs ts of
        None \<Rightarrow> True
      | Some inputs \<Rightarrow> snapshot_ok inputs \<and> is_JobID inputs = set_JobID ts)"

definition current_ok :: "DAG \<Rightarrow> dagEffect list \<Rightarrow> bool" where
  "current_ok d log \<longleftrightarrow>
     (\<forall>jid job. fmlookup (d_jobs d) jid = Some job \<longrightarrow>
        (\<exists>ts \<in> set (started_sets log). set_JobID ts = jid \<and> current_set jid job ts)) \<and>
     (\<forall>ts \<in> set (started_sets log). inputs_ok ts)"

definition log_ok :: "nat \<Rightarrow> DAG \<Rightarrow> dagEffect list \<Rightarrow> bool" where
  "log_ok calls d log \<longleftrightarrow>
     jobs_ok d \<and> owners_ok calls d \<and> starts_ok d log \<and> budget_ok calls d log \<and> current_ok d log"

text \<open>A call is active while a job answers on its channel.\<close>

definition active :: "DAG \<Rightarrow> nat \<Rightarrow> nat" where
  "active d ch =
     (case fmlookup (d_jobs d) (of_nat ch) of
        None \<Rightarrow> 0
      | Some job \<Rightarrow> if js_response job = ch then 1 else 0)"

lemma current_set_inputs:
  assumes "current_set jid job ts" "set_JobID ts = jid"
  shows "inputs_ok ts"
proof (cases "set_ShuffleInputs ts")
  case (Some inputs)
  obtain st where "stageInputs jid job (set_StageID ts) st = Some (Inr (Some inputs))"
    using assms(1) Some by (auto simp: current_set_def split: option.splits)
  then have "InputSnapshot_Validate inputs = None" "is_JobID inputs = jid"
    by (auto simp: stageInputs_def buildInputs_def Option.bind_eq_Some_conv split: if_splits option.splits)
  then show ?thesis using Some assms(2) by (simp add: inputs_ok_def InputSnapshot_Validate_iff)
qed (simp add: inputs_ok_def)

lemma stage_count_bound: "job_inv k jid job \<Longrightarrow> 0 < k \<Longrightarrow> stage_count job x \<le> k"
  by (erule job_inv_cases)
    (auto simp: stage_count_def narrow_shapeD shuffle_shapeD stage_inv_def)

section \<open>The moves of the invariant\<close>

text \<open>Effects that are neither answers nor starts leave no trace in the log's readings.\<close>

lemma answers_append: "answers (xs @ ys) ch = answers xs ch + answers ys ch"
  by (simp add: answers_def)

lemma stage_starts_append: "stage_starts (xs @ ys) jid sid = stage_starts xs jid sid + stage_starts ys jid sid"
  by (simp add: stage_starts_def)

lemma silent_readings:
  assumes "started_sets effects = []" "responses effects = []"
  shows "answers effects ch = 0" "stage_starts effects jid sid = 0"
  using assms by (simp_all add: answers_def stage_starts_def)

lemma log_ok_drop:
  assumes ok: "log_ok calls d log" and job: "fmlookup (d_jobs d) jid = Some job"
    and effects: "started_sets effects = []" "responses effects = [(js_response job, c)]"
  defines "d' \<equiv> d\<lparr>d_jobs := fmdrop jid (d_jobs d)\<rparr>"
  shows "log_ok calls d' (log @ effects)"
    and "answers (log @ effects) ch + active d' ch = answers log ch + active d ch"
proof -
  have own: "jid = of_nat (js_response job)" "js_response job < calls"
    using ok job by (auto simp: log_ok_def owners_ok_def)
  have ans: "answers effects ch = (if js_response job = ch then 1 else 0)" for ch
    using effects(2) by (simp add: answers_def)
  have st: "stage_starts effects j x = 0" for j x using effects(1) by (simp add: stage_starts_def)
  have lk: "fmlookup (d_jobs d') x = (if x = jid then None else fmlookup (d_jobs d) x)" for x
    by (simp add: d'_def)
  have "\<not> d_stopping d" using ok job by (auto simp: log_ok_def jobs_ok_def)
  then have "jobs_ok d'" using ok by (auto simp: log_ok_def jobs_ok_def d'_def split: if_splits)
  moreover have "owners_ok calls d'" using ok by (auto simp: log_ok_def owners_ok_def lk)
  moreover have "starts_ok d' (log @ effects)" using ok effects by (simp add: log_ok_def starts_ok_def d'_def)
  moreover have "budget_ok calls d' (log @ effects)"
    unfolding budget_ok_def
  proof (intro conjI allI ballI impI)
    fix j x show "int (stage_starts (log @ effects) j x) \<le> d_maxStageAttempts d'"
      using ok by (simp add: log_ok_def budget_ok_def stage_starts_append st d'_def)
  next
    fix j jb x assume "fmlookup (d_jobs d') j = Some jb"
    then show "int (stage_starts (log @ effects) j x) = stage_count jb x"
      using ok by (auto simp: log_ok_def budget_ok_def stage_starts_append st lk split: if_splits)
  next
    fix ts assume "ts \<in> set (started_sets (log @ effects))"
    then have "set_JobID ts |\<in>| fmdom (d_jobs d) \<or> (\<exists>ch < calls. set_JobID ts = of_nat ch \<and> 0 < answers log ch)"
      using ok effects by (simp add: log_ok_def budget_ok_def)
    then show "set_JobID ts |\<in>| fmdom (d_jobs d') \<or>
        (\<exists>ch < calls. set_JobID ts = of_nat ch \<and> 0 < answers (log @ effects) ch)"
    proof (elim disjE)
      assume "set_JobID ts |\<in>| fmdom (d_jobs d)"
      moreover have "0 < answers (log @ effects) (js_response job)"
        using ans [of "js_response job"] by (simp add: answers_append)
      ultimately show ?thesis using own by (cases "set_JobID ts = jid") (auto simp: d'_def)
    qed (auto simp: answers_append)
  qed
  moreover have "current_ok d' (log @ effects)" using ok effects by (auto simp: log_ok_def current_ok_def lk)
  ultimately show "log_ok calls d' (log @ effects)" by (simp add: log_ok_def)
  show "answers (log @ effects) ch + active d' ch = answers log ch + active d ch"
  proof (cases "(of_nat ch :: JobID) = jid")
    case True
    then show ?thesis using job by (simp add: answers_append ans active_def lk)
  next
    case False
    then have "js_response job \<noteq> ch" using own(1) by metis
    with False show ?thesis by (simp add: answers_append ans active_def lk)
  qed
qed

lemma log_ok_keep:
  assumes ok: "log_ok calls d log" and job: "fmlookup (d_jobs d) jid = Some job"
    and effects: "started_sets effects = []" "responses effects = []"
    and step: "progressed jid job job' d d' es"
  shows "log_ok calls d' (log @ effects)"
    and "answers (log @ effects) ch + active d' ch = answers log ch + active d ch"
proof -
  have d': "d' = put_job jid job' d" and same: "js_response job' = js_response job"
    and inv: "job_inv (d_maxStageAttempts d) jid job'"
    and cur: "\<And>ts. current_set jid job ts \<Longrightarrow> current_set jid job' ts"
    and cnt: "\<And>x. stage_count job' x = stage_count job x"
    using step by (simp_all add: progressed_def)
  note silent = silent_readings [OF effects]
  have dom: "fmdom (d_jobs d') = fmdom (d_jobs d)" using job by (auto simp: d' put_job_def fmlookup_dom_iff)
  have nostop: "\<not> d_stopping d" using ok job by (auto simp: log_ok_def jobs_ok_def)
  have "jobs_ok d'" using ok inv nostop by (auto simp: log_ok_def jobs_ok_def d')
  moreover have "owners_ok calls d'" using ok job same by (auto simp: log_ok_def owners_ok_def d')
  moreover have "starts_ok d' (log @ effects)" using ok effects by (simp add: log_ok_def starts_ok_def d')
  moreover have "budget_ok calls d' (log @ effects)"
    using ok job cnt unfolding log_ok_def budget_ok_def
    by (auto simp: stage_starts_append answers_append silent effects dom) (auto simp: d' split: if_splits)
  moreover have "current_ok d' (log @ effects)"
    using ok job cur effects unfolding log_ok_def current_ok_def by (auto simp: d' split: if_splits) blast
  ultimately show "log_ok calls d' (log @ effects)" by (simp add: log_ok_def)
  show "answers (log @ effects) ch + active d' ch = answers log ch + active d ch"
    using job same by (auto simp: answers_append silent active_def d')
qed

lemma log_ok_start:
  assumes ok: "log_ok calls d log"
    and run: "\<not> d_stopping d"
    and own: "jid = of_nat (js_response job')" "js_response job' < calls"
    and counts: "\<And>x. stage_count job x = int (stage_starts log jid x)"
    and effects: "started_sets effects = [ts]" "responses effects = []"
    and step: "started (d_maxStageAttempts d) jid job (d_nextStageAttemptID d) job' ts"
  defines "d' \<equiv> put_job jid job' (d\<lparr>d_nextStageAttemptID := d_nextStageAttemptID d + 1\<rparr>)"
  shows "log_ok calls d' (log @ effects)"
proof -
  have inv: "job_inv (d_maxStageAttempts d) jid job'" and cur: "current_set jid job' ts" and ts: "set_JobID ts = jid"
    "set_StageAttemptID ts = d_nextStageAttemptID d"
    and cnt: "\<And>x. stage_count job' x = stage_count job x + (if x = set_StageID ts then 1 else 0)"
    using step by (simp_all add: started_def)
  have k: "0 < d_maxStageAttempts d" using ok by (simp add: log_ok_def jobs_ok_def)
  have ans: "answers effects ch = 0" for ch using effects(2) by (simp add: answers_def)
  have st: "stage_starts effects j x = (if j = jid \<and> x = set_StageID ts then 1 else 0)" for j x
    using effects(1) ts by (simp add: stage_starts_def)
  have dom: "fmdom (d_jobs d') = finsert jid (fmdom (d_jobs d))" by (simp add: d'_def put_job_def)
  have "jobs_ok d'" using ok inv run by (auto simp: log_ok_def jobs_ok_def d'_def)
  moreover have "owners_ok calls d'" using ok own by (simp add: log_ok_def owners_ok_def d'_def)
  moreover have "starts_ok d' (log @ effects)"
    using ok effects(1) ts by (simp add: log_ok_def starts_ok_def d'_def)
  moreover have "budget_ok calls d' (log @ effects)"
    unfolding budget_ok_def
  proof (intro conjI allI ballI impI)
    fix j x
    have "int (stage_starts (log @ effects) j x) \<le> d_maxStageAttempts d" if "j \<noteq> jid"
      using ok that by (simp add: log_ok_def budget_ok_def stage_starts_append st)
    moreover have "int (stage_starts (log @ effects) jid x) = stage_count job' x"
      by (simp add: stage_starts_append st cnt counts)
    ultimately show "int (stage_starts (log @ effects) j x) \<le> d_maxStageAttempts d'"
      using stage_count_bound [OF inv k, of x] by (cases "j = jid") (simp_all add: d'_def)
  next
    fix j jb x assume "fmlookup (d_jobs d') j = Some jb"
    then show "int (stage_starts (log @ effects) j x) = stage_count jb x"
      using ok counts cnt
      by (cases "j = jid") (simp_all add: log_ok_def budget_ok_def stage_starts_append st d'_def)
  next
    fix t assume "t \<in> set (started_sets (log @ effects))"
    then have "t = ts \<or> t \<in> set (started_sets log)" using effects(1) by auto
    then show "set_JobID t |\<in>| fmdom (d_jobs d') \<or>
        (\<exists>ch < calls. set_JobID t = of_nat ch \<and> 0 < answers (log @ effects) ch)"
    proof
      assume "t \<in> set (started_sets log)"
      then have "set_JobID t |\<in>| fmdom (d_jobs d) \<or> (\<exists>ch < calls. set_JobID t = of_nat ch \<and> 0 < answers log ch)"
        using ok by (simp add: log_ok_def budget_ok_def)
      then show ?thesis unfolding dom answers_append by fastforce
    qed (simp add: dom ts)
  qed
  moreover have "current_ok d' (log @ effects)"
    unfolding current_ok_def
  proof (intro conjI allI ballI impI)
    fix j jb assume jb: "fmlookup (d_jobs d') j = Some jb"
    show "\<exists>ts' \<in> set (started_sets (log @ effects)). set_JobID ts' = j \<and> current_set j jb ts'"
    proof (cases "j = jid")
      case True
      then show ?thesis using jb cur ts effects(1) by (simp add: d'_def)
    next
      case False
      then have "\<exists>ts' \<in> set (started_sets log). set_JobID ts' = j \<and> current_set j jb ts'"
        using jb ok by (simp add: d'_def log_ok_def current_ok_def)
      then show ?thesis by auto
    qed
  next
    fix t assume "t \<in> set (started_sets (log @ effects))"
    then show "inputs_ok t"
      using ok effects(1) current_set_inputs [OF cur ts(1)] by (auto simp: log_ok_def current_ok_def)
  qed
  ultimately show ?thesis by (simp add: log_ok_def)
qed

text \<open>Every handler of a report keeps the invariant and the number of open calls.\<close>

lemma outcome_log_ok:
  assumes ok: "log_ok calls d log" and out: "outcome jid d d' effects"
  shows "log_ok calls d' (log @ effects)"
    and "answers (log @ effects) ch + active d' ch = answers log ch + active d ch"
proof (atomize(full), cases "d' = d \<and> effects = []")
  case True
  then show "log_ok calls d' (log @ effects) \<and>
      answers (log @ effects) ch + active d' ch = answers log ch + active d ch" using ok by simp
next
  case False
  then obtain job cs es where job: "fmlookup (d_jobs d) jid = Some job" and eff: "effects = cs @ es" "cancels cs"
    and ch: "changes jid job d d' es" using out unfolding outcome_def by blast
  note cs = cancels_log [OF eff(2)]
  from ch consider (e) c where "ended jid job c d d' es" | (p) job' where "progressed jid job job' d d' es"
    | (r) job' ts where "restarted jid job job' ts d d' es"
    unfolding changes_def by blast
  then show "log_ok calls d' (log @ effects) \<and>
      answers (log @ effects) ch + active d' ch = answers log ch + active d ch"
  proof cases
    case e
    then have "started_sets effects = []" "responses effects = [(js_response job, c)]"
      "d' = d\<lparr>d_jobs := fmdrop jid (d_jobs d)\<rparr>" using cs eff(1) by (simp_all add: ended_def)
    then show ?thesis using log_ok_drop [OF ok job] by simp
  next
    case p
    then have "started_sets effects = []" "responses effects = []" using cs eff(1) by (simp_all add: progressed_def)
    then show ?thesis using log_ok_keep [OF ok job _ _ p] by simp
  next
    case r
    then have d': "d' = put_job jid job' (d\<lparr>d_nextStageAttemptID := d_nextStageAttemptID d + 1\<rparr>)"
      and es: "started_sets effects = [ts]" "responses effects = []"
      and st: "started (d_maxStageAttempts d) jid job (d_nextStageAttemptID d) job' ts"
      using cs eff(1) by (simp_all add: restarted_def)
    have same: "js_response job' = js_response job" using st by (simp add: started_def)
    have "jid = of_nat (js_response job')" "js_response job' < calls" "\<not> d_stopping d"
      "\<And>x. stage_count job x = int (stage_starts log jid x)"
      using ok job same by (auto simp: log_ok_def owners_ok_def jobs_ok_def budget_ok_def)
    then have "log_ok calls d' (log @ effects)" unfolding d' using log_ok_start [OF ok] es st by blast
    moreover have "answers effects ch = 0" using es(2) by (simp add: answers_def)
    moreover have "active d' ch = active d ch" using job same by (simp add: active_def d')
    ultimately show ?thesis by (simp add: answers_append)
  qed
qed

lemma of_nat_word_inj: "a < 2 ^ 64 \<Longrightarrow> b < 2 ^ 64 \<Longrightarrow> (of_nat a :: 64 word) = of_nat b \<Longrightarrow> a = b"
  by (drule arg_cong [where f = unat]) (simp add: unat_of_nat)

lemma log_ok_respond:
  assumes "log_ok calls d log" "started_sets effects = []"
  shows "log_ok calls d (log @ effects)"
  using assms unfolding log_ok_def starts_ok_def budget_ok_def current_ok_def
  by (auto simp: stage_starts_def answers_append)

lemma free_lookup:
  assumes ok: "log_ok calls d log" and ch: "ch < calls" "calls \<le> 2 ^ 64" and free: "active d ch = 0"
  shows "fmlookup (d_jobs d) (of_nat ch) = None"
proof (rule ccontr)
  assume "\<not> ?thesis"
  then obtain job where job: "fmlookup (d_jobs d) (of_nat ch) = Some job" by blast
  then have "(of_nat ch :: JobID) = of_nat (js_response job)" "js_response job < calls"
    using ok by (auto simp: log_ok_def owners_ok_def)
  then have "js_response job = ch" using of_nat_word_inj [of ch "js_response job"] ch by simp
  then show False using job free by (simp add: active_def)
qed

lemma submit_log_ok:
  assumes ok: "log_ok calls d log" and g: "graph_ok graph"
    and ch: "ch < calls" "calls \<le> 2 ^ 64" and free: "answers log ch = 0" "active d ch = 0"
  shows "\<exists>d' effects. handleJobSubmitted r (of_nat ch) c graph action ch d = Some (d', effects) \<and>
    log_ok calls d' (log @ effects) \<and>
    (\<forall>x. answers (log @ effects) x + active d' x = answers log x + active d x + (if x = ch then 1 else 0))"
proof -
  let ?jid = "of_nat ch :: JobID"
  have inj: "x = ch" if "x < calls" "?jid = of_nat x" for x
    using that of_nat_word_inj [of ch x] ch by simp
  have new: "fmlookup (d_jobs d) ?jid = None" by (rule free_lookup [OF ok ch free(2)])
  have none: "stage_starts log ?jid x = 0" for x
  proof -
    have "set_JobID ts \<noteq> ?jid" if "ts \<in> set (started_sets log)" for ts
    proof
      assume "set_JobID ts = ?jid"
      then have "\<exists>x < calls. ?jid = of_nat x \<and> 0 < answers log x"
        using ok new that unfolding log_ok_def budget_ok_def by (metis fmdom_notI)
      then show False using inj free(1) by force
    qed
    then show ?thesis by (auto simp: stage_starts_def filter_empty_conv)
  qed
  have ans: "answers effects x = (if x = ch then 1 else 0)" if "responses effects = [(ch, cc)]" for effects x cc
    using that by (simp add: answers_def)
  have "jobs_ok d" using ok by (simp add: log_ok_def)
  from this g new show ?thesis
  proof (cases rule: submit_outcome [where r = r and c = c and action = action and response = ch])
    case (reject err)
    then show ?thesis using log_ok_respond [OF ok] by (auto simp: answers_append answers_def)
  next
    case (fail err)
    then show ?thesis using log_ok_respond [OF ok] by (auto simp: answers_append answers_def)
  next
    case (start job job' ts)
    let ?d = "put_job ?jid job' (d\<lparr>d_nextStageAttemptID := d_nextStageAttemptID d + 1\<rparr>)"
    let ?e = "[WatchCancellation ?jid c, StartTaskSet ts]"
    have resp: "js_response job' = ch" using start(2,3) by (simp add: started_def)
    have "log_ok calls ?d (log @ ?e)"
      by (rule log_ok_start [OF ok start(5) _ _ _ _ _ start(2)]) (simp_all add: resp ch start(4) none)
    moreover have "answers (log @ ?e) x + active ?d x = answers log x + active d x + (if x = ch then 1 else 0)" for x
    proof (cases "(of_nat x :: JobID) = ?jid")
      case True
      then show ?thesis using new resp by (simp add: answers_append answers_def active_def)
    next
      case False
      moreover from this have "x \<noteq> ch" by blast
      ultimately show ?thesis by (simp add: answers_append answers_def active_def)
    qed
    ultimately show ?thesis using start(1) by blast
  qed
qed

section \<open>Stopping\<close>

lemma failJob_stopping:
  "failJob jid err (s\<lparr>d_stopping := b\<rparr>) = (case failJob jid err s of (s', effects) \<Rightarrow> (s'\<lparr>d_stopping := b\<rparr>, effects))"
  by (auto simp: failJob_def split: option.split)

lemma failJobs_stopping:
  "failJobs order err (s\<lparr>d_stopping := b\<rparr>) =
     (case failJobs order err s of (s', effects) \<Rightarrow> (s'\<lparr>d_stopping := b\<rparr>, effects))"
  by (induction order arbitrary: s) (simp_all add: failJob_stopping Let_def split: prod.split)

lemma failJob_lookup:
  "fmlookup (d_jobs (fst (failJob jid err s))) x = (if x = jid then None else fmlookup (d_jobs s) x)"
  by (auto simp: failJob_def split: option.split)

lemma failJobs_lookup:
  "fmlookup (d_jobs (fst (failJobs order err s))) x = (if x \<in> set order then None else fmlookup (d_jobs s) x)"
proof (induction order arbitrary: s)
  case (Cons jid order)
  have "fst (failJobs (jid # order) err s) = fst (failJobs order err (fst (failJob jid err s)))"
    by (simp add: Let_def split: prod.split)
  then show ?case using failJob_lookup [of jid err s x] by (auto simp: Cons.IH simp del: failJobs.simps)
qed simp

lemma failJobs_log_ok:
  assumes "log_ok calls d log" "failJobs order err d = (d', effects)"
  shows "log_ok calls d' (log @ effects) \<and>
    answers (log @ effects) ch + active d' ch = answers log ch + active d ch"
  using assms
proof (induction order arbitrary: d log effects)
  case (Cons jid order)
  obtain d1 e1 where f1: "failJob jid err d = (d1, e1)" by fastforce
  obtain e2 where f2: "failJobs order err d1 = (d', e2)" and eff: "effects = e1 @ e2"
    using Cons.prems(2) f1 by (auto simp: Let_def split: prod.splits)
  note step = outcome_log_ok [OF Cons.prems(1) failJob_outcome [OF f1]]
  from Cons.IH [OF step(1) f2] show ?case using step(2) [of ch] by (simp add: eff)
qed simp

lemma stop_log_ok:
  assumes ok: "log_ok calls d log" and order: "set order = fset (fmdom (d_jobs d))"
    and stop: "handleStopping order d = (d', effects)"
  shows "log_ok calls d' (log @ effects)" "d_jobs d' = fmempty" "d_stopping d'"
    and "answers (log @ effects) ch = answers log ch + active d ch"
proof -
  obtain d1 e1 where f: "failJobs order ErrSchedulerClosed d = (d1, e1)" by fastforce
  have d': "d' = d1\<lparr>d_stopping := True\<rparr>" "effects = e1 @ [StoppedAck]"
    using stop by (simp_all add: handleStopping_def failJobs_stopping f)
  have "fmlookup (d_jobs d1) x = None" for x
    using failJobs_lookup [of order ErrSchedulerClosed d x] order
    by (auto simp: f fmdom_notD split: if_splits)
  then have empty: "d_jobs d1 = fmempty" by (intro fmap_ext) simp
  have ok1: "log_ok calls d1 (log @ e1)" and ans: "answers (log @ e1) ch + active d1 ch = answers log ch + active d ch"
    using failJobs_log_ok [OF ok f, of ch] by simp_all
  have "log_ok calls d1 (log @ e1 @ [StoppedAck])" using log_ok_respond [OF ok1, of "[StoppedAck]"] by simp
  then show "log_ok calls d' (log @ effects)"
    using empty unfolding log_ok_def d' jobs_ok_def owners_ok_def starts_ok_def budget_ok_def current_ok_def by simp
  show "d_jobs d' = fmempty" "d_stopping d'" using empty by (simp_all add: d')
  show "answers (log @ effects) ch = answers log ch + active d ch"
    using ans empty by (simp add: d' active_def answers_append answers_def)
qed

section \<open>The invariant of the system\<close>

definition waiting :: "schedulerEvent list \<Rightarrow> nat \<Rightarrow> nat" where
  "waiting pending ch = length (filter (\<lambda>e. event_channel e = Some ch) pending)"

definition pending_ok :: "nat \<Rightarrow> schedulerEvent \<Rightarrow> bool" where
  "pending_ok calls e =
     (case e of
        jobSubmitted jid c graph action ch \<Rightarrow> jid = of_nat ch \<and> graph_ok graph \<and> ch < calls
      | _ \<Rightarrow> False)"

text \<open>Each call is in one of four situations: waiting, active, answered, or refused.\<close>

definition tally :: "dagSystem \<Rightarrow> nat \<Rightarrow> nat" where
  "tally s ch =
     waiting (sys_pending s) ch + active (sys_dag s) ch + answers (sys_log s) ch + count_list (sys_refused s) ch"

definition sys_inv :: "dagSystem \<Rightarrow> bool" where
  "sys_inv s \<longleftrightarrow>
     log_ok (sys_calls s) (sys_dag s) (sys_log s) \<and> sys_calls s \<le> 2 ^ 64 \<and>
     sys_nextJobID s = of_nat (sys_calls s) \<and>
     list_all (pending_ok (sys_calls s)) (sys_pending s) \<and>
     (\<forall>ch. tally s ch = (if ch < sys_calls s then 1 else 0)) \<and>
     (d_stopping (sys_dag s) \<longrightarrow> sys_closing s) \<and> (sys_loopDone s \<longrightarrow> d_stopping (sys_dag s))"

lemma length_filter_remove1:
  "x \<in> set xs \<Longrightarrow> length (filter P xs) = length (filter P (remove1 x xs)) + (if P x then 1 else 0)"
  by (induction xs) auto

lemma waiting_remove:
  "e \<in> set pending \<Longrightarrow> event_channel e = Some x \<Longrightarrow>
     waiting pending ch = waiting (remove1 e pending) ch + (if ch = x then 1 else 0)"
  unfolding waiting_def by (subst length_filter_remove1 [of e]) auto

lemma log_ok_calls: "log_ok calls d log \<Longrightarrow> calls \<le> n \<Longrightarrow> log_ok n d log"
  unfolding log_ok_def owners_ok_def budget_ok_def by (meson order.strict_trans2)

lemma handle_outside:
  assumes "jobs_ok d" "outside e"
  shows "\<exists>jid d' effects. handleEvent r e d = Some (d', effects) \<and> outcome jid d d' effects"
proof (cases e)
  case (taskSucceeded report)
  then show ?thesis using success_outcome [OF assms(1), of r report] by auto
next
  case (taskFailed report)
  then show ?thesis using failure_outcome [OF assms(1), of r report] by auto
next
  case (taskSetFinished jid sid a err)
  then show ?thesis
    using setFinished_outcome [of r jid sid a err d] by (cases "handleTaskSetFinished r jid sid a err d") fastforce
next
  case (jobCanceled jid err)
  then show ?thesis
    using failJob_outcome [of jid "JobContext err" d] by (cases "failJob jid (JobContext err) d") fastforce
qed (use assms in \<open>simp_all add: outside_def\<close>)

lemma outcome_stopping:
  assumes "jobs_ok d" "outcome jid d d' effects"
  shows "d_stopping d' = d_stopping d"
  using assms
  by (auto simp: outcome_def changes_def ended_def progressed_def restarted_def)

lemma submit_stopping:
  assumes "handleJobSubmitted r jid c graph action ch d = Some (d', effects)"
    "jobs_ok d" "graph_ok graph" "fmlookup (d_jobs d) jid = None"
  shows "d_stopping d' = d_stopping d"
  using assms(2-4)
  by (cases rule: submit_outcome [where r = r and c = c and action = action and response = ch])
    (use assms(1) in auto)

lemma sys_inv_init: "sys_init s \<Longrightarrow> sys_inv s"
  by (auto simp: sys_init_def NewDAGScheduler_def sys_inv_def log_ok_def jobs_ok_def owners_ok_def starts_ok_def
      budget_ok_def current_ok_def tally_def waiting_def active_def answers_def stage_starts_def
      resolveSchedulerOptions_positive order.strict_implies_order split: option.splits)

lemma sys_inv_run:
  assumes inv: "sys_inv s" and g: "graph_ok graph" and room: "sys_calls s < 2 ^ 64"
  shows "sys_inv (snd (Run_begin c graph action s))"
proof (cases "sys_closing s")
  case False
  have "tally s (sys_calls s) = 0" using inv by (simp add: sys_inv_def)
  moreover have "list_all (pending_ok (sys_calls s + 1)) (sys_pending s)"
    using inv unfolding sys_inv_def
    by (auto simp: list_all_iff pending_ok_def split: schedulerEvent.splits)
  moreover have "log_ok (sys_calls s + 1) (sys_dag s) (sys_log s)"
    using inv log_ok_calls [of "sys_calls s"] by (simp add: sys_inv_def)
  ultimately show ?thesis
    using inv g room False
    by (auto simp: Run_begin_def sys_inv_def tally_def waiting_def pending_ok_def event_channel_def)
qed (use inv in \<open>simp add: Run_begin_def\<close>)

lemma sys_inv_receive:
  assumes inv: "sys_inv s" and step: "receive r e s = Some t"
  shows "sys_inv t"
proof -
  from step have e: "e \<in> set (sys_pending s)" "\<not> sys_loopDone s"
    and h: "loop_handle r e (s\<lparr>sys_pending := remove1 e (sys_pending s)\<rparr>) = Some t"
    by (auto simp: receive_def loop_handle_def split: if_splits)
  from e(1) inv have "pending_ok (sys_calls s) e" by (simp add: sys_inv_def list_all_iff)
  then obtain c graph action ch where ev: "e = jobSubmitted (of_nat ch) c graph action ch" "graph_ok graph"
    and ch: "ch < sys_calls s" by (auto simp: pending_ok_def split: schedulerEvent.splits)
  have ok: "log_ok (sys_calls s) (sys_dag s) (sys_log s)" and calls: "sys_calls s \<le> 2 ^ 64"
    and tal: "tally s x = (if x < sys_calls s then 1 else 0)" for x
    using inv by (simp_all add: sys_inv_def)
  have wait: "waiting (sys_pending s) x = waiting (remove1 e (sys_pending s)) x + (if x = ch then 1 else 0)" for x
    by (rule waiting_remove [OF e(1)]) (simp add: ev(1) event_channel_def)
  have free: "answers (sys_log s) ch = 0" "active (sys_dag s) ch = 0"
    using tal [of ch] wait [of ch] ch by (simp_all add: tally_def)
  from submit_log_ok [OF ok ev(2) ch calls free, of r c action] obtain d effects where
    sub: "handleJobSubmitted r (of_nat ch) c graph action ch (sys_dag s) = Some (d, effects)"
      "log_ok (sys_calls s) d (sys_log s @ effects)"
    and cnt: "answers (sys_log s @ effects) x + active d x =
      answers (sys_log s) x + active (sys_dag s) x + (if x = ch then 1 else 0)" for x by blast
  have "d_stopping d = d_stopping (sys_dag s)"
    using submit_stopping [OF sub(1) _ ev(2) free_lookup [OF ok ch calls free(2)]] ok by (simp add: log_ok_def)
  moreover have t: "t = s\<lparr>sys_pending := remove1 e (sys_pending s), sys_dag := d, sys_log := sys_log s @ effects\<rparr>"
    using h sub(1) e(2) by (simp add: loop_handle_def ev(1))
  moreover have "tally t x = tally s x" for x
    using wait [of x] cnt [of x] by (simp add: tally_def t)
  moreover have "list_all (pending_ok (sys_calls s)) (remove1 e (sys_pending s))"
    using inv set_remove1_subset [of e "sys_pending s"] by (auto simp: sys_inv_def list_all_iff)
  ultimately show ?thesis using inv sub(2) unfolding sys_inv_def by simp
qed

lemma sys_inv_handled:
  assumes inv: "sys_inv s" and ok: "log_ok (sys_calls s) d (sys_log s @ effects)"
    and cnt: "\<And>ch. answers (sys_log s @ effects) ch + active d ch = answers (sys_log s) ch + active (sys_dag s) ch"
    and stop: "d_stopping d = d_stopping (sys_dag s)"
  shows "sys_inv (s\<lparr>sys_dag := d, sys_log := sys_log s @ effects\<rparr>)"
proof -
  have "tally (s\<lparr>sys_dag := d, sys_log := sys_log s @ effects\<rparr>) ch = tally s ch" for ch
    using cnt [of ch] by (simp add: tally_def)
  then show ?thesis using inv ok stop unfolding sys_inv_def by simp
qed

lemma sys_inv_outside:
  assumes inv: "sys_inv s" and e: "outside e" and step: "loop_handle r e s = Some t"
  shows "sys_inv t"
proof -
  have ok: "log_ok (sys_calls s) (sys_dag s) (sys_log s)" using inv by (simp add: sys_inv_def)
  then have jobs: "jobs_ok (sys_dag s)" by (simp add: log_ok_def)
  from handle_outside [OF this e, of r] obtain jid d effects where
    h: "handleEvent r e (sys_dag s) = Some (d, effects)" "outcome jid (sys_dag s) d effects" by blast
  have "t = s\<lparr>sys_dag := d, sys_log := sys_log s @ effects\<rparr>"
    using step h(1) by (simp add: loop_handle_def split: if_splits)
  then show ?thesis
    using sys_inv_handled [OF inv outcome_log_ok [OF ok h(2)] outcome_stopping [OF jobs h(2)]] by simp
qed

lemma sys_inv_stop:
  assumes inv: "sys_inv s" and closing: "sys_closing s"
    and order: "set (rd_order r) = fset (fmdom (d_jobs (sys_dag s)))"
    and step: "loop_handle r schedulerStopping s = Some t"
  shows "sys_inv t"
proof -
  have ok: "log_ok (sys_calls s) (sys_dag s) (sys_log s)" using inv by (simp add: sys_inv_def)
  obtain d effects where h: "handleStopping (rd_order r) (sys_dag s) = (d, effects)" by fastforce
  have t: "t = s\<lparr>sys_dag := d, sys_log := sys_log s @ effects\<rparr>" and "\<not> sys_loopDone s"
    using step h by (simp_all add: loop_handle_def split: if_splits)
  note st = stop_log_ok [OF ok order h]
  have "tally t ch = tally s ch" for ch
    using st(2) st(4) [of ch] by (simp add: tally_def t active_def)
  then show ?thesis using inv st(1,3) closing \<open>\<not> sys_loopDone s\<close> unfolding sys_inv_def by (simp add: t)
qed

lemma sys_inv_refused:
  assumes inv: "sys_inv s" and step: "send_fails env e s = Some t"
  shows "sys_inv t"
proof -
  from step obtain jid c graph action ch where e: "e = jobSubmitted jid c graph action ch" "e \<in> set (sys_pending s)"
    and t: "t = s\<lparr>sys_pending := remove1 e (sys_pending s), sys_refused := ch # sys_refused s\<rparr>"
    by (auto simp: send_fails_def split: schedulerEvent.splits if_splits)
  have "waiting (sys_pending s) x = waiting (remove1 e (sys_pending s)) x + (if x = ch then 1 else 0)" for x
    by (rule waiting_remove [OF e(2)]) (simp add: e(1) event_channel_def)
  then have "tally t x = tally s x" for x by (simp add: tally_def t)
  moreover have "list_all (pending_ok (sys_calls s)) (remove1 e (sys_pending s))"
    using inv set_remove1_subset [of e "sys_pending s"] by (auto simp: sys_inv_def list_all_iff)
  ultimately show ?thesis using inv unfolding sys_inv_def by (simp add: t)
qed

lemma sys_inv_step:
  assumes "sys_inv s" "sys_step s t"
  shows "sys_inv t"
  using assms(2,1)
proof cases
  case step_close
  then show ?thesis using assms(1) by (simp add: sys_inv_def tally_def)
next
  case step_exit
  then show ?thesis using assms(1) by (simp add: sys_inv_def tally_def)
qed (use assms(1) sys_inv_run sys_inv_receive sys_inv_refused sys_inv_outside sys_inv_stop in blast)+

interpretation dag: invariant_system sys_init sys_step sys_inv
  by unfold_locales (auto intro: sys_inv_init sys_inv_step)

end
