(* ===== verification/DAG_Properties.thy ===== *)
theory DAG_Properties
  imports DAG_System
begin

text \<open>
  What the job scheduler guarantees in every reachable state of the system of
  \<open>DAG_System\<close>: each call of \<open>Run\<close> is answered once, no job waits without a running task set,
  stages are attempted within their limit, reports take effect at most once, the answer of a job
  is the combination of its accepted outputs in partition order, and recovery restarts exactly
  the map and the result stage.
\<close>

section \<open>A run of one shuffle job\<close>

text \<open>Two map partitions and one reduce partition, on the lineage of \<open>ex_graph\<close>.\<close>

definition ex_resize :: "RDDNode \<Rightarrow> RDDNode" where
  "ex_resize n =
     n\<lparr>node_NumPartitions := (if node_ID n = 2 then 1 else 2),
       node_Partitioner := map_option (\<lambda>_. HashPartitioner 1) (node_Partitioner n),
       node_Dependencies := map (\<lambda>d. d\<lparr>dep_Shuffle := map_option (\<lambda>sh. sh\<lparr>sds_Partitioner := HashPartitioner 1\<rparr>)
          (dep_Shuffle d)\<rparr>) (node_Dependencies n)\<rparr>"

definition ex_dag_graph :: RDDGraph where
  "ex_dag_graph = ex_graph\<lparr>nodes := fmmap ex_resize (nodes ex_graph)\<rparr>"

definition ex_rd :: readings where
  "ex_rd = \<lparr>rd_check = (\<lambda>_. None), rd_start = (\<lambda>_. None), rd_order = [0]\<rparr>"

definition ex_dag0 :: DAG where
  "ex_dag0 = \<lparr>d_maxStageAttempts = 2, d_functions = Some ex_functions, d_taskScheduler = True,
     d_jobs = fmempty, d_nextStageAttemptID = 0, d_stopping = False\<rparr>"

definition ex_attempt :: "TaskID \<Rightarrow> StageAttemptID \<Rightarrow> TaskAttemptIdentity" where
  "ex_attempt task stage = \<lparr>tai_ID = task, tai_TaskID = task, tai_StageAttemptID = stage\<rparr>"

definition ex_map_success :: "int \<Rightarrow> TaskAttemptSuccess" where
  "ex_map_success m = \<lparr>ts_JobID = 0, ts_StageID = 0, ts_Attempt = ex_attempt (of_int m) 0, ts_PartitionID = m,
     ts_WorkerID = ''w'', ts_Output = \<lparr>to_Records = None, to_Count = 0, to_ShuffleOutput = Some (ex_output m)\<rparr>\<rparr>"

definition ex_result_success :: TaskAttemptSuccess where
  "ex_result_success = \<lparr>ts_JobID = 0, ts_StageID = 1, ts_Attempt = ex_attempt 2 1, ts_PartitionID = 0,
     ts_WorkerID = ''w'',
     ts_Output = \<lparr>to_Records = Some [KeyValueV ''a'' (Int64V 3)], to_Count = 0, to_ShuffleOutput = None\<rparr>\<rparr>"

definition after :: "schedulerEvent \<Rightarrow> DAG \<Rightarrow> DAG" where
  "after e d = (case handleEvent ex_rd e d of Some (d', _) \<Rightarrow> d' | None \<Rightarrow> d)"

definition ex_submit :: schedulerEvent where
  "ex_submit = jobSubmitted 0 7 (Some ex_dag_graph) ex_action 0"

definition ex_dag1 :: DAG where "ex_dag1 = after ex_submit ex_dag0"
definition ex_dag2 :: DAG where "ex_dag2 = after (taskSucceeded (ex_map_success 0)) ex_dag1"
definition ex_dag3 :: DAG where "ex_dag3 = after (taskSucceeded (ex_map_success 1)) ex_dag2"

definition effects_of :: "schedulerEvent \<Rightarrow> DAG \<Rightarrow> dagEffect list" where
  "effects_of e d = (case handleEvent ex_rd e d of Some (_, effects) \<Rightarrow> effects | None \<Rightarrow> [])"

definition ex_sys :: "DAG \<Rightarrow> dagEffect list \<Rightarrow> dagSystem" where
  "ex_sys d log = \<lparr>sys_dag = d, sys_nextJobID = 1, sys_closing = False, sys_loopDone = False, sys_pending = [],
     sys_calls = 1, sys_refused = [], sys_log = log\<rparr>"

definition ex_sys1 :: dagSystem where "ex_sys1 = ex_sys ex_dag1 (effects_of ex_submit ex_dag0)"

definition ex_sys2 :: dagSystem where
  "ex_sys2 = ex_sys ex_dag2 (sys_log ex_sys1 @ effects_of (taskSucceeded (ex_map_success 0)) ex_dag1)"

definition ex_sys3 :: dagSystem where
  "ex_sys3 = ex_sys ex_dag3 (sys_log ex_sys2 @ effects_of (taskSucceeded (ex_map_success 1)) ex_dag2)"

lemmas reach_dag = reach_step [of sys_init sys_step]

lemma handleEvent_after: "handleEvent ex_rd e d \<noteq> None \<Longrightarrow> handleEvent ex_rd e d = Some (after e d, effects_of e d)"
  by (auto simp: after_def effects_of_def)

lemma graph_wf_map:
  assumes "graph_wf g" "\<And>n. node_ID (f n) = node_ID n"
  shows "graph_wf (g\<lparr>nodes := fmmap f (nodes g)\<rparr>)"
  using assms unfolding graph_wf_def by (auto simp: fmdom_map)

lemma ex_dag_graph_ok: "graph_ok (Some ex_dag_graph)"
proof -
  have "node_ID (ex_resize n) = node_ID n" for n by (cases n) (simp add: ex_resize_def)
  from graph_wf_map [of ex_graph ex_resize, OF ex_graph_wf this] have "graph_wf ex_dag_graph"
    by (simp only: ex_dag_graph_def)
  then show ?thesis by (simp only: graph_ok_def option.case)
qed

lemma ex_reach1: "reach sys_init sys_step ex_sys1"
proof -
  let ?s0 = "\<lparr>sys_dag = ex_dag0, sys_nextJobID = 0, sys_closing = False, sys_loopDone = False, sys_pending = [],
     sys_calls = 0, sys_refused = [], sys_log = []\<rparr>"
  have "NewDAGScheduler (Some ex_functions) True [] = Some ex_dag0"
    by (simp add: NewDAGScheduler_def resolveSchedulerOptions_def DefaultMaxStageAttempts_def ex_dag0_def)
  then have "sys_init ?s0" unfolding sys_init_def by blast
  then have "reach sys_init sys_step ?s0" by (rule reach_init)
  then have r: "reach sys_init sys_step (snd (Run_begin 7 (Some ex_dag_graph) ex_action ?s0))"
    by (rule reach_dag [OF _ step_run [OF ex_dag_graph_ok]]) simp
  have run: "snd (Run_begin 7 (Some ex_dag_graph) ex_action ?s0) = (ex_sys ex_dag0 [])\<lparr>sys_pending := [ex_submit]\<rparr>"
    by (simp add: Run_begin_def ex_submit_def ex_sys_def)
  have "handleEvent ex_rd ex_submit ex_dag0 \<noteq> None" by code_simp
  then have "handleEvent ex_rd ex_submit ex_dag0 = Some (ex_dag1, effects_of ex_submit ex_dag0)"
    unfolding ex_dag1_def by (rule handleEvent_after)
  then have "receive ex_rd ex_submit (snd (Run_begin 7 (Some ex_dag_graph) ex_action ?s0)) = Some ex_sys1"
    unfolding run receive_def loop_handle_def ex_sys1_def ex_sys_def by simp
  then show ?thesis by (rule reach_dag [OF r step_receive])
qed

lemma ex_reach_outside:
  assumes "reach sys_init sys_step (ex_sys d log)" "outside e" "handleEvent ex_rd e d \<noteq> None"
  shows "reach sys_init sys_step (ex_sys (after e d) (log @ effects_of e d))"
proof (rule reach_dag [OF assms(1) step_outside [OF assms(2)]])
  show "loop_handle ex_rd e (ex_sys d log) = Some (ex_sys (after e d) (log @ effects_of e d))"
    using handleEvent_after [OF assms(3)] by (simp add: loop_handle_def ex_sys_def)
qed

lemma ex_reach3: "reach sys_init sys_step ex_sys2" "reach sys_init sys_step ex_sys3"
proof -
  have "handleEvent ex_rd (taskSucceeded (ex_map_success 0)) ex_dag1 \<noteq> None"
    "handleEvent ex_rd (taskSucceeded (ex_map_success 1)) ex_dag2 \<noteq> None" by code_simp+
  note h = this
  have o: "outside (taskSucceeded report)" for report by (simp add: outside_def)
  show r2: "reach sys_init sys_step ex_sys2"
    using ex_reach_outside [OF ex_reach1 [unfolded ex_sys1_def] o h(1)]
    by (simp add: ex_sys2_def ex_dag2_def ex_sys1_def ex_sys_def)
  show "reach sys_init sys_step ex_sys3"
    using ex_reach_outside [OF r2 [unfolded ex_sys2_def] o h(2)]
    by (simp add: ex_sys3_def ex_dag3_def ex_sys2_def ex_sys_def)
qed

section \<open>Each call is answered once\<close>

lemma reach_log_ok:
  assumes "reach sys_init sys_step s"
  shows "log_ok (sys_calls s) (sys_dag s) (sys_log s)" "jobs_ok (sys_dag s)"
  using dag.reach_inv [OF assms] by (simp_all add: sys_inv_def log_ok_def)

text \<open>
  C1: Every call of \<open>Run\<close> that was given a job number is in exactly one situation: its submission
  still waits for the event loop, or its job is active, or the loop has sent exactly one completion
  on its channel, or its submission failed and was never received. No channel gets a second
  completion and none is answered that no call owns. Once the loop has stopped, no job is active,
  so every received submission has its one answer.
\<close>
theorem each_call_answered_once:
  assumes "reach sys_init sys_step s"
  shows "waiting (sys_pending s) ch + active (sys_dag s) ch + answers (sys_log s) ch + count_list (sys_refused s) ch
       = (if ch < sys_calls s then 1 else 0) \<and>
     (d_stopping (sys_dag s) \<longrightarrow> active (sys_dag s) ch = 0)"
  using dag.reach_inv [OF assms] unfolding sys_inv_def tally_def log_ok_def jobs_ok_def
  by (auto simp: active_def)

theorem each_call_answered_once_witness:
  "reach sys_init sys_step ex_sys3 \<and> active (sys_dag ex_sys3) 0 = 1 \<and> answers (sys_log ex_sys3) 0 = 0"
proof -
  have "active (sys_dag ex_sys3) 0 = 1" by code_simp
  moreover have "sys_calls ex_sys3 = 1" by (simp add: ex_sys3_def ex_sys_def)
  ultimately show ?thesis using each_call_answered_once [OF ex_reach3(2), of 0] ex_reach3(2) by simp
qed

section \<open>Stage attempts\<close>

text \<open>
  C14: Stage attempts are numbered 0, 1, 2, ... in the order in which task sets are started, so no two
  task sets share an attempt number (until the 64-bit counter wraps), and no stage of any job is
  started more often than the configured limit.
\<close>
theorem stage_attempts_bounded:
  assumes "reach sys_init sys_step s"
  shows "int (stage_starts (sys_log s) jid sid) \<le> d_maxStageAttempts (sys_dag s) \<and>
     map set_StageAttemptID (started_sets (sys_log s)) = map of_nat [0 ..< length (started_sets (sys_log s))] \<and>
     (length (started_sets (sys_log s)) \<le> 2 ^ 64 \<longrightarrow>
        distinct (map set_StageAttemptID (started_sets (sys_log s))))"
proof -
  let ?n = "length (started_sets (sys_log s))"
  have "inj_on (of_nat :: nat \<Rightarrow> 64 word) {0 ..< ?n}" if "?n \<le> 2 ^ 64"
    using that by (intro inj_onI of_nat_word_inj) auto
  then show ?thesis
    using reach_log_ok(1) [OF assms] by (simp add: log_ok_def budget_ok_def starts_ok_def distinct_map)
qed

theorem stage_attempts_bounded_witness:
  "stage_starts (sys_log ex_sys3) 0 1 \<le> 2 \<and> map set_StageAttemptID (started_sets (sys_log ex_sys3)) = [0, 1]"
proof -
  have "length (started_sets (sys_log ex_sys3)) = 2" "d_maxStageAttempts (sys_dag ex_sys3) = 2" by code_simp+
  then show ?thesis using stage_attempts_bounded [OF ex_reach3(2), of 0 1] by (simp add: numeral_2_eq_2)
qed

section \<open>No job waits for nothing\<close>

lemma current_setE:
  assumes "current_set jid job ts"
  obtains st where "fmlookup (js_stages job) (set_StageID ts) = Some st" "ss_status st = stageRunning"
    "set_StageAttemptID ts = ss_attemptID st" "set_Tasks ts = ss_tasks st" "set_JobID ts = jid"
    "stageInputs jid job (set_StageID ts) st = Some (Inr (set_ShuffleInputs ts))"
proof -
  obtain st where st: "fmlookup (js_stages job) (set_StageID ts) = Some st" "ss_status st = stageRunning"
    "stageInputs jid job (set_StageID ts) st = Some (Inr (set_ShuffleInputs ts))"
    and ts: "ts = stage_set jid (set_StageID ts) (ss_attemptID st) (set_ShuffleInputs ts) st"
    using assms unfolding current_set_def by (auto split: option.splits)
  from arg_cong [OF ts, of set_StageAttemptID] arg_cong [OF ts, of set_Tasks] arg_cong [OF ts, of set_JobID]
  show ?thesis using that st by (simp add: stage_set_def)
qed

lemma started_sets_in: "ts \<in> set (started_sets log) \<Longrightarrow> StartTaskSet ts \<in> set log"
  by (induction log rule: started_sets.induct) auto

lemma active_job_set:
  assumes "reach sys_init sys_step s" "fmlookup (d_jobs (sys_dag s)) jid = Some job"
  obtains ts where "StartTaskSet ts \<in> set (sys_log s)" "current_set jid job ts" "inputs_ok ts"
  using reach_log_ok(1) [OF assms(1)] assms(2) started_sets_in unfolding log_ok_def current_ok_def by metis

text \<open>
  C17: An active job always waits for a task set that the scheduler really started: the attempt of its
  one running stage, started with exactly that stage's tasks. If \<open>ScheduleTaskSet\<close> returns for it, with
  an error or without, before the stage is complete, the job ends and its caller gets an error. So a
  job can only be open while the physical scheduler still works on it.
\<close>
theorem active_job_is_running:
  assumes "reach sys_init sys_step s" and "fmlookup (d_jobs (sys_dag s)) jid = Some job"
  shows "\<exists>ts st c. StartTaskSet ts \<in> set (sys_log s) \<and> set_JobID ts = jid \<and>
     fmlookup (js_stages job) (set_StageID ts) = Some st \<and> ss_status st = stageRunning \<and>
     set_StageAttemptID ts = ss_attemptID st \<and> set_Tasks ts = ss_tasks st \<and>
     handleEvent r (scheduleTaskSet_end ts err) (sys_dag s) =
       Some ((sys_dag s)\<lparr>d_jobs := fmdrop jid (d_jobs (sys_dag s))\<rparr>,
             [CancelJob jid, Respond (js_response job) c]) \<and> jc_err c \<noteq> None"
proof -
  from active_job_set [OF assms] obtain ts where ts: "StartTaskSet ts \<in> set (sys_log s)" "current_set jid job ts" by blast
  from ts(2) obtain st where st: "fmlookup (js_stages job) (set_StageID ts) = Some st" "ss_status st = stageRunning"
    "set_StageAttemptID ts = ss_attemptID st" "set_Tasks ts = ss_tasks st" "set_JobID ts = jid"
    by (rule current_setE)
  then have "\<exists>c. handleEvent r (scheduleTaskSet_end ts err) (sys_dag s) =
       Some ((sys_dag s)\<lparr>d_jobs := fmdrop jid (d_jobs (sys_dag s))\<rparr>,
             [CancelJob jid, Respond (js_response job) c]) \<and> jc_err c \<noteq> None"
    using assms(2) by (auto simp: scheduleTaskSet_end_def handleTaskSetFinished_def failJob_def failed_def)
  then show ?thesis using ts(1) st by blast
qed

theorem active_job_is_running_witness:
  "\<exists>job ts. fmlookup (d_jobs (sys_dag ex_sys3)) 0 = Some job \<and> StartTaskSet ts \<in> set (sys_log ex_sys3) \<and>
     set_JobID ts = 0"
proof -
  have "fmlookup (d_jobs (sys_dag ex_sys3)) 0 \<noteq> None" by code_simp
  then obtain job where "fmlookup (d_jobs (sys_dag ex_sys3)) 0 = Some job" by blast
  then show ?thesis using active_job_is_running [OF ex_reach3(2)] by blast
qed

section \<open>No handler panics\<close>

text \<open>
  C31: In a reachable state no event makes a handler dereference \<open>nil\<close> or index out of range: not a
  submission that waits, not a report with whatever content, not the end of a task set, not a
  cancellation and not the request to stop.
\<close>
theorem handlers_never_panic:
  assumes "reach sys_init sys_step s" and "outside e \<or> e \<in> set (sys_pending s) \<or> e = schedulerStopping"
  shows "handleEvent r e (sys_dag s) \<noteq> None"
proof -
  have inv: "sys_inv s" by (rule dag.reach_inv [OF assms(1)])
  have ok: "log_ok (sys_calls s) (sys_dag s) (sys_log s)" "jobs_ok (sys_dag s)" by (rule reach_log_ok [OF assms(1)])+
  from assms(2) show ?thesis
  proof (elim disjE)
    assume "outside e"
    then show ?thesis using handle_outside [OF ok(2), of e r] by auto
  next
    assume e: "e \<in> set (sys_pending s)"
    then have "pending_ok (sys_calls s) e" using inv by (simp add: sys_inv_def list_all_iff)
    then obtain c graph action ch where ev: "e = jobSubmitted (of_nat ch) c graph action ch" "graph_ok graph"
      and ch: "ch < sys_calls s" by (auto simp: pending_ok_def split: schedulerEvent.splits)
    have "e \<in> set (filter (\<lambda>e. event_channel e = Some ch) (sys_pending s))"
      using e by (simp add: ev(1) event_channel_def)
    then have "waiting (sys_pending s) ch \<noteq> 0" unfolding waiting_def by (metis length_0_conv list.set(1) empty_iff)
    then have "active (sys_dag s) ch = 0" "answers (sys_log s) ch = 0"
      using inv ch by (auto simp: sys_inv_def tally_def dest!: spec [of _ ch])
    moreover have "sys_calls s \<le> 2 ^ 64" using inv by (simp add: sys_inv_def)
    ultimately show ?thesis using submit_log_ok [OF ok(1) ev(2) ch, of r c action] by (auto simp: ev(1))
  qed simp
qed

theorem handlers_never_panic_witness:
  "reach sys_init sys_step ex_sys3 \<and> outside (taskSucceeded ex_result_success) \<and>
   handleEvent ex_rd (taskSucceeded ex_result_success) (sys_dag ex_sys3) \<noteq> None"
  using handlers_never_panic [OF ex_reach3(2), of "taskSucceeded ex_result_success" ex_rd] ex_reach3(2)
  by (simp add: outside_def del: handleEvent.simps)

section \<open>Reports reach only their own job\<close>

lemma outcome_other_jobs:
  assumes "outcome jid d d' effects" "x \<noteq> jid"
  shows "fmlookup (d_jobs d') x = fmlookup (d_jobs d) x"
  using assms by (auto simp: outcome_def changes_def ended_def progressed_def restarted_def)

lemma outcome_response:
  assumes "outcome jid d d' effects" "Respond ch c \<in> set effects"
  shows "\<exists>job. fmlookup (d_jobs d) jid = Some job \<and> js_response job = ch"
proof -
  have "(ch, c) \<in> set (responses effects)" using assms(2) by (induction effects rule: responses.induct) auto
  with assms(1) show ?thesis
    by (auto simp: outcome_def changes_def ended_def progressed_def restarted_def dest: cancels_log)
qed

text \<open>
  C30: The observer of a task set lets through only reports of its own job, stage and stage attempt, and
  what it lets through changes no other job and answers no other caller, whatever the report contains.
\<close>
theorem observer_scopes_reports:
  assumes "reach sys_init sys_step s" and "dagTaskSetObserver ts call = Some e"
    and "handleEvent r e (sys_dag s) = Some (d', effects)"
  shows "(\<forall>jid. jid \<noteq> set_JobID ts \<longrightarrow> fmlookup (d_jobs d') jid = fmlookup (d_jobs (sys_dag s)) jid) \<and>
     (\<forall>ch c. Respond ch c \<in> set effects \<longrightarrow>
        (\<exists>job. fmlookup (d_jobs (sys_dag s)) (set_JobID ts) = Some job \<and> js_response job = ch))"
proof -
  have ok: "jobs_ok (sys_dag s)" by (rule reach_log_ok(2) [OF assms(1)])
  have "outcome (set_JobID ts) (sys_dag s) d' effects"
  proof (cases call)
    case (ObserveSuccess report)
    then show ?thesis
      using assms(2,3) success_outcome [OF ok, of r "report\<lparr>ts_Output := TaskOutput_Clone (ts_Output report)\<rparr>"]
      by (auto simp: observed_def split: if_splits)
  next
    case (ObserveFailure report)
    then show ?thesis
      using assms(2,3) failure_outcome [OF ok, of r "report\<lparr>tf_ShuffleInput := map_option (\<lambda>input. input) (tf_ShuffleInput report)\<rparr>"]
      by (auto simp: observed_def split: if_splits)
  qed
  then show ?thesis using outcome_other_jobs outcome_response by blast
qed

definition ex_result_set :: TaskSet where
  "ex_result_set = \<lparr>set_ShuffleInputs = None, set_JobID = 0, set_StageID = 1, set_StageAttemptID = 1, set_Tasks = []\<rparr>"

theorem observer_scopes_reports_witness:
  "dagTaskSetObserver ex_result_set (ObserveSuccess ex_result_success) = Some (taskSucceeded ex_result_success) \<and>
   fmlookup (d_jobs (after (taskSucceeded ex_result_success) (sys_dag ex_sys3))) 5 = fmlookup (d_jobs (sys_dag ex_sys3)) 5"
proof -
  have o: "dagTaskSetObserver ex_result_set (ObserveSuccess ex_result_success) = Some (taskSucceeded ex_result_success)"
    by (simp add: observed_def ex_result_success_def ex_attempt_def ex_result_set_def)
  have "handleEvent ex_rd (taskSucceeded ex_result_success) (sys_dag ex_sys3) \<noteq> None" by code_simp
  note observer_scopes_reports [OF ex_reach3(2) o handleEvent_after [OF this], THEN conjunct1, rule_format, of 5]
  moreover have "5 \<noteq> set_JobID ex_result_set" by (simp add: ex_result_set_def)
  ultimately show ?thesis using o by (intro conjI)
qed

section \<open>What a reduce stage reads\<close>

lemma those_map_nth:
  "those (map f xs) = Some ys \<Longrightarrow> length ys = length xs \<and> (\<forall>i < length xs. f (xs ! i) = Some (ys ! i))"
proof (induction xs arbitrary: ys)
  case (Cons x xs)
  then obtain z zs where "f x = Some z" "those (map f xs) = Some zs" "ys = z # zs"
    by (auto split: option.splits)
  then show ?case using Cons.IH by (auto simp: nth_Cons split: nat.split)
qed simp

lemma one_running_stage:
  assumes "job_inv k jid job" "fmlookup (js_stages job) a = Some sa" "fmlookup (js_stages job) b = Some sb"
    "ss_status sa = stageRunning" "ss_status sb = stageRunning"
  shows "a = b"
  using assms by (cases rule: job_inv_cases) (auto simp: narrow_shapeD shuffle_shapeD split: if_splits)

lemma job_inv_reading:
  assumes "job_inv k jid job" "fmlookup (js_stages job) r = Some rst" "stage_ParentIDs (ss_stage rst) = [m]"
    "ss_status rst = stageRunning"
  shows "\<exists>mst. fmlookup (js_stages job) m = Some mst \<and> ss_status mst = stageSucceeded"
  using assms
  by (cases rule: job_inv_cases)
    (auto simp: narrow_shapeD shuffle_shapeD(1,3-8) shuffle_stage_def split: if_splits)

text \<open>
  C5: The running result stage of a shuffle job was started with a snapshot that passes validation and
  consists, partition by partition, of exactly the outputs the scheduler has accepted from the current
  attempt of its map stage, which has succeeded. Outputs of an older attempt are never read.
\<close>
theorem reduce_reads_accepted_outputs:
  assumes "reach sys_init sys_step s" and "fmlookup (d_jobs (sys_dag s)) jid = Some job"
    and "fmlookup (js_stages job) r = Some rst" and "ss_status rst = stageRunning"
    and "stage_ParentIDs (ss_stage rst) = [m]"
  shows "\<exists>ts inputs mst. StartTaskSet ts \<in> set (sys_log s) \<and> set_JobID ts = jid \<and> set_StageID ts = r \<and>
     set_StageAttemptID ts = ss_attemptID rst \<and> set_ShuffleInputs ts = Some inputs \<and> snapshot_ok inputs \<and>
     fmlookup (js_stages job) m = Some mst \<and> ss_status mst = stageSucceeded \<and>
     is_StageAttemptID inputs = ss_attemptID mst \<and> length (is_Outputs inputs) = length (ss_tasks mst) \<and>
     (\<forall>p < length (ss_tasks mst). \<exists>out. fmlookup (ss_outputs mst) (int p) = Some out \<and>
        to_ShuffleOutput out = Some (is_Outputs inputs ! p))"
proof -
  have inv: "job_inv (d_maxStageAttempts (sys_dag s)) jid job"
    using reach_log_ok(2) [OF assms(1)] assms(2) by (simp add: jobs_ok_def)
  from active_job_set [OF assms(1,2)] obtain ts where
    ts: "StartTaskSet ts \<in> set (sys_log s)" "current_set jid job ts" "inputs_ok ts" by blast
  from ts(2) obtain st where st: "fmlookup (js_stages job) (set_StageID ts) = Some st" "ss_status st = stageRunning"
    "set_StageAttemptID ts = ss_attemptID st" "set_JobID ts = jid"
    "stageInputs jid job (set_StageID ts) st = Some (Inr (set_ShuffleInputs ts))" by (rule current_setE)
  have r: "set_StageID ts = r" "st = rst"
    using one_running_stage [OF inv st(1) assms(3) st(2) assms(4)] st(1) assms(3) by simp_all
  from job_inv_reading [OF inv assms(3,5,4)] obtain mst where
    mst: "fmlookup (js_stages job) m = Some mst" "ss_status mst = stageSucceeded" by blast
  obtain inputs where inputs: "buildInputs jid job rst = Some inputs" "set_ShuffleInputs ts = Some inputs"
    using st(5) assms(5) by (cases "buildInputs jid job rst")
      (auto simp: stageInputs_def r split: option.splits)
  then have snap: "snapshot_ok inputs" using ts(3) by (simp add: inputs_ok_def)
  from inputs(1) have in_mst: "acceptedOutputs mst = Some (is_Outputs inputs)" "is_StageAttemptID inputs = ss_attemptID mst"
    using mst(1) assms(5) by (auto simp: buildInputs_def Option.bind_eq_Some_conv)
  have "length (is_Outputs inputs) = length (ss_tasks mst)"
    "\<forall>p < length (ss_tasks mst). \<exists>out. fmlookup (ss_outputs mst) (int p) = Some out \<and>
        to_ShuffleOutput out = Some (is_Outputs inputs ! p)"
    using those_map_nth [OF in_mst(1) [unfolded acceptedOutputs_def]] by (auto simp: Option.bind_eq_Some_conv)
  then show ?thesis using ts(1) st(3,4) r inputs(2) snap mst in_mst(2) by blast
qed

theorem reduce_reads_accepted_outputs_witness:
  "\<exists>job rst ts inputs. fmlookup (d_jobs (sys_dag ex_sys3)) 0 = Some job \<and> fmlookup (js_stages job) 1 = Some rst \<and>
     StartTaskSet ts \<in> set (sys_log ex_sys3) \<and> set_ShuffleInputs ts = Some inputs \<and> snapshot_ok inputs"
proof -
  have "(case fmlookup (d_jobs (sys_dag ex_sys3)) 0 of None \<Rightarrow> False
     | Some job \<Rightarrow> (case fmlookup (js_stages job) 1 of None \<Rightarrow> False
         | Some rst \<Rightarrow> ss_status rst = stageRunning \<and> stage_ParentIDs (ss_stage rst) = [0]))" by code_simp
  then obtain job rst where "fmlookup (d_jobs (sys_dag ex_sys3)) 0 = Some job" "fmlookup (js_stages job) 1 = Some rst"
    "ss_status rst = stageRunning" "stage_ParentIDs (ss_stage rst) = [0]" by (auto split: option.splits)
  from reduce_reads_accepted_outputs [OF ex_reach3(2) this] this show ?thesis by blast
qed

section \<open>Reports take effect once\<close>

lemma handleTaskFailed_cases:
  assumes "pendingTask s (tf_JobID report) (tf_StageID report) (tf_Attempt report) (tf_PartitionID report) = Some job"
  shows "handleTaskFailed r report s =
     (case rd_check r (js_ctx job) of
        Some err \<Rightarrow> Some (failJob (tf_JobID report) (JobContext err) s)
      | None \<Rightarrow>
          if tf_Kind report = FailureShuffleInput then fail_on_error (tf_JobID report) (recoverShuffle r job report s)
          else Some (failJob (tf_JobID report) (TaskFailedError (tf_StageID report) (tai_TaskID (tf_Attempt report))
                 (tf_PartitionID report) (tf_Error report)) s))"
  using assms by (simp add: handleTaskFailed_def Let_def)

lemma pendingTask_no_job: "fmlookup (d_jobs s) jid = None \<Longrightarrow> pendingTask s jid sid a p = None"
  by (simp add: pendingTask_def)

lemma pendingTask_not_running:
  "fmlookup (d_jobs s) jid = Some job \<Longrightarrow> fmlookup (js_stages job) sid = Some st \<Longrightarrow>
     ss_status st \<noteq> stageRunning \<Longrightarrow> pendingTask s jid sid a p = None"
  by (simp add: pendingTask_def)

lemma failJob_gone: "failJob jid err s = (s', effects) \<Longrightarrow> fmlookup (d_jobs s') jid = None"
  using failJob_lookup [of jid err s jid] by simp

lemma ended_gone: "ended jid job c s s' effects \<Longrightarrow> fmlookup (d_jobs s') jid = None"
  by (simp add: ended_def)

lemma success_settles:
  assumes ok: "jobs_ok s" and step: "handleTaskSucceeded r report s = Some (s', effects)"
  shows "pendingTask s' (ts_JobID report) (ts_StageID report) (ts_Attempt report) (ts_PartitionID report) = None"
proof (cases "pendingTask s (ts_JobID report) (ts_StageID report) (ts_Attempt report) (ts_PartitionID report)")
  case None
  then show ?thesis using step by (simp add: handleTaskSucceeded_def)
next
  case (Some job)
  let ?jid = "ts_JobID report" and ?sid = "ts_StageID report"
  from Some obtain st where st: "fmlookup (d_jobs s) ?jid = Some job" "fmlookup (js_stages job) ?sid = Some st"
    "ss_status st = stageRunning" "tai_StageAttemptID (ts_Attempt report) = ss_attemptID st"
    "0 \<le> ts_PartitionID report" "ts_PartitionID report < int (length (ss_tasks st))"
    "ts_PartitionID report |\<notin>| fmdom (ss_outputs st)"
    by (rule pendingTask_Some)
  have inv: "job_inv (d_maxStageAttempts s) ?jid job" using ok st(1) by (simp add: jobs_ok_def)
  show ?thesis
  proof (cases "rd_check r (js_ctx job) = None \<and> ValidateFor (ts_Output report) (success_execution report job st) = None")
    case False
    then have "\<exists>err. handleTaskSucceeded r report s = Some (failJob ?jid err s)"
      using Some st(2) by (cases "rd_check r (js_ctx job)") (auto simp: handleTaskSucceeded_def)
    then show ?thesis using step failJob_gone pendingTask_no_job by (metis option.inject)
  next
    case True
    then have fits: "fits ?jid job st report" using st accepted_validated by (simp add: fits_def)
    note eq = handleTaskSucceeded_cases [OF Some _ st(2), of r]
    consider "ss_remaining st - 1 \<noteq> 0"
      | "ss_remaining st - 1 = 0" "?sid \<noteq> js_resultStageID job"
      | "ss_remaining st - 1 = 0" "?sid = js_resultStageID job" by blast
    then show ?thesis
    proof cases
      case 1
      then have "s' = put_job ?jid (accepted_job ?sid st report job) s" using True eq step by simp
      then show ?thesis by (simp add: pendingTask_def accepted_job_def)
    next
      case 2
      then have h: "fail_on_error ?jid (startReadyStages (rd_start r) ?jid (finished_job ?sid st report job) s)
          = Some (s', effects)" using True eq step by simp
      have fin: "fmlookup (js_stages (finished_job ?sid st report job)) ?sid
          = Some ((accept_output report st)\<lparr>ss_status := stageSucceeded\<rparr>)" by (simp add: finished_job_def)
      from finished_job_ready [OF inv st(2) fits 2] show ?thesis
      proof (cases rule: start_outcome [where env = "rd_start r"])
        case fail
        then show ?thesis using h ended_gone pendingTask_no_job by auto
      next
        case (start job' ts s'' effects')
        then have "set_StageID ts \<noteq> ?sid" using fin by (auto simp: launches_def)
        then have "fmlookup (js_stages job') ?sid = Some ((accept_output report st)\<lparr>ss_status := stageSucceeded\<rparr>)"
          using start(3) fin by (simp add: launches_def)
        moreover have "fmlookup (d_jobs s') ?jid = Some job'" using start(1,2) h by (simp add: restarted_def)
        ultimately show ?thesis by (intro pendingTask_not_running) auto
      qed
    next
      case 3
      then have "fmlookup (d_jobs s') ?jid = None" using True eq step by auto
      then show ?thesis by (rule pendingTask_no_job)
    qed
  qed
qed

lemma failure_settles:
  assumes ok: "jobs_ok s" and step: "handleTaskFailed r report s = Some (s', effects)"
  shows "pendingTask s' (tf_JobID report) (tf_StageID report) (tf_Attempt report) (tf_PartitionID report) = None"
proof (cases "pendingTask s (tf_JobID report) (tf_StageID report) (tf_Attempt report) (tf_PartitionID report)")
  case None
  then show ?thesis using step by (simp add: handleTaskFailed_def)
next
  case (Some job)
  let ?jid = "tf_JobID report"
  from Some obtain st where st: "fmlookup (d_jobs s) ?jid = Some job" "fmlookup (js_stages job) (tf_StageID report) = Some st"
    "ss_status st = stageRunning" by (rule pendingTask_Some)
  have inv: "job_inv (d_maxStageAttempts s) ?jid job" using ok st(1) by (simp add: jobs_ok_def)
  have fails: ?thesis if "handleTaskFailed r report s = Some (failJob ?jid err s)" for err
    using that step failJob_gone pendingTask_no_job by (metis option.inject)
  show ?thesis
  proof (cases "rd_check r (js_ctx job) = None \<and> tf_Kind report = FailureShuffleInput")
    case False
    then have "\<exists>err. handleTaskFailed r report s = Some (failJob ?jid err s)"
      using Some by (cases "rd_check r (js_ctx job)") (auto simp: handleTaskFailed_def)
    then show ?thesis using fails by blast
  next
    case True
    then have h: "handleTaskFailed r report s = fail_on_error ?jid (recoverShuffle r job report s)"
      using handleTaskFailed_cases [OF Some, of r] by simp
    have failed: ?thesis if "recoverShuffle r job report s = Some (Some err, s, [])" for err
      using fails h that by (simp add: fail_on_error_Some)
    show ?thesis
      using inv
    proof (cases rule: job_inv_cases)
      case (narrow rs rst)
      then have "stage_ParentIDs (ss_stage st) = []" using st by (auto simp: narrow_shapeD split: if_splits)
      then show ?thesis using recoverShuffle_no_parent [OF st(2)] failed by blast
    next
      case (mapping m mst rs rst)
      then have "stage_ParentIDs (ss_stage st) = []" using st by (auto simp: shuffle_shapeD split: if_splits)
      then show ?thesis using recoverShuffle_no_parent [OF st(2)] failed by blast
    next
      case (reducing m mst rs rst)
      note sh = shuffle_shapeD [OF reducing(1)]
      have r: "tf_StageID report = rs" using st reducing(4) by (auto simp: sh split: if_splits)
      note eq = recoverShuffle_reducing [OF reducing r, of r s]
      show ?thesis
      proof (cases "lost_input_check report mst = None \<and>
          exhausted (d_maxStageAttempts s) (tf_Error report) [mst, rst] = None")
        case False
        then have "\<exists>err. recoverShuffle r job report s = Some (Some err, s, [])"
          unfolding eq by (cases "lost_input_check report mst";
            cases "exhausted (d_maxStageAttempts s) (tf_Error report) [mst, rst]")
            (simp_all del: exhausted.simps)
        then show ?thesis using failed by blast
      next
        case True
        then have att: "ss_attempts mst < d_maxStageAttempts s" "ss_attempts rst < d_maxStageAttempts s"
          by (simp_all add: exhausted_None del: exhausted.simps)
        let ?job = "reset_job m mst rs rst job"
        have reset: "fmlookup (js_stages ?job) m = Some (reset_stage mst)" "fmlookup (js_stages ?job) rs = Some (reset_stage rst)"
          using sh(3) by (simp_all add: reset_job_def)
        from reset_job_ready(1) [OF reducing(1-3) att] show ?thesis
        proof (cases rule: start_outcome [where env = "rd_start r"])
          case (fail err s'' effects')
          have "handleTaskFailed r report s = Some (s'', [CancelStage ?jid m (ss_attemptID mst),
                CancelStage ?jid (tf_StageID report) (ss_attemptID rst)] @ effects')"
            unfolding h eq r using True by (simp only: option.case fail_on_error_prefix fail(1)) simp
          then show ?thesis using step ended_gone [OF fail(2)] pendingTask_no_job by auto
        next
          case (start job' ts s'' effects')
          have "handleTaskFailed r report s = Some (s'', [CancelStage ?jid m (ss_attemptID mst),
                CancelStage ?jid (tf_StageID report) (ss_attemptID rst)] @ effects')"
            unfolding h eq r using True by (simp only: option.case fail_on_error_prefix start(1)) simp
          then have job': "fmlookup (d_jobs s') ?jid = Some job'" using step start(2) by (simp add: restarted_def)
          have inv': "job_inv (d_maxStageAttempts s) ?jid job'" and cur: "current_set ?jid job' ts"
            using start(2) by (simp_all add: restarted_def started_def)
          have ts: "set_StageID ts \<noteq> rs"
          proof
            assume rs: "set_StageID ts = rs"
            then have m: "fmlookup (js_stages job') m = Some (reset_stage mst)" using start(3) reset(1) sh(3)
              by (simp add: launches_def)
            obtain st' where st': "fmlookup (js_stages job') rs = Some st'" "ss_status st' = stageRunning"
              using cur rs by (auto elim: current_setE)
            from inv' show False
              using st' m sh(3,5) by (cases rule: job_inv_cases)
                (auto simp: narrow_shapeD shuffle_shapeD reset_stage_def dest: shuffle_shapeD(7) split: if_splits)
          qed
          then have "fmlookup (js_stages job') rs = Some (reset_stage rst)" using start(3) reset(2) by (simp add: launches_def)
          then show ?thesis using pendingTask_not_running [OF job'] by (simp add: r reset_stage_def)
        qed
      qed
    qed
  qed
qed

text \<open>
  A report is taken into account only while it is awaited: its job is active, its stage runs as the
  reported attempt, its task is the task of that partition, and the partition has no output yet. Any
  other report leaves the scheduler unchanged and causes nothing. Once a report has been handled it is
  no longer awaited, whatever its outcome was, so a repetition of it has no effect.
\<close>
theorem reports_take_effect_at_most_once:
  assumes "reach sys_init sys_step s"
  shows "(pendingTask (sys_dag s) (ts_JobID ok) (ts_StageID ok) (ts_Attempt ok) (ts_PartitionID ok) = None \<longrightarrow>
       handleEvent r (taskSucceeded ok) (sys_dag s) = Some (sys_dag s, [])) \<and>
     (pendingTask (sys_dag s) (tf_JobID bad) (tf_StageID bad) (tf_Attempt bad) (tf_PartitionID bad) = None \<longrightarrow>
       handleEvent r (taskFailed bad) (sys_dag s) = Some (sys_dag s, [])) \<and>
     (\<forall>d effects. handleEvent r (taskSucceeded ok) (sys_dag s) = Some (d, effects) \<longrightarrow>
       handleEvent r' (taskSucceeded ok) d = Some (d, [])) \<and>
     (\<forall>d effects. handleEvent r (taskFailed bad) (sys_dag s) = Some (d, effects) \<longrightarrow>
       handleEvent r' (taskFailed bad) d = Some (d, []))"
proof -
  have ok: "jobs_ok (sys_dag s)" by (rule reach_log_ok(2) [OF assms])
  have "handleTaskSucceeded r0 ok d = Some (d, [])"
    if "pendingTask d (ts_JobID ok) (ts_StageID ok) (ts_Attempt ok) (ts_PartitionID ok) = None" for r0 d
    using that by (simp add: handleTaskSucceeded_def)
  moreover have "handleTaskFailed r0 bad d = Some (d, [])"
    if "pendingTask d (tf_JobID bad) (tf_StageID bad) (tf_Attempt bad) (tf_PartitionID bad) = None" for r0 d
    using that by (simp add: handleTaskFailed_def)
  ultimately show ?thesis using success_settles [OF ok] failure_settles [OF ok] by simp
qed

lemma fmdom_emptyD: "fmdom m = {||} \<Longrightarrow> m = fmempty"
  by (metis fmrestrict_fset_dom fmrestrict_fset_null)

theorem reports_take_effect_at_most_once_witness:
  "\<exists>d effects. handleEvent ex_rd (taskSucceeded ex_result_success) (sys_dag ex_sys3) = Some (d, effects) \<and>
     d_jobs d = fmempty \<and> handleEvent ex_rd (taskSucceeded ex_result_success) d = Some (d, [])"
proof -
  let ?e = "taskSucceeded ex_result_success"
  have "handleEvent ex_rd ?e (sys_dag ex_sys3) \<noteq> None" by code_simp
  note h = handleEvent_after [OF this]
  have "fmdom (d_jobs (after ?e (sys_dag ex_sys3))) = {||}" by code_simp
  then have "d_jobs (after ?e (sys_dag ex_sys3)) = fmempty" by (rule fmdom_emptyD)
  then show ?thesis
    using reports_take_effect_at_most_once [OF ex_reach3(2), of ex_result_success ex_rd _ ex_rd] h by blast
qed

section \<open>Recovery of lost input\<close>

lemma reading_shape:
  assumes "job_inv k jid job" "fmlookup (js_stages job) r = Some rst" "ss_status rst = stageRunning"
    "stage_ParentIDs (ss_stage rst) = [m]" "fmlookup (js_stages job) m = Some mst"
  shows "shuffle_shape job m mst r rst \<and> stage_inv k (js_runID job) jid mst \<and>
    stage_inv k (js_runID job) jid rst \<and> ss_status mst = stageSucceeded"
  using assms(1)
proof (cases rule: job_inv_cases)
  case (narrow r' rst')
  then show ?thesis using assms narrow_shapeD [OF narrow(1)] by (auto split: if_splits)
next
  case (mapping m' mst' r' rst')
  then show ?thesis using assms shuffle_shapeD [OF mapping(1)] by (auto split: if_splits)
next
  case (reducing m' mst' r' rst')
  note sh = shuffle_shapeD [OF reducing(1)]
  have r: "r' = r" "rst' = rst" using assms(2,3) reducing(4) by (auto simp: sh split: if_splits)
  have "m' = m" using assms(4) sh(8) by (simp add: r)
  moreover from this have "mst' = mst" using assms(5) by (simp add: sh)
  ultimately show ?thesis using reducing r by simp
qed

lemma lost_input_check_current:
  assumes inv: "stage_inv k run jid mst" "shuffle_stage m (ss_stage mst)"
    and kind: "tf_Kind bad = FailureShuffleInput" "tf_ShuffleInput bad = Some ref"
      "ir_PartitionID ref = tf_PartitionID bad" "0 \<le> tf_PartitionID bad"
    and lost: "fmlookup (ss_outputs mst) (ai_MapPartitionID (ir_Attempt ref)) = Some out"
      "to_ShuffleOutput out = Some mo" "mo_Attempt mo = ir_Attempt ref"
  shows "lost_input_check bad mst = None"
proof -
  have acc: "accepted run jid mst (ai_MapPartitionID (ir_Attempt ref)) out"
    and t: "tasks_of (ss_stage mst) (ss_tasks mst)" using inv(1) lost(1) by (simp_all add: stage_inv_def)
  obtain mo' where "to_ShuffleOutput out = Some mo'" "output_ok mo'"
    by (rule accepted_map_output [OF acc inv(2) t])
  then have "identity_ok (ir_Attempt ref)" using lost(2,3) by (auto simp: output_ok_def)
  then have "ValidateFailure (tf_Kind bad) (tf_ShuffleInput bad) = None"
    using kind by (simp add: ValidateFailure_iff)
  then show ?thesis using kind lost by (simp add: lost_input_check_def)
qed

text \<open>
  C29: When a reduce task reports that an accepted output of the current map attempt can no longer be
  read, and both stages have attempts left, both running attempts are cancelled, the map stage runs
  again as a new attempt with all its tasks and no outputs, and the result stage waits for it with no
  outputs of its own; the caller hears nothing. If one of the two stages has no attempt left, the job
  ends with an error that names the stage.
\<close>
theorem recovery_restarts_both_stages:
  assumes "reach sys_init sys_step s"
    and pending: "pendingTask (sys_dag s) (tf_JobID bad) (tf_StageID bad) (tf_Attempt bad) (tf_PartitionID bad) = Some job"
    and kind: "tf_Kind bad = FailureShuffleInput" "tf_ShuffleInput bad = Some ref" "ir_PartitionID ref = tf_PartitionID bad"
    and stages: "fmlookup (js_stages job) (tf_StageID bad) = Some rst" "stage_ParentIDs (ss_stage rst) = [m]"
      "fmlookup (js_stages job) m = Some mst"
    and lost: "fmlookup (ss_outputs mst) (ai_MapPartitionID (ir_Attempt ref)) = Some out"
      "to_ShuffleOutput out = Some mo" "mo_Attempt mo = ir_Attempt ref"
    and live: "rd_check r (js_ctx job) = None" "rd_start r (js_ctx job) = None"
  shows "if ss_attempts mst < d_maxStageAttempts (sys_dag s) \<and> ss_attempts rst < d_maxStageAttempts (sys_dag s)
    then \<exists>d job' mst' rst' a. a = d_nextStageAttemptID (sys_dag s) \<and>
      handleEvent r (taskFailed bad) (sys_dag s) = Some (d,
        [CancelStage (tf_JobID bad) m (ss_attemptID mst), CancelStage (tf_JobID bad) (tf_StageID bad) (ss_attemptID rst),
         StartTaskSet \<lparr>set_ShuffleInputs = None, set_JobID = tf_JobID bad, set_StageID = m,
           set_StageAttemptID = a, set_Tasks = ss_tasks mst\<rparr>]) \<and>
      fmlookup (d_jobs d) (tf_JobID bad) = Some job' \<and>
      fmlookup (js_stages job') m = Some mst' \<and> fmlookup (js_stages job') (tf_StageID bad) = Some rst' \<and>
      mst' = mst\<lparr>ss_attemptID := a, ss_status := stageRunning, ss_attempts := ss_attempts mst + 1, ss_cancel := Some a,
        ss_remaining := int (length (ss_tasks mst)), ss_outputs := fmempty\<rparr> \<and>
      rst' = rst\<lparr>ss_status := stagePending, ss_cancel := None,
        ss_remaining := int (length (ss_tasks rst)), ss_outputs := fmempty\<rparr>
    else \<exists>err. handleEvent r (taskFailed bad) (sys_dag s) =
      Some ((sys_dag s)\<lparr>d_jobs := fmdrop (tf_JobID bad) (d_jobs (sys_dag s))\<rparr>,
            [CancelJob (tf_JobID bad), Respond (js_response job) (failed err)]) \<and>
      err \<in> {StageExhausted m (d_maxStageAttempts (sys_dag s)) (Some (tf_Error bad)),
             StageExhausted (tf_StageID bad) (d_maxStageAttempts (sys_dag s)) (Some (tf_Error bad))}"
proof -
  let ?s = "sys_dag s" and ?jid = "tf_JobID bad" and ?r = "tf_StageID bad"
  obtain st where st: "fmlookup (d_jobs ?s) ?jid = Some job" "fmlookup (js_stages job) ?r = Some st"
    "ss_status st = stageRunning" "0 \<le> tf_PartitionID bad" by (rule pendingTask_Some [OF pending])
  have "job_inv (d_maxStageAttempts ?s) ?jid job" using reach_log_ok(2) [OF assms(1)] st(1) by (simp add: jobs_ok_def)
  note sh = reading_shape [OF this stages(1) _ stages(2,3)]
  have sh: "shuffle_shape job m mst ?r rst" "stage_inv (d_maxStageAttempts ?s) (js_runID job) ?jid mst"
    "stage_inv (d_maxStageAttempts ?s) (js_runID job) ?jid rst" "ss_status mst = stageSucceeded"
    "ss_status rst = stageRunning"
    using sh st(2,3) stages(1) by simp_all
  note lk = shuffle_shapeD [OF sh(1)]
  have chk: "lost_input_check bad mst = None"
    by (rule lost_input_check_current [OF sh(2) lk(4) kind st(4) lost])
  have h: "handleEvent r (taskFailed bad) ?s = fail_on_error ?jid (recoverShuffle r job bad ?s)"
    using handleTaskFailed_cases [OF pending, of r] kind(1) live(1) by simp
  note eq = recoverShuffle_reducing [OF sh(1-5) refl, of r ?s]
  show ?thesis
  proof (cases "ss_attempts mst < d_maxStageAttempts ?s \<and> ss_attempts rst < d_maxStageAttempts ?s")
    case True
    let ?job = "reset_job m mst ?r rst job" and ?a = "d_nextStageAttemptID ?s"
    have shape: "shuffle_shape ?job m (reset_stage mst) ?r (reset_stage rst)"
      using sh(1) unfolding reset_job_def by (intro shuffle_shape_put) (auto simp: reset_stage_def shuffle_shape_def)
    have "startStages (d_maxStageAttempts ?s) ?jid (js_order ?job) ?job ?a =
      Some (None, put_stage m (launched ?a (reset_stage mst)) ?job, ?a + 1,
            [StartTaskSet (stage_set ?jid m ?a None (reset_stage mst))])"
      by (rule startStages_map [OF shape]) (use True in \<open>simp_all add: reset_stage_def\<close>)
    then have "startReadyStages (rd_start r) ?jid ?job ?s =
      Some (None, put_job ?jid (put_stage m (launched ?a (reset_stage mst)) ?job) (?s\<lparr>d_nextStageAttemptID := ?a + 1\<rparr>),
            [StartTaskSet (stage_set ?jid m ?a None (reset_stage mst))])"
      using live(2) by (simp add: startReadyStages_def reset_job_def)
    then have "handleEvent r (taskFailed bad) ?s =
      Some (put_job ?jid (put_stage m (launched ?a (reset_stage mst)) ?job) (?s\<lparr>d_nextStageAttemptID := ?a + 1\<rparr>),
        [CancelStage ?jid m (ss_attemptID mst), CancelStage ?jid ?r (ss_attemptID rst),
         StartTaskSet (stage_set ?jid m ?a None (reset_stage mst))])"
      using True unfolding h eq chk by (simp add: fail_on_error_def)
    then show ?thesis
      using True lk(3) by (simp add: launched_def reset_stage_def stage_set_def reset_job_def)
  next
    case False
    moreover have "stage_ID (ss_stage mst) = m" "stage_ID (ss_stage rst) = ?r"
      using sh(1) by (simp_all add: shuffle_shape_def shuffle_stage_def result_stage_def)
    ultimately have "\<exists>err. exhausted (d_maxStageAttempts ?s) (tf_Error bad) [mst, rst] = Some err \<and>
      err \<in> {StageExhausted m (d_maxStageAttempts ?s) (Some (tf_Error bad)),
         StageExhausted ?r (d_maxStageAttempts ?s) (Some (tf_Error bad))}"
      by (cases "ss_attempts mst < d_maxStageAttempts ?s") simp_all
    then obtain err where err: "exhausted (d_maxStageAttempts ?s) (tf_Error bad) [mst, rst] = Some err"
      "err \<in> {StageExhausted m (d_maxStageAttempts ?s) (Some (tf_Error bad)),
         StageExhausted ?r (d_maxStageAttempts ?s) (Some (tf_Error bad))}" by blast
    have "handleEvent r (taskFailed bad) ?s = Some (failJob ?jid err ?s)"
      unfolding h eq chk err(1) by (simp add: fail_on_error_Some)
    then have "handleEvent r (taskFailed bad) ?s = Some (?s\<lparr>d_jobs := fmdrop ?jid (d_jobs ?s)\<rparr>,
            [CancelJob ?jid, Respond (js_response job) (failed err)])"
      using st(1) by (simp add: failJob_def)
    then show ?thesis using False err(2) by auto
  qed
qed

definition ex_lost_input :: TaskAttemptFailure where
  "ex_lost_input = \<lparr>tf_Kind = FailureShuffleInput,
     tf_ShuffleInput = Some \<lparr>ir_Attempt = ex_identity 0, ir_PartitionID = 0\<rparr>, tf_JobID = 0, tf_StageID = 1,
     tf_Attempt = ex_attempt 2 1, tf_PartitionID = 0, tf_WorkerID = ''w'', tf_Error = Text ''gone''\<rparr>"

theorem recovery_restarts_both_stages_witness:
  "\<exists>d job' mst'. handleEvent ex_rd (taskFailed ex_lost_input) (sys_dag ex_sys3) = Some (d,
      [CancelStage 0 0 0, CancelStage 0 1 1,
       StartTaskSet \<lparr>set_ShuffleInputs = None, set_JobID = 0, set_StageID = 0, set_StageAttemptID = 2,
         set_Tasks = ss_tasks mst'\<rparr>]) \<and>
     fmlookup (d_jobs d) 0 = Some job' \<and> fmlookup (js_stages job') 0 = Some mst' \<and> ss_attempts mst' = 2"
proof -
  have "(case fmlookup (d_jobs (sys_dag ex_sys3)) 0 of None \<Rightarrow> False
     | Some job \<Rightarrow> (case (fmlookup (js_stages job) 1, fmlookup (js_stages job) 0) of
         (Some rst, Some mst) \<Rightarrow> stage_ParentIDs (ss_stage rst) = [0] \<and> ss_attempts mst = 1 \<and> ss_attempts rst = 1 \<and>
           ss_attemptID mst = 0 \<and> ss_attemptID rst = 1 \<and>
           (case fmlookup (ss_outputs mst) 0 of None \<Rightarrow> False
            | Some out \<Rightarrow> map_option mo_Attempt (to_ShuffleOutput out) = Some (ex_identity 0))
       | _ \<Rightarrow> False))" by code_simp
  then obtain job rst mst out mo where facts: "fmlookup (d_jobs (sys_dag ex_sys3)) 0 = Some job"
    "fmlookup (js_stages job) 1 = Some rst" "stage_ParentIDs (ss_stage rst) = [0]" "fmlookup (js_stages job) 0 = Some mst"
    "fmlookup (ss_outputs mst) 0 = Some out" "to_ShuffleOutput out = Some mo" "mo_Attempt mo = ex_identity 0"
    "ss_attempts mst = 1" "ss_attempts rst = 1" "ss_attemptID mst = 0" "ss_attemptID rst = 1"
    by (auto split: option.splits)
  have p0: "pendingTask (sys_dag ex_sys3) 0 1 (ex_attempt 2 1) 0 \<noteq> None" by code_simp
  then have p: "pendingTask (sys_dag ex_sys3) 0 1 (ex_attempt 2 1) 0 = Some job"
  proof -
    obtain y where y: "pendingTask (sys_dag ex_sys3) 0 1 (ex_attempt 2 1) 0 = Some y" using p0 by blast
    then have "fmlookup (d_jobs (sys_dag ex_sys3)) 0 = Some y" by (rule pendingTask_Some)
    then show ?thesis using y facts(1) by simp
  qed
  have "d_nextStageAttemptID (sys_dag ex_sys3) = 2" "d_maxStageAttempts (sys_dag ex_sys3) = 2" by code_simp+
  then show ?thesis
    using recovery_restarts_both_stages [OF ex_reach3(2), of ex_lost_input job "\<lparr>ir_Attempt = ex_identity 0, ir_PartitionID = 0\<rparr>"
        rst 0 mst out mo ex_rd] p facts
    by (auto simp: ex_lost_input_def ex_rd_def ex_identity_def)
qed

section \<open>Stopping\<close>

lemma failJobs_responds:
  assumes "jid \<in> set order" "fmlookup (d_jobs d) jid = Some job"
  shows "Respond (js_response job) (failed err) \<in> set (snd (failJobs order err d))"
  using assms
proof (induction order arbitrary: d)
  case (Cons x order)
  have snd: "snd (failJobs (x # order) err d) = snd (failJob x err d) @ snd (failJobs order err (fst (failJob x err d)))"
    by (simp add: Let_def split: prod.split)
  show ?case
  proof (cases "x = jid")
    case True
    then show ?thesis using Cons.prems(2) unfolding snd by (simp add: failJob_def)
  next
    case False
    then have "fmlookup (d_jobs (fst (failJob x err d))) jid = Some job"
      using Cons.prems(2) failJob_lookup [of x err d jid] by simp
    then show ?thesis using Cons.IH Cons.prems(1) False unfolding snd by simp
  qed
qed simp

lemma stopped_ignores:
  assumes "d_jobs d = fmempty" "outside e"
  shows "handleEvent r e d = Some (d, [])"
  using assms
  by (cases e) (auto simp: outside_def handleTaskSucceeded_def handleTaskFailed_def handleTaskSetFinished_def
      pendingTask_def failJob_def)

text \<open>
  C32: Stopping answers the caller of every active job with \<open>ErrSchedulerClosed\<close> and leaves no job
  behind, in whatever order the map of jobs is traversed. Afterwards a late submission is answered with
  the same error at once, and late reports, ends of task sets and cancellations change nothing.
\<close>
theorem stopping_answers_everyone:
  assumes "set order = fset (fmdom (d_jobs d))" and "handleStopping order d = (d', effects)"
  shows "d_jobs d' = fmempty \<and> last effects = StoppedAck \<and>
     (\<forall>jid job. fmlookup (d_jobs d) jid = Some job \<longrightarrow>
        Respond (js_response job) (failed ErrSchedulerClosed) \<in> set effects) \<and>
     (\<forall>r jid c graph action ch. handleEvent r (jobSubmitted jid c graph action ch) d' =
        Some (d', [Respond ch (failed ErrSchedulerClosed)])) \<and>
     (\<forall>r e. outside e \<longrightarrow> handleEvent r e d' = Some (d', []))"
proof -
  obtain d1 e1 where f: "failJobs order ErrSchedulerClosed d = (d1, e1)" by fastforce
  have d': "d' = d1\<lparr>d_stopping := True\<rparr>" "effects = e1 @ [StoppedAck]"
    using assms(2) by (simp_all add: handleStopping_def failJobs_stopping f)
  have "fmlookup (d_jobs d1) x = None" for x
    using failJobs_lookup [of order ErrSchedulerClosed d x] assms(1) by (auto simp: f fmdom_notD split: if_splits)
  then have empty: "d_jobs d' = fmempty" by (intro fmap_ext) (simp add: d')
  moreover have "Respond (js_response job) (failed ErrSchedulerClosed) \<in> set effects"
    if "fmlookup (d_jobs d) jid = Some job" for jid job
    using failJobs_responds [of jid order d job ErrSchedulerClosed] that assms(1) by (simp add: f d' fmdomI)
  ultimately show ?thesis using stopped_ignores [OF empty]
    by (simp add: d' handleJobSubmitted_def rejectJob_def)
qed

theorem stopping_answers_everyone_witness:
  "\<exists>job d' effects. fmlookup (d_jobs ex_dag3) 0 = Some job \<and> handleStopping [0] ex_dag3 = (d', effects) \<and>
     Respond (js_response job) (failed ErrSchedulerClosed) \<in> set effects \<and> d_jobs d' = fmempty"
proof -
  have "sorted_list_of_fset (fmdom (d_jobs ex_dag3)) = [0]" by code_simp
  then have "set [0] = fset (fmdom (d_jobs ex_dag3))" by (metis sorted_list_of_fset_simps(1))
  note st = stopping_answers_everyone [OF this surjective_pairing]
  have "fmlookup (d_jobs ex_dag3) 0 \<noteq> None" by code_simp
  then show ?thesis using st by (metis not_None_eq prod.collapse)
qed

section \<open>The answer of a job\<close>

definition partition_records :: "(PartitionID, TaskOutput) fmap \<Rightarrow> nat \<Rightarrow> any list" where
  "partition_records outputs p =
     (case Option.bind (fmlookup outputs (int p)) to_Records of None \<Rightarrow> [] | Some rs \<Rightarrow> rs)"

definition partition_count :: "(PartitionID, TaskOutput) fmap \<Rightarrow> nat \<Rightarrow> int" where
  "partition_count outputs p = (case fmlookup outputs (int p) of None \<Rightarrow> 0 | Some out \<Rightarrow> to_Count out)"

lemma go_append_assoc: "go_append (go_append xs ys) zs = go_append xs (ys @ zs)"
  by (auto simp: go_append_def split: option.split)

lemma mergeLoop_collect:
  "mergeLoop ActionCollect outputs p n result =
     result\<lparr>jr_Records := go_append (jr_Records result) (concat (map (partition_records outputs) [p ..< p + n]))\<rparr>"
proof (induction n arbitrary: p result)
  case 0
  then show ?case by (simp add: go_append_def)
next
  case (Suc n)
  have "[p ..< p + Suc n] = p # [Suc p ..< Suc p + n]" by (simp add: upt_conv_Cons)
  moreover have "(case to_Records (case fmlookup outputs (int p) of None \<Rightarrow> zeroTaskOutput | Some x \<Rightarrow> x) of
      None \<Rightarrow> [] | Some rs \<Rightarrow> rs) = partition_records outputs p"
    by (simp add: partition_records_def zeroTaskOutput_def split: option.split)
  ultimately show ?case by (simp add: Suc.IH go_append_assoc Let_def del: upt_Suc)
qed

lemma mergeLoop_count:
  "mergeLoop ActionCount outputs p n result =
     result\<lparr>jr_Count := (if n = 0 then jr_Count result
        else to_int64 (jr_Count result + sum_list (map (partition_count outputs) [p ..< p + n])))\<rparr>"
proof (induction n arbitrary: p result)
  case (Suc n)
  have "[p ..< p + Suc n] = p # [Suc p ..< Suc p + n]" by (simp add: upt_conv_Cons)
  moreover have "to_Count (case fmlookup outputs (int p) of None \<Rightarrow> zeroTaskOutput | Some x \<Rightarrow> x) = partition_count outputs p"
    by (simp add: partition_count_def zeroTaskOutput_def split: option.split)
  ultimately show ?case
    by (simp add: Suc.IH Let_def to_int64_add add.assoc del: upt_Suc)
qed simp

lemma respond_restarted: "restarted jid job job' ts s s' effects \<Longrightarrow> Respond ch c \<notin> set effects"
  by (simp add: restarted_def)

lemma job_inv_stage:
  assumes "job_inv k jid job" "fmlookup (js_stages job) sid = Some st"
  shows "stage_inv k (js_runID job) jid st"
    and "stage_Kind (ss_stage st) = StageShuffleMap \<Longrightarrow> shuffle_stage sid (ss_stage st)"
  using assms by (atomize(full), cases rule: job_inv_cases)
    (auto simp: narrow_shapeD shuffle_shapeD split: if_splits)

lemma job_inv_action:
  "job_inv k jid job \<Longrightarrow> act_Kind (js_action job) \<in> {ActionCollect, ActionCount}"
  by (cases rule: job_inv_cases) (auto simp: narrow_shape_def shuffle_shape_def result_stage_def)

lemma complete_dom:
  assumes "stage_inv k run jid st" "ss_remaining st = 0"
  shows "fset (fmdom (ss_outputs st)) = {0 ..< int (length (ss_tasks st))}"
proof
  show "fset (fmdom (ss_outputs st)) \<subseteq> {0 ..< int (length (ss_tasks st))}"
    using assms(1) by (auto simp: stage_inv_def accepted_def fmlookup_dom_iff)
  show "{0 ..< int (length (ss_tasks st))} \<subseteq> fset (fmdom (ss_outputs st))"
  proof
    fix p assume "p \<in> {0 ..< int (length (ss_tasks st))}"
    then have "nat p < length (ss_tasks st)" "int (nat p) = p" by auto
    then show "p \<in> fset (fmdom (ss_outputs st))"
      using complete_outputs [OF assms, of "nat p"] by (auto simp: fmlookup_dom_iff)
  qed
qed

lemma merge_complete:
  assumes "fset (fmdom outputs) = {0 ..< int n}" "kind \<in> {ActionCollect, ActionCount}" "0 < n"
  shows "mergeTaskOutputs kind outputs =
    (if kind = ActionCollect
     then \<lparr>jr_Records = go_append None (concat (map (partition_records outputs) [0 ..< n])), jr_Count = 0\<rparr>
     else \<lparr>jr_Records = None, jr_Count = to_int64 (sum_list (map (partition_count outputs) [0 ..< n]))\<rparr>)"
proof -
  have "fcard (fmdom outputs) = n" using assms(1) by (simp add: fcard.rep_eq)
  then have "mergeTaskOutputs kind outputs = mergeLoop kind outputs 0 n zeroJobResult"
    by (simp add: mergeTaskOutputs_def)
  then show ?thesis using assms(2,3)
    by (auto simp: mergeLoop_collect mergeLoop_count zeroJobResult_def)
qed

text \<open>
  C3: A job is answered with a result only when the output of the last missing partition of its result
  stage is accepted, so that every partition has exactly one accepted output. The result of \<open>Collect\<close>
  is the records of all partitions in partition order, independent of the order in which the tasks
  finished; the result of \<open>Count\<close> is the sum of the partition counts in 64-bit arithmetic.
\<close>
theorem job_result_is_partition_order_merge:
  assumes "reach sys_init sys_step s"
    and "handleEvent r (taskSucceeded report) (sys_dag s) = Some (d', effects)"
    and "Respond ch c \<in> set effects" and "jc_err c = None"
  shows "\<exists>job rst outputs. fmlookup (d_jobs (sys_dag s)) (ts_JobID report) = Some job \<and> js_response job = ch \<and>
     fmlookup (js_stages job) (js_resultStageID job) = Some rst \<and>
     outputs = fmupd (ts_PartitionID report) (ts_Output report) (ss_outputs rst) \<and>
     fset (fmdom outputs) = {0 ..< int (length (ss_tasks rst))} \<and>
     jc_result c =
       (if act_Kind (js_action job) = ActionCollect
        then \<lparr>jr_Records = go_append None (concat (map (partition_records outputs) [0 ..< length (ss_tasks rst)])),
              jr_Count = 0\<rparr>
        else \<lparr>jr_Records = None,
              jr_Count = to_int64 (sum_list (map (partition_count outputs) [0 ..< length (ss_tasks rst)]))\<rparr>)"
proof -
  let ?s = "sys_dag s" and ?jid = "ts_JobID report" and ?sid = "ts_StageID report"
  have ok: "jobs_ok ?s" by (rule reach_log_ok(2) [OF assms(1)])
  have step: "handleTaskSucceeded r report ?s = Some (d', effects)" using assms(2) by simp
  have "pendingTask ?s ?jid ?sid (ts_Attempt report) (ts_PartitionID report) \<noteq> None"
  proof
    assume "pendingTask ?s ?jid ?sid (ts_Attempt report) (ts_PartitionID report) = None"
    then show False using step assms(3) by (simp add: handleTaskSucceeded_def)
  qed
  then obtain job where job: "pendingTask ?s ?jid ?sid (ts_Attempt report) (ts_PartitionID report) = Some job" by blast
  from job obtain st where st: "fmlookup (d_jobs ?s) ?jid = Some job" "fmlookup (js_stages job) ?sid = Some st"
    "ss_status st = stageRunning" "tai_StageAttemptID (ts_Attempt report) = ss_attemptID st"
    "0 \<le> ts_PartitionID report" "ts_PartitionID report < int (length (ss_tasks st))"
    "ts_PartitionID report |\<notin>| fmdom (ss_outputs st)"
    by (rule pendingTask_Some)
  have inv: "job_inv (d_maxStageAttempts ?s) ?jid job" using ok st(1) by (simp add: jobs_ok_def)
  have "rd_check r (js_ctx job) = None \<and> ValidateFor (ts_Output report) (success_execution report job st) = None"
  proof (rule ccontr)
    assume "\<not> ?thesis"
    then have "\<exists>err. handleTaskSucceeded r report ?s = Some (failJob ?jid err ?s)"
      using job st(2) by (cases "rd_check r (js_ctx job)") (auto simp: handleTaskSucceeded_def)
    then show False using step st(1) assms(3,4) by (auto simp: failJob_def failed_def)
  qed
  then have valid: "rd_check r (js_ctx job) = None"
    "ValidateFor (ts_Output report) (success_execution report job st) = None" by simp_all
  then have fits: "fits ?jid job st report" using st accepted_validated by (simp add: fits_def)
  note eq = handleTaskSucceeded_cases [OF job valid(1) st(2) valid(2)]
  have rem: "ss_remaining st - 1 = 0" using step eq assms(3) by (auto split: if_splits)
  have res: "?sid = js_resultStageID job"
  proof (rule ccontr)
    assume map: "?sid \<noteq> js_resultStageID job"
    have h: "fail_on_error ?jid (startReadyStages (rd_start r) ?jid (finished_job ?sid st report job) ?s) = Some (d', effects)"
      using step eq rem map by simp
    from finished_job_ready [OF inv st(2) fits rem map] show False
    proof (cases rule: start_outcome [where env = "rd_start r"])
      case fail
      then show False using h assms(3,4) by (auto simp: ended_def failed_def)
    next
      case start
      then show False using h assms(3) respond_restarted by auto
    qed
  qed
  let ?outs = "fmupd (ts_PartitionID report) (ts_Output report) (ss_outputs st)"
  have eff: "ch = js_response job" "jc_result c = mergeTaskOutputs (act_Kind (js_action job)) ?outs"
    using step eq rem res assms(3) by auto
  note full = complete_dom [OF stage_inv_fits(2) [OF job_inv_stage(1) [OF inv st(2)] fits job_inv_stage(2) [OF inv st(2)] rem]]
  have dom: "fset (fmdom ?outs) = {0 ..< int (length (ss_tasks st))}" using full rem by simp
  have "0 < length (ss_tasks st)" using st(5,6) by linarith
  note m = trans [OF eff(2) merge_complete [OF dom job_inv_action [OF inv] this]]
  show ?thesis
    by (intro exI [of _ job] exI [of _ st] exI [of _ ?outs] conjI refl dom m st(1))
      (simp_all add: st(2) eff(1) flip: res)
qed

theorem job_result_is_partition_order_merge_witness:
  "\<exists>effects d'. handleEvent ex_rd (taskSucceeded ex_result_success) (sys_dag ex_sys3) = Some (d', effects) \<and>
     Respond 0 \<lparr>jc_result = \<lparr>jr_Records = Some [KeyValueV ''a'' (Int64V 3)], jr_Count = 0\<rparr>, jc_err = None\<rparr> \<in> set effects \<and>
     (\<exists>job. fmlookup (d_jobs (sys_dag ex_sys3)) 0 = Some job \<and> js_response job = 0)"
proof -
  let ?e = "taskSucceeded ex_result_success"
  have "handleEvent ex_rd ?e (sys_dag ex_sys3) \<noteq> None" by code_simp
  note h = handleEvent_after [OF this]
  have "effects_of ?e (sys_dag ex_sys3) = [CancelJob 0, Respond 0 \<lparr>jc_result =
      \<lparr>jr_Records = Some [KeyValueV ''a'' (Int64V 3)], jr_Count = 0\<rparr>, jc_err = None\<rparr>]" by code_simp
  then have resp: "Respond 0 \<lparr>jc_result = \<lparr>jr_Records = Some [KeyValueV ''a'' (Int64V 3)], jr_Count = 0\<rparr>,
      jc_err = None\<rparr> \<in> set (effects_of ?e (sys_dag ex_sys3))" by simp
  from job_result_is_partition_order_merge [OF ex_reach3(2) h this] h resp show ?thesis
    by (simp add: ex_result_success_def) blast
qed

end
