(* ===== verification/Function_Registry.thy ===== *)
theory Function_Registry
  imports Task_Output
begin

text \<open>
  The registry of named functions: \<open>src/executor/function_registry.go\<close>, with the error helper of
  \<open>src/executor/failure.go\<close>. The code repeats one group of three operations for each of the five
  function types; each group is one definition per operation here, over a common table. The
  contract of a group is the locale \<open>function_table\<close>, interpreted for all five. The mutex makes each
  operation atomic and is not modelled; texts of errors are shortened to what distinguishes them.
\<close>

section \<open>Functions and tables\<close>

type_synonym MapFunc = "any \<Rightarrow> go_error + any"
type_synonym FilterFunc = "any \<Rightarrow> go_error + bool"
type_synonym PairMapFunc = "any \<Rightarrow> go_error + string \<times> any"
type_synonym ValueMapFunc = "any \<Rightarrow> go_error + any"
type_synonym ReduceFunc = "any \<Rightarrow> any \<Rightarrow> go_error + any"

record FunctionRegistry =
  fr_maps :: "(string, MapFunc) fmap"
  fr_filters :: "(string, FilterFunc) fmap"
  fr_pairMaps :: "(string, PairMapFunc) fmap"
  fr_valueMaps :: "(string, ValueMapFunc) fmap"
  fr_reducers :: "(string, ReduceFunc) fmap"

definition NewFunctionRegistry :: FunctionRegistry where
  "NewFunctionRegistry = \<lparr>fr_maps = fmempty, fr_filters = fmempty, fr_pairMaps = fmempty,
     fr_valueMaps = fmempty, fr_reducers = fmempty\<rparr>"

datatype registrationError =
    EmptyFunctionID string
  | NilFunction string string
  | DuplicateFunction string string

definition permanentErrorf :: "string \<Rightarrow> go_error" where
  "permanentErrorf message = permanentError (ErrorText message)"

definition validateFunctionRegistration :: "string \<Rightarrow> string \<Rightarrow> bool \<Rightarrow> registrationError option" where
  "validateFunctionRegistration kind fid nilFunction =
     (if fid = [] then Some (EmptyFunctionID kind)
      else if nilFunction then Some (NilFunction kind fid) else None)"

definition unknownFunctionError :: "string \<Rightarrow> string \<Rightarrow> go_error" where
  "unknownFunctionError kind fid = permanentErrorf (kind @ '' function is not registered: '' @ fid)"

text \<open>The body that the five registrations and the five lookups share; a \<open>nil\<close> function is \<open>None\<close>.\<close>

definition add_function ::
  "string \<Rightarrow> string \<Rightarrow> 'f option \<Rightarrow> (string, 'f) fmap \<Rightarrow> registrationError + (string, 'f) fmap"
where
  "add_function kind fid fn table =
     (case validateFunctionRegistration kind fid (fn = None) of
        Some err \<Rightarrow> Inl err
      | None \<Rightarrow>
          if fid |\<in>| fmdom table then Inl (DuplicateFunction kind fid)
          else (case fn of None \<Rightarrow> Inl (NilFunction kind fid) | Some f \<Rightarrow> Inr (fmupd fid f table)))"

definition find_function :: "string \<Rightarrow> string \<Rightarrow> (string, 'f) fmap \<Rightarrow> go_error + 'f" where
  "find_function kind fid table =
     (case fmlookup table fid of None \<Rightarrow> Inl (unknownFunctionError kind fid) | Some f \<Rightarrow> Inr f)"

section \<open>The operations\<close>

definition RegisterMap :: "string \<Rightarrow> MapFunc option \<Rightarrow> FunctionRegistry \<Rightarrow> registrationError option \<times> FunctionRegistry" where
  "RegisterMap fid fn r =
     (case add_function ''map'' fid fn (fr_maps r) of Inl e \<Rightarrow> (Some e, r) | Inr t \<Rightarrow> (None, r\<lparr>fr_maps := t\<rparr>))"

definition Map :: "string \<Rightarrow> FunctionRegistry \<Rightarrow> go_error + MapFunc" where
  "Map fid r = find_function ''map'' fid (fr_maps r)"

definition HasMapFunc :: "string \<Rightarrow> FunctionRegistry \<Rightarrow> bool" where
  "HasMapFunc fid r \<longleftrightarrow> fid |\<in>| fmdom (fr_maps r)"

definition RegisterFilter :: "string \<Rightarrow> FilterFunc option \<Rightarrow> FunctionRegistry \<Rightarrow> registrationError option \<times> FunctionRegistry" where
  "RegisterFilter fid fn r =
     (case add_function ''filter'' fid fn (fr_filters r) of Inl e \<Rightarrow> (Some e, r) | Inr t \<Rightarrow> (None, r\<lparr>fr_filters := t\<rparr>))"

definition Filter :: "string \<Rightarrow> FunctionRegistry \<Rightarrow> go_error + FilterFunc" where
  "Filter fid r = find_function ''filter'' fid (fr_filters r)"

definition HasFilterFunc :: "string \<Rightarrow> FunctionRegistry \<Rightarrow> bool" where
  "HasFilterFunc fid r \<longleftrightarrow> fid |\<in>| fmdom (fr_filters r)"

definition RegisterPairMap :: "string \<Rightarrow> PairMapFunc option \<Rightarrow> FunctionRegistry \<Rightarrow> registrationError option \<times> FunctionRegistry" where
  "RegisterPairMap fid fn r =
     (case add_function ''pair-map'' fid fn (fr_pairMaps r) of Inl e \<Rightarrow> (Some e, r) | Inr t \<Rightarrow> (None, r\<lparr>fr_pairMaps := t\<rparr>))"

definition PairMap :: "string \<Rightarrow> FunctionRegistry \<Rightarrow> go_error + PairMapFunc" where
  "PairMap fid r = find_function ''pair-map'' fid (fr_pairMaps r)"

definition HasPairMapFunc :: "string \<Rightarrow> FunctionRegistry \<Rightarrow> bool" where
  "HasPairMapFunc fid r \<longleftrightarrow> fid |\<in>| fmdom (fr_pairMaps r)"

definition RegisterValueMap :: "string \<Rightarrow> ValueMapFunc option \<Rightarrow> FunctionRegistry \<Rightarrow> registrationError option \<times> FunctionRegistry" where
  "RegisterValueMap fid fn r =
     (case add_function ''value-map'' fid fn (fr_valueMaps r) of Inl e \<Rightarrow> (Some e, r) | Inr t \<Rightarrow> (None, r\<lparr>fr_valueMaps := t\<rparr>))"

definition ValueMap :: "string \<Rightarrow> FunctionRegistry \<Rightarrow> go_error + ValueMapFunc" where
  "ValueMap fid r = find_function ''value-map'' fid (fr_valueMaps r)"

definition HasValueMapFunc :: "string \<Rightarrow> FunctionRegistry \<Rightarrow> bool" where
  "HasValueMapFunc fid r \<longleftrightarrow> fid |\<in>| fmdom (fr_valueMaps r)"

definition RegisterReduce :: "string \<Rightarrow> ReduceFunc option \<Rightarrow> FunctionRegistry \<Rightarrow> registrationError option \<times> FunctionRegistry" where
  "RegisterReduce fid fn r =
     (case add_function ''reduce'' fid fn (fr_reducers r) of Inl e \<Rightarrow> (Some e, r) | Inr t \<Rightarrow> (None, r\<lparr>fr_reducers := t\<rparr>))"

definition Reduce :: "string \<Rightarrow> FunctionRegistry \<Rightarrow> go_error + ReduceFunc" where
  "Reduce fid r = find_function ''reduce'' fid (fr_reducers r)"

definition HasReduceFunc :: "string \<Rightarrow> FunctionRegistry \<Rightarrow> bool" where
  "HasReduceFunc fid r \<longleftrightarrow> fid |\<in>| fmdom (fr_reducers r)"

text \<open>The registry as the planner's \<open>FunctionLookup\<close>.\<close>

definition registry_lookup :: "FunctionRegistry \<Rightarrow> FunctionLookup" where
  "registry_lookup r = \<lparr>HasMap = (\<lambda>f. HasMapFunc f r), HasFilter = (\<lambda>f. HasFilterFunc f r),
     HasPairMap = (\<lambda>f. HasPairMapFunc f r), HasValueMap = (\<lambda>f. HasValueMapFunc f r),
     HasReduce = (\<lambda>f. HasReduceFunc f r)\<rparr>"

section \<open>The contract of a group\<close>

text \<open>
  What a client of one function type relies on: registration succeeds exactly for a new, named and
  non-nil function, then the lookup finds it, other names keep their functions, and \<open>Has\<close> tells
  whether the lookup will succeed.
\<close>

locale function_table =
  fixes register :: "string \<Rightarrow> 'f option \<Rightarrow> 'r \<Rightarrow> registrationError option \<times> 'r"
    and find :: "string \<Rightarrow> 'r \<Rightarrow> go_error + 'f"
    and has :: "string \<Rightarrow> 'r \<Rightarrow> bool"
  assumes register_ok: "fst (register fid fn r) = None \<longleftrightarrow> fid \<noteq> [] \<and> fn \<noteq> None \<and> \<not> has fid r"
    and register_error: "fst (register fid fn r) \<noteq> None \<Longrightarrow> snd (register fid fn r) = r"
    and find_register: "fst (register fid (Some f) r) = None \<Longrightarrow>
      find x (snd (register fid (Some f) r)) = (if x = fid then Inr f else find x r)"
    and has_find: "has fid r \<longleftrightarrow> (\<exists>f. find fid r = Inr f)"
begin

text \<open>No later registration, successful or not, changes the function behind a name.\<close>

lemma find_stable: "find fid r = Inr f \<Longrightarrow> find fid (snd (register x fn r)) = Inr f"
proof -
  assume f: "find fid r = Inr f"
  show ?thesis
  proof (cases "fst (register x fn r)")
    case None
    then obtain g where g: "fn = Some g" "\<not> has x r" using register_ok by auto
    then have "x \<noteq> fid" using f has_find by auto
    then show ?thesis using find_register [of x g r fid] None f g by simp
  next
    case (Some e)
    then show ?thesis using register_error f by simp
  qed
qed

lemma register_twice: "fst (register fid (Some f) r) = None \<Longrightarrow> fst (register fid fn (snd (register fid (Some f) r))) \<noteq> None"
  using register_ok has_find find_register [of fid f r fid] by simp

end

lemma add_function_ok:
  "add_function kind fid fn t =
     (if fid \<noteq> [] \<and> fn \<noteq> None \<and> fid |\<notin>| fmdom t then Inr (fmupd fid (the fn) t)
      else Inl (if fid = [] then EmptyFunctionID kind else if fn = None then NilFunction kind fid
                else DuplicateFunction kind fid))"
  by (auto simp: add_function_def validateFunctionRegistration_def split: option.split)

lemma find_function_Inr: "find_function kind fid t = Inr f \<longleftrightarrow> fmlookup t fid = Some f"
  by (simp add: find_function_def split: option.split)

lemma find_function_upd:
  "find_function kind x (fmupd fid f t) = (if x = fid then Inr f else find_function kind x t)"
  by (simp add: find_function_def)

lemmas table_simps = add_function_ok find_function_Inr find_function_upd fmlookup_dom_iff

interpretation maps: function_table RegisterMap Map HasMapFunc
  by unfold_locales
    (auto simp: RegisterMap_def Map_def HasMapFunc_def table_simps split: if_splits)

interpretation filters: function_table RegisterFilter Filter HasFilterFunc
  by unfold_locales
    (auto simp: RegisterFilter_def Filter_def HasFilterFunc_def table_simps split: if_splits)

interpretation pairMaps: function_table RegisterPairMap PairMap HasPairMapFunc
  by unfold_locales
    (auto simp: RegisterPairMap_def PairMap_def HasPairMapFunc_def table_simps split: if_splits)

interpretation valueMaps: function_table RegisterValueMap ValueMap HasValueMapFunc
  by unfold_locales
    (auto simp: RegisterValueMap_def ValueMap_def HasValueMapFunc_def table_simps split: if_splits)

interpretation reducers: function_table RegisterReduce Reduce HasReduceFunc
  by unfold_locales
    (auto simp: RegisterReduce_def Reduce_def HasReduceFunc_def table_simps split: if_splits)

section \<open>What planning and execution rely on\<close>

definition resolves :: "RDDNode \<Rightarrow> FunctionRegistry \<Rightarrow> bool" where
  "resolves node r =
     (let fid = op_FunctionID (node_Operator node) in
      case op_Kind (node_Operator node) of
        OpSource \<Rightarrow> True
      | OpMap \<Rightarrow> (\<exists>f. Map fid r = Inr f)
      | OpFilter \<Rightarrow> (\<exists>f. Filter fid r = Inr f)
      | OpMapToPair \<Rightarrow> (\<exists>f. PairMap fid r = Inr f)
      | OpMapValues \<Rightarrow> (\<exists>f. ValueMap fid r = Inr f)
      | OpReduceByKey \<Rightarrow> (\<exists>f. Reduce fid r = Inr f)
      | OperatorKindOther _ \<Rightarrow> False)"

text \<open>
  C33: The planner's check and the executor's lookup agree. A node passes \<open>validateNodeFunction\<close> against
  a registry exactly when the lookup that execution makes for its operator succeeds there. A function
  once registered is found under its name after any later registration attempt, whether that attempt
  succeeds or fails, so a plan that was accepted stays executable in the same process.
\<close>
theorem registry_agrees_with_planner:
  "(validateNodeFunction node (registry_lookup r) = None \<longleftrightarrow> resolves node r) \<and>
   (Map fid r = Inr m \<longrightarrow> Map fid (snd (RegisterMap x mo r)) = Inr m) \<and>
   (Filter fid r = Inr p \<longrightarrow> Filter fid (snd (RegisterFilter x po r)) = Inr p) \<and>
   (PairMap fid r = Inr k \<longrightarrow> PairMap fid (snd (RegisterPairMap x ko r)) = Inr k) \<and>
   (ValueMap fid r = Inr v \<longrightarrow> ValueMap fid (snd (RegisterValueMap x vo r)) = Inr v) \<and>
   (Reduce fid r = Inr f \<longrightarrow> Reduce fid (snd (RegisterReduce x fo r)) = Inr f)"
proof -
  have "validateNodeFunction node (registry_lookup r) = None \<longleftrightarrow> resolves node r"
    by (auto simp: validateNodeFunction_def registry_lookup_def resolves_def Let_def
        maps.has_find filters.has_find pairMaps.has_find valueMaps.has_find reducers.has_find
        split: OperatorKind.split)
  then show ?thesis
    by (simp add: maps.find_stable filters.find_stable pairMaps.find_stable valueMaps.find_stable reducers.find_stable)
qed

theorem registry_agrees_with_planner_witness:
  "Map ''f'' (snd (RegisterMap ''f'' None (snd (RegisterMap ''f'' (Some Inr) NewFunctionRegistry)))) = Inr Inr"
proof -
  have "Map ''f'' (snd (RegisterMap ''f'' (Some Inr) NewFunctionRegistry)) = Inr Inr"
    by (simp add: Map_def RegisterMap_def table_simps NewFunctionRegistry_def)
  then show ?thesis by (simp add: registry_agrees_with_planner [THEN conjunct2, THEN conjunct1, rule_format])
qed

end
