(* ===== verification/Text_Source.thy ===== *)
theory Text_Source
  imports Function_Registry "HOL-Library.Signed_Division"
begin

text \<open>
  The text source: \<open>src/executor/text_source.go\<close>. A file is the bytes that \<open>os.Open\<close> finds under its
  path; it does not change while it is read, and \<open>Stat\<close>, reads and \<open>Close\<close> of the opened file succeed. A partition is a byte range; its reader starts at the
  first line that begins in the range and stops at the first line that begins behind it. The theory
  shows that the partitions of a file together read every line exactly once and in order.

  A context is consulted at fixed points of the code. A \<open>clock\<close> says after how many consultations it
  ends, with which error and which cause; \<open>None\<close> is a context that never ends.
\<close>

section \<open>Contexts during execution\<close>

type_synonym clock = "(nat \<times> ctx_err \<times> go_error) option"

fun tick :: "clock \<Rightarrow> (ctx_err \<times> go_error) option \<times> clock" where
  "tick None = (None, None)"
| "tick (Some (0, err, cause)) = (Some (err, cause), Some (0, err, cause))"
| "tick (Some (Suc n, err, cause)) = (None, Some (n, err, cause))"

definition ctx_Err :: "clock \<Rightarrow> go_error option \<times> clock" where
  "ctx_Err c = map_prod (map_option (\<lambda>(err, cause). ContextError err)) id (tick c)"

definition ctx_Cause :: "clock \<Rightarrow> go_error option \<times> clock" where
  "ctx_Cause c = map_prod (map_option (\<lambda>(err, cause). cause)) id (tick c)"

lemma ctx_never [simp]: "ctx_Err None = (None, None)" "ctx_Cause None = (None, None)"
  by (simp_all add: ctx_Err_def ctx_Cause_def)

text \<open>\<open>errors.Join\<close> drops \<open>nil\<close> errors and is \<open>nil\<close> when nothing is left.\<close>

definition errors_Join :: "go_error option list \<Rightarrow> go_error option" where
  "errors_Join es =
     (case List.map_filter (\<lambda>e. e) es of [] \<Rightarrow> None | errs \<Rightarrow> Some (WrapError errs))"

section \<open>The reader of a partition\<close>

definition newline :: char where "newline = CHR 0x0A"
definition carriage :: char where "carriage = CHR 0x0D"

record textPartition =
  tp_content :: string
  tp_pos :: int
  tp_end :: int
  tp_last :: bool
  tp_done :: bool

text \<open>\<open>ReadString\<close> from an offset: the bytes up to and including the next newline, or the rest.\<close>

definition ReadString :: "string \<Rightarrow> nat \<Rightarrow> string \<times> bool" where
  "ReadString content pos =
     (let rest = drop pos content; line = takeWhile (\<lambda>c. c \<noteq> newline) rest in
      if length line < length rest then (line @ [newline], False) else (line, True))"

definition position :: "string \<Rightarrow> int \<Rightarrow> go_error + int" where
  "position content start =
     (if start > 0 then
        (if start - 1 \<ge> int (length content) then Inl ErrEOF
         else if content ! nat (start - 1) \<noteq> newline
         then Inr (start + int (length (fst (ReadString content (nat start)))))
         else Inr start)
      else if start < 0 then Inl (ErrorText ''negative position'')
      else Inr start)"

definition partition_start :: "int \<Rightarrow> int \<Rightarrow> int \<Rightarrow> int" where
  "partition_start len p n = to_int64 (len * p) sdiv n"

definition text_Open ::
  "(string \<Rightarrow> go_error + string) \<Rightarrow> string \<Rightarrow> PartitionID \<Rightarrow> int \<Rightarrow> clock \<Rightarrow> (go_error + textPartition) \<times> clock"
where
  "text_Open files path p n c =
     (case ctx_Err c of
        (Some err, c) \<Rightarrow> (Inl err, c)
      | (None, c) \<Rightarrow>
          (if n \<le> 0 \<or> p < 0 \<or> p \<ge> n then Inl (permanentErrorf ''invalid partition'')
           else case files path of
             Inl err \<Rightarrow> Inl (WrapError [err])
           | Inr content \<Rightarrow>
               (let len = int (length content) in
                case position content (partition_start len p n) of
                  Inl err \<Rightarrow> Inl (WrapError [err])
                | Inr start \<Rightarrow>
                    Inr \<lparr>tp_content = content, tp_pos = start, tp_end = partition_start len (p + 1) n,
                         tp_last = (p = n - 1), tp_done = False\<rparr>),
           c))"

definition TrimSuffix :: "char \<Rightarrow> string \<Rightarrow> string" where
  "TrimSuffix c s = (if s \<noteq> [] \<and> last s = c then butlast s else s)"

text \<open>Closing a file that was open for reading reports no error.\<close>

definition text_Close :: "textPartition \<Rightarrow> go_error option \<times> textPartition" where
  "text_Close i = (None, i\<lparr>tp_done := True\<rparr>)"

definition text_Next :: "textPartition \<Rightarrow> clock \<Rightarrow> (go_error + any option) \<times> textPartition \<times> clock" where
  "text_Next i c =
     (if tp_done i then (Inr None, i, c)
      else case ctx_Err c of
        (Some err, c) \<Rightarrow> (Inl err, snd (text_Close i), c)
      | (None, c) \<Rightarrow>
          if \<not> tp_last i \<and> tp_pos i \<ge> tp_end i then (Inr None, snd (text_Close i), c)
          else (let (line, eof) = ReadString (tp_content i) (nat (tp_pos i));
                    i = i\<lparr>tp_pos := tp_pos i + int (length line), tp_done := eof\<rparr> in
                if line = [] then (Inr None, i, c)
                else (Inr (Some (StringV (TrimSuffix carriage (TrimSuffix newline line)))), i, c)))"

section \<open>The lines of a file\<close>

definition line_at :: "string \<Rightarrow> nat \<Rightarrow> string" where
  "line_at content q = TrimSuffix carriage (TrimSuffix newline (fst (ReadString content q)))"

definition line_end :: "string \<Rightarrow> nat \<Rightarrow> nat" where
  "line_end content q = q + length (fst (ReadString content q))"

lemma length_takeWhile_eq: "\<not> length (takeWhile P xs) < length xs \<Longrightarrow> takeWhile P xs = xs"
  by (metis append_Nil2 append_take_drop_id drop_eq_Nil length_takeWhile_le linorder_not_le takeWhile_eq_take)

lemma ReadString_facts:
  assumes "q < length content"
  shows "fst (ReadString content q) \<noteq> []" "line_end content q \<le> length content" "q < line_end content q"
proof -
  let ?r = "drop q content"
  have r: "?r \<noteq> []" using assms by simp
  have "length (takeWhile (\<lambda>c. c \<noteq> newline) ?r) \<le> length ?r" by (rule length_takeWhile_le)
  then show "fst (ReadString content q) \<noteq> []" "line_end content q \<le> length content"
    using r assms length_takeWhile_eq [of "\<lambda>c. c \<noteq> newline" ?r]
    by (auto simp: ReadString_def line_end_def Let_def)
  then show "q < line_end content q" by (simp add: line_end_def)
qed

lemma ReadString_behind: "length content \<le> q \<Longrightarrow> ReadString content q = ([], True)"
  by (simp add: ReadString_def)

text \<open>All lines that start at or behind an offset, and those that start before a bound.\<close>

function lines_from :: "string \<Rightarrow> nat \<Rightarrow> string list" where
  "lines_from content q =
     (if q < length content then line_at content q # lines_from content (line_end content q) else [])"
  by pat_completeness auto
termination
  by (relation "measure (\<lambda>(content, q). length content - q)") (auto dest: ReadString_facts(3) intro: diff_less_mono2)

function lines_until :: "string \<Rightarrow> nat \<Rightarrow> nat \<Rightarrow> string list" where
  "lines_until content q e =
     (if q < length content \<and> q < e then line_at content q # lines_until content (line_end content q) e else [])"
  by pat_completeness auto
termination
  by (relation "measure (\<lambda>(content, q, e). length content - q)") (auto dest: ReadString_facts(3) intro: diff_less_mono2)

declare lines_from.simps [simp del] lines_until.simps [simp del]

text \<open>The reference: the file cut at its newlines, with no line after a final newline.\<close>

fun cut_lines :: "string \<Rightarrow> string \<Rightarrow> string list" where
  "cut_lines acc [] = (if acc = [] then [] else [acc])"
| "cut_lines acc (c # cs) = (if c = newline then acc # cut_lines [] cs else cut_lines (acc @ [c]) cs)"

definition file_lines :: "string \<Rightarrow> string list" where
  "file_lines content = map (TrimSuffix carriage) (cut_lines [] content)"

lemma cut_lines_step:
  "cut_lines acc xs =
     (if newline \<in> set xs
      then (acc @ takeWhile (\<lambda>c. c \<noteq> newline) xs) # cut_lines [] (drop (Suc (length (takeWhile (\<lambda>c. c \<noteq> newline) xs))) xs)
      else if acc @ xs = [] then [] else [acc @ xs])"
  by (induction acc xs rule: cut_lines.induct) auto

lemma takeWhile_short: "length (takeWhile (\<lambda>c. c \<noteq> a) xs) < length xs \<longleftrightarrow> a \<in> set xs"
  by (induction xs) auto

lemma lines_from_cut: "lines_from content q = map (TrimSuffix carriage) (cut_lines [] (drop q content))"
proof (induction content q rule: lines_from.induct)
  case (1 content q)
  let ?r = "drop q content" and ?w = "takeWhile (\<lambda>c. c \<noteq> newline) (drop q content)"
  show ?case
  proof (cases "q < length content")
    case True
    note IH = 1 [OF True] and step = lines_from.simps [of content q] and cut = cut_lines_step [of "[]" ?r]
    show ?thesis
    proof (cases "newline \<in> set ?r")
      case mem: True
      then have R: "ReadString content q = (?w @ [newline], False)"
        by (simp add: ReadString_def Let_def takeWhile_short del: length_drop)
      then have "line_end content q = Suc (length ?w) + q" by (simp add: line_end_def)
      then show ?thesis using IH True mem R
        by (simp add: step cut line_at_def TrimSuffix_def)
    next
      case False
      then have w: "?w = ?r" by (simp add: takeWhile_eq_all_conv) metis
      have R: "ReadString content q = (?r, True)"
        by (simp only: ReadString_def Let_def w) simp
      then have e: "line_end content q = length content" using True by (simp add: line_end_def)
      have "TrimSuffix newline ?r = ?r"
        using False True last_in_set [of ?r] by (auto simp: TrimSuffix_def)
      then show ?thesis using IH False True R e by (simp add: step cut line_at_def)
    qed
  qed (simp add: lines_from.simps)
qed

text \<open>The first line that starts at or behind an offset.\<close>

definition first_start :: "string \<Rightarrow> nat \<Rightarrow> nat" where
  "first_start content s =
     (if s = 0 \<or> content ! (s - 1) = newline then s else line_end content s)"

lemma position_first_start:
  assumes "s \<le> length content"
  shows "position content (int s) = Inr (int (first_start content s))"
proof (cases s)
  case (Suc k)
  then have "nat (int s - 1) = k" "\<not> int s - 1 \<ge> int (length content)" using assms by auto
  then show ?thesis using Suc by (simp add: position_def first_start_def line_end_def del: of_nat_Suc)
qed (simp add: position_def first_start_def)

text \<open>A line reaches to its newline, or to the end of the file.\<close>

lemma line_end_char:
  assumes "q < length content"
  shows "(\<forall>k. q \<le> k \<and> Suc k < line_end content q \<longrightarrow> content ! k \<noteq> newline) \<and>
    (content ! (line_end content q - 1) = newline \<or> line_end content q = length content)"
proof -
  let ?P = "\<lambda>c. c \<noteq> newline" and ?r = "drop q content"
  let ?w = "takeWhile ?P ?r"
  have inside: "content ! k \<noteq> newline" if "q \<le> k" "k < q + length ?w" for k
  proof -
    have "k - q < length ?w" using that by simp
    then have "?P (?w ! (k - q))" "?w ! (k - q) = ?r ! (k - q)"
      using nth_mem set_takeWhileD by (fastforce, simp add: takeWhile_nth)
    then show ?thesis using that assms by simp
  qed
  show ?thesis
  proof (cases "length ?w < length ?r")
    case True
    then have e: "line_end content q = Suc (q + length ?w)"
      by (simp add: line_end_def ReadString_def Let_def)
    have "?r ! length ?w = newline" using nth_length_takeWhile [OF True] by simp
    then have "content ! (q + length ?w) = newline" using assms by simp
    then show ?thesis using inside by (simp add: e)
  next
    case False
    then have "line_end content q = q + length ?w"
      by (simp add: line_end_def ReadString_def Let_def)
    moreover have "length ?w = length ?r" using False length_takeWhile_le [of ?P ?r] by linarith
    ultimately show ?thesis using inside assms by simp
  qed
qed

lemma line_end_unique:
  assumes q: "q < m" "m \<le> length content"
    and inside: "\<And>k. q \<le> k \<Longrightarrow> Suc k < m \<Longrightarrow> content ! k \<noteq> newline"
    and final: "content ! (m - 1) = newline \<or> m = length content"
  shows "line_end content q = m"
proof -
  let ?e = "line_end content q"
  have ql: "q < length content" using q by simp
  note char = line_end_char [OF ql] and facts = ReadString_facts [OF ql]
  show ?thesis
  proof (cases ?e m rule: linorder_cases)
    case less
    then have "content ! (?e - 1) = newline" using char q facts by auto
    moreover have "content ! (?e - 1) \<noteq> newline" using inside [of "?e - 1"] facts less by simp
    ultimately show ?thesis by simp
  next
    case greater
    then have "content ! (m - 1) = newline" using final facts by auto
    moreover have "content ! (m - 1) \<noteq> newline" using char greater q(1) by simp
    ultimately show ?thesis by simp
  qed simp
qed

text \<open>Every offset inside a line leads to the same next line.\<close>

lemma line_end_inside:
  assumes q: "q < e" "e \<le> line_end content q" "e \<le> length content"
  shows "first_start content e = line_end content q"
proof -
  have ql: "q < length content" using q by simp
  note char = line_end_char [OF ql] and facts = ReadString_facts [OF ql]
  show ?thesis
  proof (cases "e = line_end content q")
    case True
    then show ?thesis using char q
      by (auto simp: first_start_def line_end_def ReadString_behind)
  next
    case False
    then have e: "e < line_end content q" using q by simp
    then have "content ! (e - 1) \<noteq> newline" using char q(1) by simp
    moreover have "line_end content e = line_end content q"
      by (rule line_end_unique) (use e facts char q(1) in auto)
    ultimately show ?thesis using q by (simp add: first_start_def)
  qed
qed


section \<open>The partitions of a file\<close>

lemma lines_until_split:
  assumes "q < e \<or> q = first_start content e" "e \<le> length content"
  shows "lines_from content q = lines_until content q e @ lines_from content (first_start content e)"
  using assms
proof (induction content q e rule: lines_until.induct)
  case (1 content q e)
  have stop: "e \<le> first_start content e" by (simp add: first_start_def line_end_def)
  show ?case
  proof (cases "q < e")
    case True
    then have q: "q < length content" using 1(3) by simp
    let ?n = "line_end content q"
    have "?n < e \<or> ?n = first_start content e"
      using line_end_inside [of q e content] True 1(3) by fastforce
    then have "lines_from content ?n = lines_until content ?n e @ lines_from content (first_start content e)"
      using 1 q True by simp
    then show ?thesis using q True
      by (simp add: lines_from.simps [of content q] lines_until.simps [of content q])
  next
    case False
    then have "q = first_start content e" using 1(2) by simp
    then show ?thesis using stop by (simp add: lines_until.simps [of content _ e])
  qed
qed

lemma first_start_split:
  assumes "s \<le> e" "e \<le> length content"
  shows "lines_from content (first_start content s) =
    lines_until content (first_start content s) e @ lines_from content (first_start content e)"
proof (rule lines_until_split [OF _ assms(2)])
  show "first_start content s < e \<or> first_start content s = first_start content e"
  proof (cases "s = e \<or> first_start content s = s")
    case True
    then show ?thesis using assms(1) by (cases "s = e") auto
  next
    case False
    then have "first_start content s = line_end content s" by (simp add: first_start_def split: if_splits)
    then show ?thesis using line_end_inside [of s e content] False assms by fastforce
  qed
qed

lemma first_start_le: "s \<le> length content \<Longrightarrow> first_start content s \<le> length content"
  using ReadString_facts(2) [of s content]
  by (cases "s < length content") (auto simp: first_start_def line_end_def ReadString_behind)

lemma partition_start_eq:
  assumes "0 < n" "p \<le> n" "int len * int n < 2 ^ 63"
  shows "partition_start (int len) (int p) (int n) = int (len * p div n)"
proof -
  have "int len * int p \<le> int len * int n" using assms(2) by (simp add: mult_left_mono)
  then have "to_int64 (int len * int p) = int len * int p"
    by (intro to_int64_id) (use assms(3) in \<open>auto intro: order_trans [of _ 0]\<close>)
  moreover have "(int len * int p) sdiv int n = int len * int p div int n"
    using assms(1) by (cases "len * p = 0") (auto simp: signed_divide_int_def sgn_1_pos)
  ultimately show ?thesis by (simp add: partition_start_def zdiv_int)
qed


lemma to_int64_start: "partition_start (int len) 0 (int n) = 0"
  by (simp add: partition_start_def to_int64_id)

text \<open>Reading an open partition to its end, with a bound on the number of calls.\<close>

fun text_drain :: "nat \<Rightarrow> textPartition \<Rightarrow> clock \<Rightarrow> (go_error + any list) option" where
  "text_drain 0 i c = None"
| "text_drain (Suc fuel) i c =
     (case text_Next i c of
        (Inl err, _, _) \<Rightarrow> Some (Inl err)
      | (Inr None, _, _) \<Rightarrow> Some (Inr [])
      | (Inr (Some r), i, c) \<Rightarrow> map_option (map_sum id ((#) r)) (text_drain fuel i c))"

definition read_partition ::
  "nat \<Rightarrow> (string \<Rightarrow> go_error + string) \<Rightarrow> string \<Rightarrow> PartitionID \<Rightarrow> int \<Rightarrow> clock \<Rightarrow> (go_error + any list) option"
where
  "read_partition fuel files path p n c =
     (case text_Open files path p n c of (Inl err, _) \<Rightarrow> Some (Inl err) | (Inr i, c) \<Rightarrow> text_drain fuel i c)"

definition owned :: "bool \<Rightarrow> string \<Rightarrow> nat \<Rightarrow> nat \<Rightarrow> string list" where
  "owned final content q e = (if final then lines_from content q else lines_until content q e)"

lemma text_drain_owned:
  assumes "length content - q < fuel"
  shows "text_drain fuel \<lparr>tp_content = content, tp_pos = int q, tp_end = int e, tp_last = final, tp_done = False\<rparr> None =
    Some (Inr (map StringV (owned final content q e)))"
  using assms
proof (induction fuel arbitrary: q)
  case (Suc fuel)
  let ?i = "\<lparr>tp_content = content, tp_pos = int q, tp_end = int e, tp_last = final, tp_done = False\<rparr>"
  obtain line eof where R: "ReadString content q = (line, eof)" by (cases "ReadString content q")
  have own: "owned final content q e = (if q < length content \<and> (final \<or> q < e)
      then line_at content q # owned final content (line_end content q) e else [])"
    by (simp add: owned_def lines_from.simps [of content q] lines_until.simps [of content q])
  show ?case
  proof (cases "q < length content \<and> (final \<or> q < e)")
    case False
    then show ?thesis by (auto simp: own text_Next_def text_Close_def Let_def ReadString_behind)
  next
    case True
    note facts = ReadString_facts [of q content]
    let ?j = "?i\<lparr>tp_pos := int (line_end content q), tp_done := eof\<rparr>"
    have step: "text_Next ?i None = (Inr (Some (StringV (line_at content q))), ?j, None)"
      using True facts R by (auto simp: text_Next_def line_at_def line_end_def)
    have "text_drain fuel ?j None = Some (Inr (map StringV (owned final content (line_end content q) e)))"
    proof (cases eof)
      case False
      then show ?thesis using Suc True facts by simp
    next
      case eof: True
      then have "line = drop q content"
        using R length_takeWhile_le [of "\<lambda>c. c \<noteq> newline" "drop q content"]
        by (auto simp: ReadString_def Let_def takeWhile_short takeWhile_eq_all_conv split: if_splits)
      then have "line_end content q = length content" using R True by (simp add: line_end_def)
      then have "owned final content (line_end content q) e = []"
        by (simp add: owned_def lines_from.simps lines_until.simps)
      moreover obtain k where "fuel = Suc k" using Suc.prems True facts by (cases fuel) auto
      ultimately show ?thesis using eof by (simp add: text_Next_def)
    qed
    then show ?thesis using step own True by simp
  qed
qed simp

lemma read_partition_owned:
  assumes "files path = Inr content" "p < n" "int (length content) * int n < 2 ^ 63" "length content < fuel"
  shows "read_partition fuel files path (int p) (int n) None =
    Some (Inr (map StringV (owned (p = n - 1) content (first_start content (length content * p div n)) (length content * Suc p div n))))"
proof -
  let ?s = "\<lambda>p. length content * p div n"
  have starts: "partition_start (int (length content)) (int q) (int n) = int (?s q)" if "q \<le> n" for q
    using partition_start_eq [of n q "length content"] that assms by simp
  have "?s p \<le> length content" using assms(2)
    by (metis div_le_mono less_imp_le_nat mult_le_mono2 nonzero_mult_div_cancel_right not_less_zero)
  then have pos: "position content (int (?s p)) = Inr (int (first_start content (?s p)))"
    by (rule position_first_start)
  have next_p: "partition_start (int (length content)) (int p + 1) (int n) = int (?s (Suc p))"
    using starts [of "Suc p"] assms(2) by (simp add: add.commute)
  have "int p = int n - 1 \<longleftrightarrow> p = n - 1" using assms(2) by auto
  then have "text_Open files path (int p) (int n) None =
      (Inr \<lparr>tp_content = content, tp_pos = int (first_start content (?s p)), tp_end = int (?s (Suc p)),
            tp_last = (p = n - 1), tp_done = False\<rparr>, None)"
    using assms starts [of p] next_p pos by (simp add: text_Open_def Let_def del: of_nat_mult mult_Suc_right)
  then show ?thesis using assms(4) by (simp add: read_partition_def text_drain_owned)
qed

text \<open>The reads of the partitions up to a bound, followed by the rest of the file, are the whole file.\<close>

lemma concat_owned:
  assumes "m \<le> n" "0 < n"
  shows "concat (map (\<lambda>p. lines_until content (first_start content (length content * p div n)) (length content * Suc p div n)) [0 ..< m])
      @ lines_from content (first_start content (length content * m div n)) = file_lines content"
  using assms
proof (induction m)
  case 0
  then show ?case by (simp add: first_start_def file_lines_def lines_from_cut)
next
  case (Suc m)
  let ?s = "\<lambda>p. length content * p div n"
  have "?s m \<le> ?s (Suc m)" by (intro div_le_mono) simp
  moreover have "?s (Suc m) \<le> length content" using Suc.prems
    by (metis div_le_mono mult_le_mono2 nonzero_mult_div_cancel_right not_less_zero)
  ultimately show ?case using Suc first_start_split [of "?s m" "?s (Suc m)" content] by simp
qed

text \<open>
  C11: The partitions of a text file are a partition of its lines. However many partitions a source asks
  for, as long as size times partitions fits \<open>int64\<close>, every partition opens and can be read to its
  end without an error, and the records of the partitions one after the other are the lines of the file:
  the file cut at its newlines with one trailing carriage return removed, none lost, repeated or
  split where a boundary falls inside a line. At most one call per byte and one more are needed.
\<close>
theorem text_partitions_read_each_line_once:
  assumes "files path = Inr content" "0 < n" "int (length content) * int n < 2 ^ 63" "length content < fuel"
  shows "\<exists>parts. map (\<lambda>p. read_partition fuel files path (int p) (int n) None) [0 ..< n] =
      map (\<lambda>ls. Some (Inr (map StringV ls))) parts \<and> concat parts = file_lines content"
proof -
  let ?s = "\<lambda>p. length content * p div n"
  let ?part = "\<lambda>p. owned (p = n - 1) content (first_start content (?s p)) (?s (Suc p))"
  obtain m where m: "n = Suc m" using assms(2) by (cases n) auto
  have parts: "map (\<lambda>p. read_partition fuel files path (int p) (int n) None) [0 ..< n] =
      map (\<lambda>ls. Some (Inr (map StringV ls))) (map ?part [0 ..< n])"
    using assms by (simp add: read_partition_owned)
  have "map ?part [0 ..< m] = map (\<lambda>p. lines_until content (first_start content (?s p)) (?s (Suc p))) [0 ..< m]"
    by (rule map_cong) (auto simp: owned_def m)
  moreover have "?part m = lines_from content (first_start content (?s m))"
    by (simp add: owned_def m)
  moreover have "concat (map ?part [0 ..< n]) = concat (map ?part [0 ..< m]) @ ?part m"
    by (simp add: m)
  ultimately have "concat (map ?part [0 ..< n]) = file_lines content"
    using concat_owned [of m n content] m by (simp only:)
  then show ?thesis using parts by blast
qed

theorem text_partitions_read_each_line_once_witness:
  "\<exists>parts. map (\<lambda>p. read_partition 8 (\<lambda>_. Inr [CHR ''a'', CHR ''b'', carriage, newline, newline, CHR ''c'', CHR ''d''])
      ''f'' (int p) (int 3) None) [0 ..< 3] = map (\<lambda>ls. Some (Inr (map StringV ls))) parts \<and>
    concat parts = [''ab'', [], ''cd'']"
proof -
  let ?content = "[CHR ''a'', CHR ''b'', carriage, newline, newline, CHR ''c'', CHR ''d'']"
  have "file_lines ?content = [''ab'', [], ''cd'']" by code_simp
  then show ?thesis
    using text_partitions_read_each_line_once [of "\<lambda>_. Inr ?content" "''f''" ?content 3 8] by simp
qed

end
