(* ===== verification/Iterators.thy ===== *)
theory Iterators
  imports Text_Source "HOL-Library.Char_ord" "HOL-Library.List_Lexorder"
begin

text \<open>
  The iterators of a partition: \<open>src/executor/iterator.go\<close>, \<open>src/executor/reduce.go\<close> and the reading
  iterator of \<open>src/executor/shuffle_read.go\<close>. The interface value is a datatype with one constructor per
  implementation, whose arguments are the fields of the struct. \<open>Next\<close> runs the loops of the filter,
  reduce and shuffle iterators with fuel: \<open>None\<close> means that the fuel did not suffice, and
  the theory shows for every finite input that some amount always does.

  A \<open>shuffle.Store\<close> enters through the readers it opens. A reader is the finite sequence of results that
  its \<open>Next\<close> gives before \<open>io.EOF\<close>, with the result of its \<open>Close\<close>.
\<close>

section \<open>Iterators\<close>

record shuffleRecord =
  rec_Key :: string
  rec_Value :: any

record BucketReader =
  br_items :: "(go_error + shuffleRecord) list"
  br_closeErr :: "go_error option"

type_synonym OpenBucket = "MapOutput \<Rightarrow> PartitionID \<Rightarrow> clock \<Rightarrow> (go_error + BucketReader) \<times> clock"

record shuffleState =
  si_store :: OpenBucket
  si_inputs :: InputSnapshot
  si_partition :: PartitionID
  si_next :: nat
  si_reader :: "BucketReader option"
  si_closed :: bool
  si_err :: "go_error option"

datatype Iterator =
    sliceIterator "any list" nat
  | textPartitionIterator textPartition
  | mapIterator Iterator MapFunc
  | filterIterator Iterator FilterFunc
  | pairMapIterator Iterator PairMapFunc
  | valueMapIterator Iterator ValueMapFunc
  | reduceIterator "Iterator option" ReduceFunc "(any list \<times> nat) option" "go_error option" bool
  | shuffleIterator shuffleState

text \<open>The next result of a reader: a record, or an error of which \<open>io.EOF\<close> is one.\<close>

definition reader_Next :: "BucketReader \<Rightarrow> (go_error + shuffleRecord) \<times> BucketReader" where
  "reader_Next r =
     (case br_items r of [] \<Rightarrow> (Inl ErrEOF, r) | x # xs \<Rightarrow> (x, r\<lparr>br_items := xs\<rparr>))"

definition closeReader :: "shuffleState \<Rightarrow> go_error option \<times> shuffleState" where
  "closeReader s =
     (case si_reader s of
        None \<Rightarrow> (None, s)
      | Some reader \<Rightarrow> (br_closeErr reader, s\<lparr>si_reader := None\<rparr>))"

definition shuffle_Close :: "shuffleState \<Rightarrow> go_error option \<times> shuffleState" where
  "shuffle_Close s = closeReader (s\<lparr>si_closed := True\<rparr>)"

fun closeIterator :: "Iterator \<Rightarrow> go_error option \<times> Iterator" where
  "closeIterator (sliceIterator records k) = (None, sliceIterator records k)"
| "closeIterator (textPartitionIterator i) = map_prod id textPartitionIterator (text_Close i)"
| "closeIterator (mapIterator input fn) = map_prod id (\<lambda>i. mapIterator i fn) (closeIterator input)"
| "closeIterator (filterIterator input fn) = map_prod id (\<lambda>i. filterIterator i fn) (closeIterator input)"
| "closeIterator (pairMapIterator input fn) = map_prod id (\<lambda>i. pairMapIterator i fn) (closeIterator input)"
| "closeIterator (valueMapIterator input fn) = map_prod id (\<lambda>i. valueMapIterator i fn) (closeIterator input)"
| "closeIterator (reduceIterator None fn result err closed) = (None, reduceIterator None fn None err True)"
| "closeIterator (reduceIterator (Some input) fn result err closed) =
     (fst (closeIterator input), reduceIterator None fn None err True)"
| "closeIterator (shuffleIterator s) = map_prod id shuffleIterator (shuffle_Close s)"

section \<open>Reading\<close>

definition slice_Next :: "any list \<times> nat \<Rightarrow> clock \<Rightarrow> (go_error + any option) \<times> (any list \<times> nat) \<times> clock" where
  "slice_Next = (\<lambda>(records, k) c.
     case ctx_Err c of
       (Some err, c) \<Rightarrow> (Inl err, (records, k), c)
     | (None, c) \<Rightarrow>
         if k \<ge> length records then (Inr None, (records, k), c)
         else (Inr (Some (records ! k)), (records, Suc k), c))"

definition pair_value :: "ValueMapFunc \<Rightarrow> any \<Rightarrow> go_error + any" where
  "pair_value fn record =
     (case record of
        KeyValueV key val \<Rightarrow> (case fn val of Inl err \<Rightarrow> Inl err | Inr val' \<Rightarrow> Inr (KeyValueV key val'))
      | _ \<Rightarrow> Inl (permanentErrorf ''map-values expected KeyValue''))"

definition pair_record :: "PairMapFunc \<Rightarrow> any \<Rightarrow> go_error + any" where
  "pair_record fn record = (case fn record of Inl err \<Rightarrow> Inl err | Inr (key, val) \<Rightarrow> Inr (KeyValueV key val))"

text \<open>
  The map, pair-map and value-map iterators treat what their input returned in one way: a record goes
  through the function, an error or the end is passed on. The filter iterator continues
  with its input (\<open>Inr\<close>) after a record it drops.
\<close>

definition each_record ::
  "(any \<Rightarrow> go_error + any) \<Rightarrow> (Iterator \<Rightarrow> Iterator) \<Rightarrow> (go_error + any option) \<times> Iterator \<times> clock \<Rightarrow>
   (go_error + any option) \<times> Iterator \<times> clock"
where
  "each_record f rebuild = (\<lambda>(r, input, c).
     (case r of
        Inr (Some record) \<Rightarrow> (case f record of Inl err \<Rightarrow> Inl err | Inr mapped \<Rightarrow> Inr (Some mapped))
      | _ \<Rightarrow> r, rebuild input, c))"

definition filterStep ::
  "FilterFunc \<Rightarrow> (go_error + any option) \<times> Iterator \<times> clock \<Rightarrow>
   ((go_error + any option) \<times> Iterator \<times> clock) + Iterator \<times> clock"
where
  "filterStep fn = (\<lambda>(r, input, c).
     case r of
       Inr (Some record) \<Rightarrow>
         (case fn record of
            Inl err \<Rightarrow> Inl (Inl err, filterIterator input fn, c)
          | Inr keep \<Rightarrow> if keep then Inl (r, filterIterator input fn, c) else Inr (input, c))
     | _ \<Rightarrow> Inl (r, filterIterator input fn, c))"

definition inputError :: "shuffleState \<Rightarrow> go_error \<Rightarrow> clock \<Rightarrow> go_error \<times> clock" where
  "inputError s err c =
     (case ctx_Err c of
        (Some _, c) \<Rightarrow> (case ctx_Cause c of (Some cause, c) \<Rightarrow> (cause, c) | (None, c) \<Rightarrow> (err, c))
      | (None, c) \<Rightarrow>
          (if errors_Is err (ContextError Canceled) \<or> errors_Is err (ContextError DeadlineExceeded) \<or>
              errors_Is err ErrShuffleInput
           then err
           else InputError (mo_Attempt (is_Outputs (si_inputs s) ! si_next s)) (si_partition s) err, c))"

text \<open>\<open>fail\<close> closes the iterator and keeps the joined error for every later call.\<close>

definition shuffle_fail ::
  "go_error \<Rightarrow> shuffleState \<Rightarrow> clock \<Rightarrow> (go_error + any option) \<times> shuffleState \<times> clock"
where
  "shuffle_fail err s c =
     (case shuffle_Close s of
        (closeErr, s) \<Rightarrow>
          let e = WrapError (err # (case closeErr of None \<Rightarrow> [] | Some e \<Rightarrow> [e])) in
          (Inl e, s\<lparr>si_err := Some e\<rparr>, c))"

text \<open>One round of the loop: \<open>Inl\<close> is a return, \<open>Inr\<close> is \<open>continue\<close>.\<close>

definition shuffleStep ::
  "shuffleState \<Rightarrow> clock \<Rightarrow> ((go_error + any option) \<times> shuffleState \<times> clock) + shuffleState \<times> clock"
where
  "shuffleStep s c =
     (case ctx_Cause c of
        (Some err, c) \<Rightarrow> Inl (shuffle_fail err s c)
      | (None, c) \<Rightarrow>
          if si_next s = length (is_Outputs (si_inputs s))
          then Inl (Inr None, s\<lparr>si_closed := True\<rparr>, c)
          else
            case (case si_reader s of
                    Some reader \<Rightarrow> (Inr reader, c)
                  | None \<Rightarrow> si_store s (is_Outputs (si_inputs s) ! si_next s) (si_partition s) c) of
              (Inl err, c) \<Rightarrow> (case inputError s err c of (e, c) \<Rightarrow> Inl (shuffle_fail e s c))
            | (Inr reader, c) \<Rightarrow>
                (case reader_Next reader of
                   (Inr record, reader) \<Rightarrow>
                     Inl (Inr (Some (KeyValueV (rec_Key record) (rec_Value record))),
                          s\<lparr>si_reader := Some reader\<rparr>, c)
                 | (Inl err, reader) \<Rightarrow>
                     if err = ErrEOF then
                       (case closeReader (s\<lparr>si_reader := Some reader\<rparr>) of
                          (Some closeErr, s) \<Rightarrow>
                            (case inputError s closeErr c of (e, c) \<Rightarrow> Inl (shuffle_fail e s c))
                        | (None, s) \<Rightarrow> Inr (s\<lparr>si_next := Suc (si_next s)\<rparr>, c))
                     else (case inputError s err c of
                             (e, c) \<Rightarrow> Inl (shuffle_fail e (s\<lparr>si_reader := Some reader\<rparr>) c))))"

fun shuffleLoop :: "nat \<Rightarrow> shuffleState \<Rightarrow> clock \<Rightarrow> ((go_error + any option) \<times> shuffleState \<times> clock) option" where
  "shuffleLoop 0 s c = None"
| "shuffleLoop (Suc fuel) s c =
     (case shuffleStep s c of Inl result \<Rightarrow> Some result | Inr (s, c) \<Rightarrow> shuffleLoop fuel s c)"

definition shuffle_Next :: "nat \<Rightarrow> shuffleState \<Rightarrow> clock \<Rightarrow> ((go_error + any option) \<times> shuffleState \<times> clock) option" where
  "shuffle_Next fuel s c =
     (case si_err s of
        Some err \<Rightarrow> Some (Inl err, s, c)
      | None \<Rightarrow> if si_closed s then Some (Inr None, s, c) else shuffleLoop fuel s c)"

text \<open>The second half of \<open>reduceRecords\<close>: the records in the order of their keys.\<close>

fun emitKeys :: "(string, any) fmap \<Rightarrow> string list \<Rightarrow> any list \<Rightarrow> clock \<Rightarrow> (go_error + any list) \<times> clock" where
  "emitKeys vals [] records c = (Inr records, c)"
| "emitKeys vals (key # keys) records c =
     (case ctx_Cause c of
        (Some err, c) \<Rightarrow> (Inl err, c)
      | (None, c) \<Rightarrow>
          emitKeys vals keys
            (records @ [KeyValueV key (case fmlookup vals key of None \<Rightarrow> NilV | Some x \<Rightarrow> x)]) c)"

text \<open>One record of the first half.\<close>

definition addRecord :: "string \<Rightarrow> ReduceFunc \<Rightarrow> (string, any) fmap \<Rightarrow> any \<Rightarrow> go_error + (string, any) fmap" where
  "addRecord complaint fn vals record =
     (case record of
        KeyValueV key val \<Rightarrow>
          (case fmlookup vals key of
             None \<Rightarrow> Inr (fmupd key val vals)
           | Some previous \<Rightarrow>
               (case fn previous val of
                  Inl err \<Rightarrow> Inl (WrapError [err])
                | Inr val' \<Rightarrow> Inr (fmupd key val' vals)))
      | _ \<Rightarrow> Inl (permanentErrorf complaint))"

definition reduceComplaint :: string where
  "reduceComplaint = ''reduce-by-key expected KeyValue''"

text \<open>One round of the first loop after its context check: \<open>Inl\<close> leaves the loop.\<close>

definition reduceStep ::
  "ReduceFunc \<Rightarrow> (string, any) fmap \<Rightarrow> (go_error + any option) \<times> Iterator \<times> clock \<Rightarrow>
   ((go_error + (string, any) fmap) \<times> Iterator \<times> clock) + (string, any) fmap \<times> Iterator \<times> clock"
where
  "reduceStep fn vals = (\<lambda>(r, i, c).
     case r of
       Inl err \<Rightarrow> Inl (Inl err, i, c)
     | Inr None \<Rightarrow> Inl (Inr vals, i, c)
     | Inr (Some record) \<Rightarrow>
         (case addRecord reduceComplaint fn vals record of
            Inl err \<Rightarrow> Inl (Inl err, i, c)
          | Inr vals \<Rightarrow> Inr (vals, i, c)))"

text \<open>
  What the first call of a reduce iterator does with the outcome of the aggregation: the input is
  closed, an error is kept for all later calls, and the records are read through a slice iterator.
\<close>

definition finishReduce ::
  "ReduceFunc \<Rightarrow> bool \<Rightarrow> (go_error + (string, any) fmap) \<times> Iterator \<times> clock \<Rightarrow>
   (go_error + any option) \<times> Iterator \<times> clock"
where
  "finishReduce fn closed = (\<lambda>(reduced, i, c).
     case (case reduced of
             Inl e \<Rightarrow> (Inl e, c)
           | Inr vals \<Rightarrow> emitKeys vals (sorted_list_of_fset (fmdom vals)) [] c) of
       (records, c) \<Rightarrow>
         (case errors_Join [case records of Inl e \<Rightarrow> Some e | Inr _ \<Rightarrow> None, fst (closeIterator i)] of
            Some e \<Rightarrow> (Inl e, reduceIterator None fn None (Some e) closed, c)
          | None \<Rightarrow>
              (case slice_Next (case records of Inl _ \<Rightarrow> [] | Inr rs \<Rightarrow> rs, 0) c of
                 (r, sl, c) \<Rightarrow> (r, reduceIterator None fn (Some sl) None closed, c))))"

text \<open>
  \<open>None\<close> is a lack of fuel; a reduce iterator without an input and without a result, which nothing
  constructs, would be a call on a \<open>nil\<close> interface and is \<open>None\<close> too.
\<close>

fun Next :: "nat \<Rightarrow> Iterator \<Rightarrow> clock \<Rightarrow> ((go_error + any option) \<times> Iterator \<times> clock) option"
  and reduceLoop :: "nat \<Rightarrow> Iterator \<Rightarrow> ReduceFunc \<Rightarrow> (string, any) fmap \<Rightarrow> clock \<Rightarrow>
    ((go_error + (string, any) fmap) \<times> Iterator \<times> clock) option"
where
  "Next 0 i c = None"
| "Next (Suc fuel) (sliceIterator records k) c =
     (case slice_Next (records, k) c of (r, (records, k), c) \<Rightarrow> Some (r, sliceIterator records k, c))"
| "Next (Suc fuel) (textPartitionIterator i) c =
     (case text_Next i c of (r, i, c) \<Rightarrow> Some (r, textPartitionIterator i, c))"
| "Next (Suc fuel) (mapIterator input fn) c =
     map_option (each_record fn (\<lambda>i. mapIterator i fn)) (Next fuel input c)"
| "Next (Suc fuel) (filterIterator input fn) c =
     (case Next fuel input c of
        None \<Rightarrow> None
      | Some out \<Rightarrow>
          (case filterStep fn out of
             Inl result \<Rightarrow> Some result
           | Inr (input, c) \<Rightarrow> Next fuel (filterIterator input fn) c))"
| "Next (Suc fuel) (pairMapIterator input fn) c =
     map_option (each_record (pair_record fn) (\<lambda>i. pairMapIterator i fn)) (Next fuel input c)"
| "Next (Suc fuel) (valueMapIterator input fn) c =
     map_option (each_record (pair_value fn) (\<lambda>i. valueMapIterator i fn)) (Next fuel input c)"
| "Next (Suc fuel) (reduceIterator input fn result err closed) c =
     (case err of
        Some e \<Rightarrow> Some (Inl e, reduceIterator input fn result err closed, c)
      | None \<Rightarrow>
          if closed then Some (Inr None, reduceIterator input fn result err closed, c)
          else case result of
            Some sl \<Rightarrow>
              (case slice_Next sl c of
                 (r, sl, c) \<Rightarrow> Some (r, reduceIterator input fn (Some sl) err closed, c))
          | None \<Rightarrow>
              (case input of
                 None \<Rightarrow> None
               | Some i \<Rightarrow> map_option (finishReduce fn closed) (reduceLoop fuel i fn fmempty c)))"
| "Next (Suc fuel) (shuffleIterator s) c =
     map_option (\<lambda>(r, s, c). (r, shuffleIterator s, c)) (shuffle_Next fuel s c)"
| "reduceLoop 0 i fn vals c = None"
| "reduceLoop (Suc fuel) i fn vals c =
     (case ctx_Cause c of
        (Some err, c) \<Rightarrow> Some (Inl err, i, c)
      | (None, c) \<Rightarrow>
          (case Next fuel i c of
             None \<Rightarrow> None
           | Some out \<Rightarrow>
               (case reduceStep fn vals out of
                  Inl result \<Rightarrow> Some result
                | Inr (vals, i, c) \<Rightarrow> reduceLoop fuel i fn vals c)))"

section \<open>Fuel\<close>

lemma shuffleLoop_mono: "shuffleLoop n s c = Some r \<Longrightarrow> n \<le> m \<Longrightarrow> shuffleLoop m s c = Some r"
proof (induction n arbitrary: s c m)
  case (Suc n)
  then obtain k where "m = Suc k" "n \<le> k" by (cases m) auto
  then show ?case using Suc by (cases "shuffleStep s c") auto
qed simp

lemma shuffle_Next_mono: "shuffle_Next n s c = Some r \<Longrightarrow> n \<le> m \<Longrightarrow> shuffle_Next m s c = Some r"
  by (cases "si_err s"; cases "si_closed s") (auto simp: shuffle_Next_def dest: shuffleLoop_mono)

lemma fuel_step:
  assumes "n \<le> m" and N: "\<And>i c r. Next n i c = Some r \<Longrightarrow> Next m i c = Some r"
    and R: "\<And>i fn vals c r. reduceLoop n i fn vals c = Some r \<Longrightarrow> reduceLoop m i fn vals c = Some r"
  shows "Next (Suc n) i c = Some r \<Longrightarrow> Next (Suc m) i c = Some r"
    and "reduceLoop (Suc n) i fn vals c = Some q \<Longrightarrow> reduceLoop (Suc m) i fn vals c = Some q"
proof -
  assume r: "Next (Suc n) i c = Some r"
  show "Next (Suc m) i c = Some r"
  proof (cases i)
    case (mapIterator input fn)
    with r obtain out where out: "Next n input c = Some out" by auto
    then show ?thesis using mapIterator r N [OF out] by simp
  next
    case (pairMapIterator input fn)
    with r obtain out where out: "Next n input c = Some out" by auto
    then show ?thesis using pairMapIterator r N [OF out] by simp
  next
    case (valueMapIterator input fn)
    with r obtain out where out: "Next n input c = Some out" by auto
    then show ?thesis using valueMapIterator r N [OF out] by simp
  next
    case (filterIterator input fn)
    with r obtain out where out: "Next n input c = Some out" by (auto split: option.splits)
    show ?thesis
    proof (cases "filterStep fn out")
      case (Inl result)
      then show ?thesis using filterIterator r out N [OF out] by simp
    next
      case (Inr again)
      obtain input' c' where "again = (input', c')" by (cases again)
      moreover from this Inr have "Next n (filterIterator input' fn) c' = Some r"
        using filterIterator r out by simp
      ultimately show ?thesis using filterIterator Inr N [OF out] N [of "filterIterator input' fn" c' r] by simp
    qed
  next
    case (reduceIterator input fn result err closed)
    show ?thesis
    proof (cases "err = None \<and> \<not> closed \<and> result = None")
      case True
      with r reduceIterator obtain j out where "input = Some j" and out: "reduceLoop n j fn fmempty c = Some out"
        by (cases input) auto
      then show ?thesis using True reduceIterator r R [OF out] by simp
    next
      case False
      then show ?thesis using reduceIterator r by (cases err; cases result) auto
    qed
  next
    case (shuffleIterator s)
    with r obtain out where out: "shuffle_Next n s c = Some out" by auto
    then show ?thesis using shuffleIterator r shuffle_Next_mono [OF out assms(1)] by simp
  qed (use r in simp_all)
next
  assume q: "reduceLoop (Suc n) i fn vals c = Some q"
  obtain e c' where c: "ctx_Cause c = (e, c')" by (cases "ctx_Cause c")
  show "reduceLoop (Suc m) i fn vals c = Some q"
  proof (cases e)
    case None
    with q c obtain out where out: "Next n i c' = Some out" by (auto split: option.splits)
    show ?thesis
    proof (cases "reduceStep fn vals out")
      case (Inl result)
      then show ?thesis using None c q out N [OF out] by simp
    next
      case (Inr again)
      obtain vals' i' c'' where a: "again = (vals', i', c'')" by (cases again)
      with Inr have "reduceLoop n i' fn vals' c'' = Some q" using None c q out by simp
      then show ?thesis using None c Inr a N [OF out] R [of i' fn vals' c'' q] by simp
    qed
  qed (use q c in simp)
qed

lemma fuel_mono:
  "n \<le> m \<Longrightarrow> (\<forall>i c r. Next n i c = Some r \<longrightarrow> Next m i c = Some r) \<and>
   (\<forall>i fn vals c r. reduceLoop n i fn vals c = Some r \<longrightarrow> reduceLoop m i fn vals c = Some r)"
proof (induction n arbitrary: m)
  case (Suc n)
  then obtain k where k: "m = Suc k" "n \<le> k" by (cases m) auto
  from Suc.IH [OF k(2)] fuel_step [OF k(2)] show ?case unfolding k(1) by blast
qed simp

lemma Next_mono: "Next n i c = Some r \<Longrightarrow> n \<le> m \<Longrightarrow> Next m i c = Some r"
  and reduceLoop_mono: "reduceLoop n i fn vals c = Some q \<Longrightarrow> n \<le> m \<Longrightarrow> reduceLoop m i fn vals c = Some q"
  using fuel_mono [of n m] by blast+

declare Next.simps [simp del] reduceLoop.simps [simp del] shuffleLoop.simps [simp del]
lemmas Next_step = Next.simps(2-)

section \<open>What an iterator yields\<close>

text \<open>
  With a context that never ends, an iterator yields a list of records and then either its end or an
  error. An error that iterators on the way wrap and join stands for all the errors of its tree.
\<close>

inductive yields :: "Iterator \<Rightarrow> any list \<Rightarrow> go_error option \<Rightarrow> bool" where
  yields_end: "Next n i None = Some (Inr None, i', None) \<Longrightarrow> fst (closeIterator i') = None \<Longrightarrow> yields i [] None"
| yields_error: "Next n i None = Some (Inl e', i', None) \<Longrightarrow> e \<in> set (error_tree e') \<Longrightarrow> yields i [] (Some e)"
| yields_record: "Next n i None = Some (Inr (Some x), i', None) \<Longrightarrow> yields i' xs e \<Longrightarrow> yields i (x # xs) e"

text \<open>The same as operations on streams, that is lists of records with the error behind them.\<close>

type_synonym stream = "any list \<times> go_error option"

fun map_stream :: "(any \<Rightarrow> go_error + any) \<Rightarrow> any list \<Rightarrow> go_error option \<Rightarrow> stream" where
  "map_stream f [] e = ([], e)"
| "map_stream f (x # xs) e =
     (case f x of Inl err \<Rightarrow> ([], Some err) | Inr y \<Rightarrow> apfst ((#) y) (map_stream f xs e))"

fun filter_stream :: "FilterFunc \<Rightarrow> any list \<Rightarrow> go_error option \<Rightarrow> stream" where
  "filter_stream f [] e = ([], e)"
| "filter_stream f (x # xs) e =
     (case f x of
        Inl err \<Rightarrow> ([], Some err)
      | Inr keep \<Rightarrow> if keep then apfst ((#) x) (filter_stream f xs e) else filter_stream f xs e)"

declare error_tree_self [simp]

lemma yields_same:
  assumes "yields j xs e" "\<And>n. \<exists>m. Next m i None = Next n j None"
  shows "yields i xs e"
  using assms(1)
proof cases
  case (yields_end n i')
  then show ?thesis using assms(2) [of n] by (metis yields.yields_end)
next
  case (yields_error n e' i' err)
  then show ?thesis using assms(2) [of n] by (metis yields.yields_error)
next
  case (yields_record n x i' xs)
  then show ?thesis using assms(2) [of n] by (metis yields.yields_record)
qed

lemma yields_slice: "yields (sliceIterator xs k) (drop k xs) None"
proof (induction "length xs - k" arbitrary: k)
  case 0
  then show ?case by (auto intro!: yields_end [of 1] simp: Next_step slice_Next_def)
next
  case (Suc d)
  then have "yields (sliceIterator xs (Suc k)) (drop (Suc k) xs) None" by simp
  moreover have "Next 1 (sliceIterator xs k) None = Some (Inr (Some (xs ! k)), sliceIterator xs (Suc k), None)"
    using Suc(2) by (simp add: Next_step slice_Next_def)
  ultimately have "yields (sliceIterator xs k) (xs ! k # drop (Suc k) xs) None" by (rule yields_record [rotated])
  then show ?case using Suc(2) by (metis Cons_nth_drop_Suc zero_less_Suc zero_less_diff)
qed

lemma yields_each:
  assumes "yields i xs e"
    and step: "\<And>n j. Next (Suc n) (build j) None = map_option (each_record f build) (Next n j None)"
    and close: "\<And>j. fst (closeIterator (build j)) = fst (closeIterator j)"
  shows "yields (build i) (fst (map_stream f xs e)) (snd (map_stream f xs e))"
  using assms(1)
proof induction
  case (yields_end n i i')
  then have "Next (Suc n) (build i) None = Some (Inr None, build i', None)" by (simp add: step each_record_def)
  then show ?case using yields_end(2) close by (auto intro: yields.yields_end)
next
  case (yields_error n i e' i' e)
  then have "Next (Suc n) (build i) None = Some (Inl e', build i', None)" by (simp add: step each_record_def)
  then show ?case using yields_error(2) by (auto intro: yields.yields_error)
next
  case (yields_record n i x i' xs e)
  show ?case
  proof (cases "f x")
    case (Inl err)
    then have "Next (Suc n) (build i) None = Some (Inl err, build i', None)"
      using yields_record by (simp add: step each_record_def)
    then show ?thesis using Inl by (auto intro: yields.yields_error)
  next
    case (Inr y)
    then have "Next (Suc n) (build i) None = Some (Inr (Some y), build i', None)"
      using yields_record by (simp add: step each_record_def)
    then show ?thesis using Inr yields_record by (auto intro: yields.yields_record)
  qed
qed

lemma yields_map: "yields i xs e \<Longrightarrow> yields (mapIterator i f) (fst (map_stream f xs e)) (snd (map_stream f xs e))"
  by (rule yields_each) (simp_all add: Next_step)

lemma yields_pairMap: "yields i xs e \<Longrightarrow>
    yields (pairMapIterator i f) (fst (map_stream (pair_record f) xs e)) (snd (map_stream (pair_record f) xs e))"
  by (rule yields_each) (simp_all add: Next_step)

lemma yields_valueMap: "yields i xs e \<Longrightarrow>
    yields (valueMapIterator i f) (fst (map_stream (pair_value f) xs e)) (snd (map_stream (pair_value f) xs e))"
  by (rule yields_each) (simp_all add: Next_step)

lemma yields_filter: "yields i xs e \<Longrightarrow> yields (filterIterator i f) (fst (filter_stream f xs e)) (snd (filter_stream f xs e))"
proof (induction rule: yields.induct)
  case (yields_end n i i')
  then have "Next (Suc n) (filterIterator i f) None = Some (Inr None, filterIterator i' f, None)"
    by (simp add: Next_step filterStep_def)
  then show ?case using yields_end(2) by (auto intro: yields.yields_end)
next
  case (yields_error n i e' i' e)
  then have "Next (Suc n) (filterIterator i f) None = Some (Inl e', filterIterator i' f, None)"
    by (simp add: Next_step filterStep_def)
  then show ?case using yields_error(2) by (auto intro: yields.yields_error)
next
  case (yields_record n i x i' xs e)
  show ?case
  proof (cases "f x")
    case (Inl err)
    then have "Next (Suc n) (filterIterator i f) None = Some (Inl err, filterIterator i' f, None)"
      using yields_record by (simp add: Next_step filterStep_def)
    then show ?thesis using Inl by (auto intro: yields.yields_error)
  next
    case (Inr keep)
    show ?thesis
    proof (cases keep)
      case True
      then have "Next (Suc n) (filterIterator i f) None = Some (Inr (Some x), filterIterator i' f, None)"
        using yields_record Inr by (simp add: Next_step filterStep_def)
      then show ?thesis using Inr True yields_record by (auto intro: yields.yields_record)
    next
      case False
      have "\<exists>m. Next m (filterIterator i f) None = Next k (filterIterator i' f) None" for k
      proof (cases "Next k (filterIterator i' f) None")
        case None
        then show ?thesis using Next.simps(1) [of "filterIterator i f" None] by metis
      next
        case (Some r)
        then have "Next (max n k) (filterIterator i' f) None = Some r" "Next (max n k) i None = Some (Inr (Some x), i', None)"
          using yields_record(1) by (auto intro: Next_mono)
        then have "Next (Suc (max n k)) (filterIterator i f) None = Some r"
          using Inr False by (simp add: Next_step filterStep_def)
        then show ?thesis using Some by metis
      qed
      then show ?thesis using yields_same yields_record(3) Inr False by simp
    qed
  qed
qed


lemma text_Next_clock: "snd (snd (text_Next i None)) = None"
  by (simp add: text_Next_def Let_def split: prod.split)

lemma yields_text:
  "text_drain fuel i None = Some (Inr xs) \<Longrightarrow> yields (textPartitionIterator i) xs None"
proof (induction fuel arbitrary: i xs)
  case (Suc fuel)
  obtain r i' where t: "text_Next i None = (r, i', None)" using text_Next_clock [of i] by (cases "text_Next i None") auto
  then have N: "Next 1 (textPartitionIterator i) None = Some (r, textPartitionIterator i', None)"
    by (simp add: Next_step)
  consider "r = Inr None" "xs = []" | x ys where "r = Inr (Some x)" "xs = x # ys" "text_drain fuel i' None = Some (Inr ys)"
    using Suc.prems t
    by (cases r; cases "text_drain fuel i' None"; cases "the (text_drain fuel i' None)") (auto split: option.splits)
  then show ?case
    by cases (use N Suc.IH in \<open>auto intro: yields_record intro!: yields_end simp: text_Close_def\<close>)
qed simp

section \<open>Aggregation\<close>

fun fold_records :: "string \<Rightarrow> ReduceFunc \<Rightarrow> (string, any) fmap \<Rightarrow> any list \<Rightarrow> go_error + (string, any) fmap" where
  "fold_records complaint fn vals [] = Inr vals"
| "fold_records complaint fn vals (x # xs) =
     (case addRecord complaint fn vals x of Inl err \<Rightarrow> Inl err | Inr vals \<Rightarrow> fold_records complaint fn vals xs)"

definition sorted_records :: "(string, any) fmap \<Rightarrow> any list" where
  "sorted_records vals = map (\<lambda>key. KeyValueV key (the (fmlookup vals key))) (sorted_list_of_fset (fmdom vals))"

definition reduce_stream :: "ReduceFunc \<Rightarrow> any list \<Rightarrow> go_error option \<Rightarrow> stream" where
  "reduce_stream fn xs e =
     (case fold_records reduceComplaint fn fmempty xs of
        Inl err \<Rightarrow> ([], Some err)
      | Inr vals \<Rightarrow> (case e of Some err \<Rightarrow> ([], Some err) | None \<Rightarrow> (sorted_records vals, None)))"

lemma emitKeys_all:
  "set keys \<subseteq> fset (fmdom vals) \<Longrightarrow>
   emitKeys vals keys records None = (Inr (records @ map (\<lambda>key. KeyValueV key (the (fmlookup vals key))) keys), None)"
  by (induction keys arbitrary: records) (auto simp: fmlookup_dom_iff)

lemma emitKeys_sorted: "emitKeys vals (sorted_list_of_fset (fmdom vals)) [] None = (Inr (sorted_records vals), None)"
  by (simp add: emitKeys_all sorted_records_def)

lemma yields_reduced: "yields (reduceIterator None fn (Some (xs, k)) None False) (drop k xs) None"
proof (induction "length xs - k" arbitrary: k)
  case 0
  then show ?case by (auto intro!: yields_end [of 1] simp: Next_step slice_Next_def)
next
  case (Suc d)
  then have "yields (reduceIterator None fn (Some (xs, Suc k)) None False) (drop (Suc k) xs) None" by simp
  moreover have "Next 1 (reduceIterator None fn (Some (xs, k)) None False) None =
      Some (Inr (Some (xs ! k)), reduceIterator None fn (Some (xs, Suc k)) None False, None)"
    using Suc(2) by (simp add: Next_step slice_Next_def)
  ultimately have "yields (reduceIterator None fn (Some (xs, k)) None False) (xs ! k # drop (Suc k) xs) None"
    by (rule yields_record [rotated])
  then show ?case using Suc(2) by (metis Cons_nth_drop_Suc zero_less_Suc zero_less_diff)
qed

text \<open>The first loop of \<open>reduceRecords\<close> over an input whose yield is known.\<close>

lemma reduceLoop_yields:
  assumes "yields i xs e"
  shows "\<exists>n i' out. reduceLoop n i fn vals None = Some (out, i', None) \<and>
    (case fold_records reduceComplaint fn vals xs of
       Inl err \<Rightarrow> out = Inl err
     | Inr vals' \<Rightarrow>
         (case e of None \<Rightarrow> out = Inr vals' \<and> fst (closeIterator i') = None
          | Some err \<Rightarrow> \<exists>e'. out = Inl e' \<and> err \<in> set (error_tree e')))"
  using assms
proof (induction arbitrary: vals)
  case (yields_end n i i')
  then have "reduceLoop (Suc n) i fn vals None = Some (Inr vals, i', None)"
    by (simp add: reduceLoop.simps reduceStep_def)
  then show ?case using yields_end(2) by fastforce
next
  case (yields_error n i e' i' e)
  then have "reduceLoop (Suc n) i fn vals None = Some (Inl e', i', None)"
    by (simp add: reduceLoop.simps reduceStep_def)
  then show ?case using yields_error(2) by fastforce
next
  case (yields_record n i x i' xs e)
  show ?case
  proof (cases "addRecord reduceComplaint fn vals x")
    case (Inl err)
    then have "reduceLoop (Suc n) i fn vals None = Some (Inl err, i', None)"
      using yields_record(1) by (simp add: reduceLoop.simps reduceStep_def)
    then show ?thesis using Inl by auto
  next
    case (Inr vals')
    from yields_record.IH [of vals'] obtain k j out where k: "reduceLoop k i' fn vals' None = Some (out, j, None)"
      and spec: "case fold_records reduceComplaint fn vals' xs of Inl err \<Rightarrow> out = Inl err
        | Inr vals'' \<Rightarrow> (case e of None \<Rightarrow> out = Inr vals'' \<and> fst (closeIterator j) = None
          | Some err \<Rightarrow> \<exists>e'. out = Inl e' \<and> err \<in> set (error_tree e'))" by blast
    have "Next (max n k) i None = Some (Inr (Some x), i', None)" "reduceLoop (max n k) i' fn vals' None = Some (out, j, None)"
      using yields_record(1) k by (auto intro: Next_mono reduceLoop_mono)
    then have "reduceLoop (Suc (max n k)) i fn vals None = Some (out, j, None)"
      using Inr by (simp add: reduceLoop.simps(2) reduceStep_def)
    then show ?thesis using spec Inr by auto
  qed
qed

lemma finishReduce_error:
  "\<exists>e i'. finishReduce fn closed (Inl err, i, None) = (Inl e, i', None) \<and> set (error_tree err) \<subseteq> set (error_tree e)"
  by (cases "fst (closeIterator i)") (auto simp: finishReduce_def errors_Join_def map_filter_simps)

lemma yields_reduce:
  assumes "yields i xs e"
  shows "yields (reduceIterator (Some i) fn None None False) (fst (reduce_stream fn xs e)) (snd (reduce_stream fn xs e))"
proof -
  let ?r = "reduceIterator (Some i) fn None None False"
  obtain n i' out where n: "reduceLoop n i fn fmempty None = Some (out, i', None)"
    and spec: "case fold_records reduceComplaint fn fmempty xs of Inl err \<Rightarrow> out = Inl err
       | Inr vals' \<Rightarrow> (case e of None \<Rightarrow> out = Inr vals' \<and> fst (closeIterator i') = None
          | Some err \<Rightarrow> \<exists>e'. out = Inl e' \<and> err \<in> set (error_tree e'))"
    using reduceLoop_yields [OF assms, of fn fmempty] by blast
  have N: "Next (Suc k) ?r None = Some (finishReduce fn False (out, i', None))" if "n \<le> k" for k
    using reduceLoop_mono [OF n that] by (simp add: Next_step)
  have failing: "yields ?r [] (Some err)" if "out = Inl e'" "err \<in> set (error_tree e')" for err e'
    using finishReduce_error [of fn False e' i'] N [of n] that by (auto intro: yields_error)
  show ?thesis
  proof (cases "fold_records reduceComplaint fn fmempty xs")
    case (Inl err)
    then show ?thesis using failing spec by (simp add: reduce_stream_def)
  next
    case (Inr vals)
    show ?thesis
    proof (cases e)
      case (Some err)
      then show ?thesis using failing spec Inr by (auto simp: reduce_stream_def)
    next
      case None
      let ?xs = "sorted_records vals"
      have "finishReduce fn False (out, i', None) =
          (case slice_Next (?xs, 0) None of (r, sl, c) \<Rightarrow> (r, reduceIterator None fn (Some sl) None False, c))"
        using spec Inr None by (simp add: finishReduce_def emitKeys_sorted errors_Join_def map_filter_simps)
      then have same: "Next (Suc k) ?r None = Next (Suc k) (reduceIterator None fn (Some (?xs, 0)) None False) None" if "n \<le> k" for k
        unfolding N [OF that]
        by (cases "slice_Next (?xs, 0) None") (simp add: Next_step)
      have "\<exists>m. Next m ?r None = Next k (reduceIterator None fn (Some (?xs, 0)) None False) None" for k
      proof (cases "Next k (reduceIterator None fn (Some (?xs, 0)) None False) None")
        case None
        then show ?thesis using Next.simps(1) [of ?r None] by metis
      next
        case (Some q)
        then have "Next (Suc (max n k)) (reduceIterator None fn (Some (?xs, 0)) None False) None = Some q"
          by (rule Next_mono) simp
        then show ?thesis using same [of "max n k"] Some by (metis max.cobounded1)
      qed
      then have "yields ?r ?xs None" using yields_same yields_reduced [of fn ?xs 0] by simp
      then show ?thesis using Inr None by (simp add: reduce_stream_def)
    qed
  qed
qed


section \<open>Reading shuffle buckets\<close>

definition record_pair :: "shuffleRecord \<Rightarrow> any" where
  "record_pair r = KeyValueV (rec_Key r) (rec_Value r)"

text \<open>What the buckets of the accepted map outputs contain, in the order of the snapshot.\<close>

fun reader_stream :: "(go_error + shuffleRecord) list \<Rightarrow> go_error option \<Rightarrow> stream" where
  "reader_stream [] closeErr = ([], closeErr)"
| "reader_stream (Inr r # items) closeErr = apfst ((#) (record_pair r)) (reader_stream items closeErr)"
| "reader_stream (Inl e # items) closeErr = ([], if e = ErrEOF then closeErr else Some e)"

definition stream_append :: "stream \<Rightarrow> stream \<Rightarrow> stream" where
  "stream_append s t = (case s of (xs, Some e) \<Rightarrow> (xs, Some e) | (xs, None) \<Rightarrow> apfst ((@) xs) t)"

fun buckets_stream :: "OpenBucket \<Rightarrow> PartitionID \<Rightarrow> MapOutput list \<Rightarrow> stream" where
  "buckets_stream store p [] = ([], None)"
| "buckets_stream store p (output1 # outputs) =
     (case fst (store output1 p None) of
        Inl e \<Rightarrow> ([], Some e)
      | Inr reader \<Rightarrow>
          stream_append (reader_stream (br_items reader) (br_closeErr reader)) (buckets_stream store p outputs))"

definition patient :: "OpenBucket \<Rightarrow> bool" where
  "patient store \<longleftrightarrow> (\<forall>out p. snd (store out p None) = None)"

abbreviation si_outputs :: "shuffleState \<Rightarrow> MapOutput list" where
  "si_outputs s \<equiv> is_Outputs (si_inputs s)"

definition shuffle_stream :: "shuffleState \<Rightarrow> stream" where
  "shuffle_stream s =
     (case si_reader s of
        None \<Rightarrow> buckets_stream (si_store s) (si_partition s) (drop (si_next s) (si_outputs s))
      | Some reader \<Rightarrow>
          stream_append (reader_stream (br_items reader) (br_closeErr reader))
            (buckets_stream (si_store s) (si_partition s) (drop (Suc (si_next s)) (si_outputs s))))"

lemma inputError_tree: "\<exists>e. inputError s err None = (e, None) \<and> err \<in> set (error_tree e)"
  by (simp add: inputError_def)

lemma shuffle_fail_tree: "\<exists>e s'. shuffle_fail err s None = (Inl e, s', None) \<and> set (error_tree err) \<subseteq> set (error_tree e)"
  by (auto simp: shuffle_fail_def Let_def split: prod.split)

lemma Next_shuffle:
  "si_err s = None \<Longrightarrow> \<not> si_closed s \<Longrightarrow>
   Next (Suc (Suc n)) (shuffleIterator s) None =
     (case shuffleStep s None of
        Inl (r, s', c) \<Rightarrow> Some (r, shuffleIterator s', c)
      | Inr (s', c) \<Rightarrow> map_option (\<lambda>(r, s, c). (r, shuffleIterator s, c)) (shuffleLoop n s' c))"
  by (simp add: Next_step shuffle_Next_def shuffleLoop.simps split: sum.split)

lemma yields_shuffle_error:
  assumes "si_err s = None" "\<not> si_closed s"
    "shuffleStep s None = (case inputError s' err None of (e, c) \<Rightarrow> Inl (shuffle_fail e s'' c))"
  shows "yields (shuffleIterator s) [] (Some err)"
proof -
  obtain e where e: "inputError s' err None = (e, None)" "err \<in> set (error_tree e)" using inputError_tree by blast
  obtain e' t where f: "shuffle_fail e s'' None = (Inl e', t, None)" "set (error_tree e) \<subseteq> set (error_tree e')"
    using shuffle_fail_tree by blast
  have "Next 2 (shuffleIterator s) None = Some (Inl e', shuffleIterator t, None)"
    using Next_shuffle [OF assms(1,2), of 0] assms(3) e f by (simp add: numeral_2_eq_2)
  then show ?thesis using e f by (auto intro: yields_error)
qed

lemma yields_shuffle_continue:
  assumes "si_err s = None" "\<not> si_closed s" "shuffleStep s None = Inr (s', None)" "si_err s' = None" "\<not> si_closed s'"
    and "yields (shuffleIterator s') xs e"
  shows "yields (shuffleIterator s) xs e"
proof (rule yields_same [OF assms(6)])
  fix n
  show "\<exists>m. Next m (shuffleIterator s) None = Next n (shuffleIterator s') None"
  proof (cases n)
    case 0
    then show ?thesis by (metis Next.simps(1))
  next
    case (Suc k)
    have "Next (Suc (Suc k)) (shuffleIterator s) None = Next (Suc k) (shuffleIterator s') None"
      using Next_shuffle [OF assms(1,2), of k] assms(3,4,5) by (simp add: Next_step shuffle_Next_def)
    then show ?thesis using Suc by blast
  qed
qed


definition reading :: "shuffleState \<Rightarrow> bool" where
  "reading s \<longleftrightarrow> patient (si_store s) \<and> si_err s = None \<and> \<not> si_closed s \<and> si_next s \<le> length (si_outputs s) \<and>
     (si_reader s \<noteq> None \<longrightarrow> si_next s < length (si_outputs s))"

lemma inputError_reader [simp]: "inputError (s\<lparr>si_reader := r\<rparr>) err c = inputError s err c"
  by (cases "ctx_Err c"; cases "fst (ctx_Err c)") (simp_all add: inputError_def)

lemma stream_append_Cons: "stream_append (apfst ((#) x) a) b = apfst ((#) x) (stream_append a b)"
  by (cases a; cases b; cases "snd a") (simp_all add: stream_append_def)

lemma yields_bucket_end:
  assumes "reading s" "si_reader s = Some reader" "reader_Next reader = (Inl ErrEOF, reader')"
    and "reader_stream (br_items reader) (br_closeErr reader) = ([], br_closeErr reader)"
    and later: "\<And>t. reading t \<Longrightarrow> si_next t = Suc (si_next s) \<Longrightarrow> si_reader t = None \<Longrightarrow> si_inputs t = si_inputs s \<Longrightarrow>
      yields (shuffleIterator t) (fst (shuffle_stream t)) (snd (shuffle_stream t))"
  shows "yields (shuffleIterator s) (fst (shuffle_stream s)) (snd (shuffle_stream s))"
proof -
  have close: "br_closeErr reader' = br_closeErr reader"
    using assms(3) by (auto simp: reader_Next_def split: list.splits)
  show ?thesis
  proof (cases "br_closeErr reader")
    case (Some err)
    then have "shuffleStep s None = (case inputError s err None of (e, c) \<Rightarrow> Inl (shuffle_fail e (s\<lparr>si_reader := None\<rparr>) c))"
      using assms(1-3) close by (simp add: shuffleStep_def closeReader_def reading_def)
    then have "yields (shuffleIterator s) [] (Some err)"
      using assms(1) by (intro yields_shuffle_error) (auto simp: reading_def)
    then show ?thesis using assms(2,4) Some by (simp add: shuffle_stream_def stream_append_def)
  next
    case None
    let ?t = "s\<lparr>si_reader := None, si_next := Suc (si_next s)\<rparr>"
    have step: "shuffleStep s None = Inr (?t, None)"
      using assms(1-3) None close by (simp add: shuffleStep_def closeReader_def reading_def)
    have t: "reading ?t" using assms(1,2) by (auto simp: reading_def)
    have "shuffle_stream ?t = shuffle_stream s"
      using assms(2,4) None by (simp add: shuffle_stream_def stream_append_def apfst_def map_prod_def split: prod.split)
    then have "yields (shuffleIterator ?t) (fst (shuffle_stream s)) (snd (shuffle_stream s))"
      using later [OF t] by simp
    then show ?thesis using assms(1) t step by (intro yields_shuffle_continue [of s ?t]) (auto simp: reading_def)
  qed
qed

lemma yields_open_reader:
  assumes "reading s" "si_reader s = Some reader"
    and "\<And>t. reading t \<Longrightarrow> si_next t = Suc (si_next s) \<Longrightarrow> si_reader t = None \<Longrightarrow> si_inputs t = si_inputs s \<Longrightarrow>
      yields (shuffleIterator t) (fst (shuffle_stream t)) (snd (shuffle_stream t))"
  shows "yields (shuffleIterator s) (fst (shuffle_stream s)) (snd (shuffle_stream s))"
  using assms
proof (induction "br_items reader" arbitrary: reader s)
  case Nil
  have "reader_Next reader = (Inl ErrEOF, reader)" by (simp add: reader_Next_def flip: Nil(1))
  then show ?case by (rule yields_bucket_end [OF Nil.prems(1,2) _ _ Nil.prems(3)]) (simp_all flip: Nil(1))
next
  case (Cons item items)
  let ?rest = "reader\<lparr>br_items := items\<rparr>"
  have R: "reader_Next reader = (item, ?rest)" by (simp add: reader_Next_def flip: Cons(2))
  show ?case
  proof (cases item)
    case (Inr r)
    let ?t = "s\<lparr>si_reader := Some ?rest\<rparr>"
    have "yields (shuffleIterator ?t) (fst (shuffle_stream ?t)) (snd (shuffle_stream ?t))"
    proof (rule Cons.hyps(1) [of ?rest])
      show "reading ?t" using Cons.prems(1,2) by (simp add: reading_def)
      show "yields (shuffleIterator u) (fst (shuffle_stream u)) (snd (shuffle_stream u))"
        if "reading u" "si_next u = Suc (si_next ?t)" "si_reader u = None" "si_inputs u = si_inputs ?t" for u
        using Cons.prems(3) [OF that(1)] that by simp
    qed simp_all
    moreover have "Next 2 (shuffleIterator s) None = Some (Inr (Some (record_pair r)), shuffleIterator ?t, None)"
      using Cons.prems(1,2) Inr R Next_shuffle [of s 0]
      by (simp add: numeral_2_eq_2 reading_def shuffleStep_def record_pair_def)
    ultimately have "yields (shuffleIterator s) (record_pair r # fst (shuffle_stream ?t)) (snd (shuffle_stream ?t))"
      by (rule yields_record [rotated])
    moreover have "shuffle_stream s = apfst ((#) (record_pair r)) (shuffle_stream ?t)"
      using Cons.prems(2) Inr by (simp add: shuffle_stream_def stream_append_Cons flip: Cons(2))
    ultimately show ?thesis by simp
  next
    case (Inl e)
    show ?thesis
    proof (cases "e = ErrEOF")
      case True
      then have "reader_Next reader = (Inl ErrEOF, ?rest)" using Inl R by simp
      then show ?thesis
        by (rule yields_bucket_end [OF Cons.prems(1,2) _ _ Cons.prems(3)]) (simp_all add: Inl True flip: Cons(2))
    next
      case False
      then have "shuffleStep s None = (case inputError s e None of (e, c) \<Rightarrow> Inl (shuffle_fail e (s\<lparr>si_reader := Some ?rest\<rparr>) c))"
        using Cons.prems(1,2) Inl R by (simp add: shuffleStep_def reading_def)
      then have "yields (shuffleIterator s) [] (Some e)"
        using Cons.prems(1) by (intro yields_shuffle_error) (auto simp: reading_def)
      then show ?thesis using Cons.prems(2) Inl False
        by (simp add: shuffle_stream_def stream_append_def flip: Cons(2))
    qed
  qed
qed

lemma yields_shuffle:
  assumes "reading s" "si_reader s = None"
  shows "yields (shuffleIterator s) (fst (shuffle_stream s)) (snd (shuffle_stream s))"
  using assms
proof (induction "length (si_outputs s) - si_next s" arbitrary: s)
  case 0
  then have n: "si_next s = length (si_outputs s)" by (simp add: reading_def)
  then have "Next 2 (shuffleIterator s) None = Some (Inr None, shuffleIterator (s\<lparr>si_closed := True\<rparr>), None)"
    using 0 Next_shuffle [of s 0] by (simp add: numeral_2_eq_2 reading_def shuffleStep_def)
  then have "yields (shuffleIterator s) [] None"
    using 0 by (intro yields_end) (auto simp: shuffle_Close_def closeReader_def)
  then show ?case using 0 n by (simp add: shuffle_stream_def)
next
  case (Suc d)
  let ?out = "si_outputs s ! si_next s"
  have less: "si_next s < length (si_outputs s)" using Suc(2) by simp
  then have drop: "drop (si_next s) (si_outputs s) = ?out # drop (Suc (si_next s)) (si_outputs s)"
    by (simp add: Cons_nth_drop_Suc)
  obtain res where store: "si_store s ?out (si_partition s) None = (res, None)"
    using Suc.prems(1) by (metis reading_def patient_def prod.collapse)
  show ?case
  proof (cases res)
    case (Inl e)
    then have "shuffleStep s None = (case inputError s e None of (e, c) \<Rightarrow> Inl (shuffle_fail e s c))"
      using Suc.prems less store by (simp add: shuffleStep_def reading_def)
    then have "yields (shuffleIterator s) [] (Some e)"
      using Suc.prems(1) by (intro yields_shuffle_error) (auto simp: reading_def)
    then show ?thesis using Suc.prems(2) Inl store drop by (simp add: shuffle_stream_def)
  next
    case (Inr reader)
    let ?t = "s\<lparr>si_reader := Some reader\<rparr>"
    have t: "reading ?t" using Suc.prems(1) less by (simp add: reading_def)
    have "yields (shuffleIterator ?t) (fst (shuffle_stream ?t)) (snd (shuffle_stream ?t))"
    proof (rule yields_open_reader [OF t])
      fix u assume "reading u" "si_next u = Suc (si_next ?t)" "si_reader u = None" "si_inputs u = si_inputs ?t"
      then show "yields (shuffleIterator u) (fst (shuffle_stream u)) (snd (shuffle_stream u))"
        using Suc(1) [of u] Suc(2) by simp
    qed simp
    moreover have "shuffle_stream ?t = shuffle_stream s"
      using Suc.prems(2) Inr store drop by (simp add: shuffle_stream_def)
    moreover have "shuffleStep s None = shuffleStep ?t None"
      using Suc.prems less store Inr
      by (cases "reader_Next reader"; cases "fst (reader_Next reader)") (simp_all add: shuffleStep_def reading_def)
    then have "Next (Suc (Suc n)) (shuffleIterator s) None = Next (Suc (Suc n)) (shuffleIterator ?t) None" for n
      using Next_shuffle [of s n] Next_shuffle [of ?t n] Suc.prems(1) by (simp add: reading_def)
    then have "\<exists>m. Next m (shuffleIterator s) None = Next n (shuffleIterator ?t) None" for n
    proof (cases "Next n (shuffleIterator ?t) None")
      case None
      then show ?thesis by (metis Next.simps(1))
    next
      case (Some r)
      then have "Next (Suc (Suc n)) (shuffleIterator ?t) None = Some r" by (rule Next_mono) simp
      then show ?thesis using Some \<open>\<And>n. Next (Suc (Suc n)) (shuffleIterator s) None = _\<close> by metis
    qed
    ultimately show ?thesis using yields_same [of "shuffleIterator ?t" _ _ "shuffleIterator s"] by simp
  qed
qed

end
