(* ===== verification/Task_Runner.thy ===== *)
theory Task_Runner
  imports Iterators
begin

text \<open>
  The execution of one task attempt: \<open>src/executor/pipeline.go\<close>, the checks of
  \<open>src/executor/shuffle_read.go\<close>, \<open>src/executor/shuffle_map.go\<close> and \<open>src/executor/local_runner.go\<close>.

  A \<open>shuffle.Store\<close> is a record of its operations on a writer state of any type. Functions with loops take
  fuel; their result \<open>None\<close> is a lack of fuel, a wait that does not end, or the use of a \<open>nil\<close>
  value that \<open>RunTask\<close> has excluded before.
\<close>

section \<open>Sources and stores\<close>

type_synonym SourceReader = "string \<Rightarrow> PartitionID \<Rightarrow> int \<Rightarrow> clock \<Rightarrow> (go_error + Iterator option) \<times> clock"

definition TextSourceReader :: "(string \<Rightarrow> go_error + string) \<Rightarrow> SourceReader" where
  "TextSourceReader files path p n c =
     map_prod (map_sum id (\<lambda>i. Some (textPartitionIterator i))) id (text_Open files path p n c)"

record 'w Store =
  st_Begin :: "AttemptIdentity \<Rightarrow> int \<Rightarrow> int \<Rightarrow> clock \<Rightarrow> (go_error + 'w) \<times> clock"
  st_Write :: "shuffleRecord \<Rightarrow> 'w \<Rightarrow> clock \<Rightarrow> go_error option \<times> 'w \<times> clock"
  st_Publish :: "'w \<Rightarrow> clock \<Rightarrow> (go_error + MapOutput) \<times> 'w \<times> clock"
  st_Abort :: "'w \<Rightarrow> go_error option \<times> 'w"
  st_OpenBucket :: OpenBucket

section \<open>Building the iterator of a task\<close>

definition operator_iterator :: "FunctionRegistry \<Rightarrow> OperatorSpec \<Rightarrow> Iterator option \<Rightarrow> go_error + Iterator" where
  "operator_iterator registry operator input =
     (let fid = op_FunctionID operator; missing = Inl (permanentErrorf ''operator has no input iterator'') in
      case op_Kind operator of
        OpMap \<Rightarrow>
          (case input of None \<Rightarrow> missing | Some i \<Rightarrow>
             (case Map fid registry of Inl err \<Rightarrow> Inl err | Inr fn \<Rightarrow> Inr (mapIterator i fn)))
      | OpFilter \<Rightarrow>
          (case input of None \<Rightarrow> missing | Some i \<Rightarrow>
             (case Filter fid registry of Inl err \<Rightarrow> Inl err | Inr fn \<Rightarrow> Inr (filterIterator i fn)))
      | OpMapToPair \<Rightarrow>
          (case input of None \<Rightarrow> missing | Some i \<Rightarrow>
             (case PairMap fid registry of Inl err \<Rightarrow> Inl err | Inr fn \<Rightarrow> Inr (pairMapIterator i fn)))
      | OpMapValues \<Rightarrow>
          (case input of None \<Rightarrow> missing | Some i \<Rightarrow>
             (case ValueMap fid registry of Inl err \<Rightarrow> Inl err | Inr fn \<Rightarrow> Inr (valueMapIterator i fn)))
      | OpReduceByKey \<Rightarrow>
          (case input of None \<Rightarrow> Inl (permanentErrorf ''reduce-by-key has no input iterator'') | Some i \<Rightarrow>
             (case Reduce fid registry of
                Inl err \<Rightarrow> Inl err
              | Inr fn \<Rightarrow> Inr (reduceIterator (Some i) fn None None False)))
      | _ \<Rightarrow> Inl (permanentErrorf ''operator is not supported by the executor''))"

text \<open>
  The loop over the operations, with the current iterator. It returns the error together with the
  iterator that the deferred function closes.
\<close>

fun buildLoop ::
  "TaskExecution \<Rightarrow> FunctionRegistry \<Rightarrow> SourceReader \<Rightarrow> OpenBucket option \<Rightarrow> StageOperation list \<Rightarrow> Iterator option \<Rightarrow>
   clock \<Rightarrow> ((go_error + Iterator option) \<times> Iterator option \<times> clock) option"
where
  "buildLoop e registry sources store [] i c = Some (Inr i, i, c)"
| "buildLoop e registry sources store (operation # rest) i c =
     (if so_Kind operation = StageOperationShuffleRead then
        (case (store, te_ShuffleInputs e) of
           (Some open_bucket, Some inputs) \<Rightarrow>
             buildLoop e registry sources store rest
               (Some (shuffleIterator \<lparr>si_store = open_bucket, si_inputs = InputSnapshot_Clone inputs,
                  si_partition = task_PartitionID (te_Task e), si_next = 0, si_reader = None,
                  si_closed = False, si_err = None\<rparr>)) c
         | _ \<Rightarrow> None)
      else case (so_Kind operation, so_RDD operation) of
        (StageOperationRDD, Some rdd) \<Rightarrow>
          if op_Kind (ro_Operator rdd) = OpSource then
            (case i of
               Some _ \<Rightarrow> Some (Inl (permanentErrorf ''source must be the first pipeline operation''), i, c)
             | None \<Rightarrow>
                 (case sources (op_SourcePath (ro_Operator rdd)) (task_PartitionID (te_Task e))
                         (task_NumPartitions (te_Task e)) c of
                    (Inl err, c) \<Rightarrow> Some (Inl err, None, c)
                  | (Inr None, c) \<Rightarrow> Some (Inl (permanentErrorf ''source reader returned a nil iterator''), None, c)
                  | (Inr (Some opened), c) \<Rightarrow> buildLoop e registry sources store rest (Some opened) c))
          else
            (case operator_iterator registry (ro_Operator rdd) i of
               Inl err \<Rightarrow> Some (Inl err, i, c)
             | Inr next_i \<Rightarrow> buildLoop e registry sources store rest (Some next_i) c)
      | _ \<Rightarrow> Some (Inl (permanentErrorf ''invalid stage operation''), i, c))"

definition join_close :: "go_error \<Rightarrow> Iterator option \<Rightarrow> go_error" where
  "join_close err i =
     (case errors_Join [Some err, Option.bind i (\<lambda>i. fst (closeIterator i))] of Some e \<Rightarrow> e | None \<Rightarrow> err)"

definition buildTaskIterator ::
  "TaskExecution \<Rightarrow> FunctionRegistry \<Rightarrow> SourceReader \<Rightarrow> OpenBucket option \<Rightarrow> clock \<Rightarrow> ((go_error + Iterator) \<times> clock) option"
where
  "buildTaskIterator e registry sources store c =
     (case buildLoop e registry sources store (task_Operations (te_Task e)) None c of
        None \<Rightarrow> None
      | Some (Inl err, i, c) \<Rightarrow> Some (Inl (join_close err i), c)
      | Some (Inr None, _, c) \<Rightarrow> Some (Inl (join_close (permanentErrorf ''task has no operations'') None), c)
      | Some (Inr (Some i), _, c) \<Rightarrow> Some (Inr i, c))"

section \<open>Checks of a task that reads a shuffle\<close>

fun validateOperations :: "nat \<Rightarrow> StageOperation list \<Rightarrow> ShuffleReadSpec option \<Rightarrow> go_error + ShuffleReadSpec option" where
  "validateOperations index [] read = Inr read"
| "validateOperations index (operation # rest) read =
     (if so_Kind operation = StageOperationShuffleRead \<and>
         (index \<noteq> 0 \<or> so_ShuffleRead operation = None \<or> so_RDD operation \<noteq> None)
      then Inl (permanentErrorf ''shuffle read must be the first operation with a read specification'')
      else
        let read = (if so_Kind operation = StageOperationShuffleRead then so_ShuffleRead operation else read) in
        case so_RDD operation of
          Some rdd \<Rightarrow>
            if op_Kind (ro_Operator rdd) = OpReduceByKey \<and> (read = None \<or> index \<noteq> 1)
            then Inl (permanentErrorf ''reduce-by-key must immediately follow shuffle read'')
            else validateOperations (Suc index) rest read
        | None \<Rightarrow> validateOperations (Suc index) rest read)"

definition followed_by_reduce :: "StageOperation list \<Rightarrow> bool" where
  "followed_by_reduce operations \<longleftrightarrow>
     (case operations of
        _ # operation # _ \<Rightarrow>
          so_Kind operation = StageOperationRDD \<and>
          (case so_RDD operation of Some rdd \<Rightarrow> op_Kind (ro_Operator rdd) = OpReduceByKey | None \<Rightarrow> False)
      | _ \<Rightarrow> False)"

definition validateShuffleExecution :: "TaskExecution \<Rightarrow> bool \<Rightarrow> go_error option" where
  "validateShuffleExecution e has_store =
     (let task = te_Task e in
      case validateOperations 0 (task_Operations task) None of
        Inl err \<Rightarrow> Some err
      | Inr None \<Rightarrow>
          if te_ShuffleInputs e \<noteq> None
          then Some (permanentErrorf ''task without shuffle read must not have shuffle inputs'') else None
      | Inr (Some read) \<Rightarrow>
          if task_StageKind task \<noteq> StageResult \<or> task_ShuffleWrite task \<noteq> None \<or> task_FinalAction task = None
          then Some (permanentErrorf ''shuffle read requires a result task'')
          else if \<not> followed_by_reduce (task_Operations task)
          then Some (permanentErrorf ''shuffle read must be followed by reduce-by-key'')
          else case te_ShuffleInputs e of
            None \<Rightarrow> Some (permanentErrorf ''shuffle read requires a store and input snapshot'')
          | Some inputs \<Rightarrow>
              if \<not> has_store then Some (permanentErrorf ''shuffle read requires a store and input snapshot'')
              else if InputSnapshot_Validate inputs \<noteq> None then Some (ErrorText ''invalid shuffle input'')
              else if is_RunID inputs \<noteq> te_RunID e \<or> is_JobID inputs \<noteq> te_JobID e \<or> is_ShuffleID inputs \<noteq> sr_ShuffleID read
              then Some (permanentErrorf ''shuffle input does not match task run, job or shuffle'')
              else if ps_Kind (sr_Partitioner read) \<noteq> PartitionerHash \<or>
                      ps_NumPartitions (sr_Partitioner read) \<noteq> is_NumReducePartitions inputs \<or>
                      task_NumPartitions task \<noteq> is_NumReducePartitions inputs \<or>
                      task_PartitionID task < 0 \<or> task_PartitionID task \<ge> task_NumPartitions task
              then Some (permanentErrorf ''shuffle input does not match task partitioning'')
              else None)"

section \<open>Result tasks\<close>

record partitionResult =
  pr_records :: "any list"
  pr_count :: int

fun resultLoop ::
  "nat \<Rightarrow> ActionKind \<Rightarrow> Iterator \<Rightarrow> clock \<Rightarrow> partitionResult \<Rightarrow> ((go_error + partitionResult) \<times> Iterator \<times> clock) option"
where
  "resultLoop 0 kind i c result = None"
| "resultLoop (Suc fuel) kind i c result =
     (case Next fuel i c of
        None \<Rightarrow> None
      | Some (Inl err, i, c) \<Rightarrow> Some (Inl err, i, c)
      | Some (Inr None, i, c) \<Rightarrow> Some (Inr result, i, c)
      | Some (Inr (Some record), i, c) \<Rightarrow>
          (case kind of
             ActionCollect \<Rightarrow> resultLoop fuel kind i c (result\<lparr>pr_records := pr_records result @ [record]\<rparr>)
           | ActionCount \<Rightarrow> resultLoop fuel kind i c (result\<lparr>pr_count := to_int64 (pr_count result + 1)\<rparr>)
           | ActionKindOther _ \<Rightarrow> Some (Inl (permanentErrorf ''unsupported action''), i, c)))"

definition zeroResult :: partitionResult where
  "zeroResult = \<lparr>pr_records = [], pr_count = 0\<rparr>"

definition runTask ::
  "nat \<Rightarrow> FunctionRegistry \<Rightarrow> SourceReader \<Rightarrow> OpenBucket option \<Rightarrow> TaskExecution \<Rightarrow> clock \<Rightarrow>
   ((go_error + partitionResult) \<times> clock) option"
where
  "runTask fuel registry sources store e c =
     (let task = te_Task e in
      case task_FinalAction task of
        None \<Rightarrow> Some (Inl (permanentErrorf ''result task requires a result stage and final action''), c)
      | Some action \<Rightarrow>
          if task_StageKind task \<noteq> StageResult
          then Some (Inl (permanentErrorf ''result task requires a result stage and final action''), c)
          else if task_ShuffleWrite task \<noteq> None
          then Some (Inl (permanentErrorf ''result task must not have a shuffle write''), c)
          else case buildTaskIterator e registry sources store c of
            None \<Rightarrow> None
          | Some (Inl err, c) \<Rightarrow> Some (Inl err, c)
          | Some (Inr i, c) \<Rightarrow>
              (case resultLoop fuel (act_Kind action) i c zeroResult of
                 None \<Rightarrow> None
               | Some (result, i, c) \<Rightarrow>
                   (case errors_Join [case result of Inl err \<Rightarrow> Some err | Inr _ \<Rightarrow> None, fst (closeIterator i)] of
                      Some err \<Rightarrow> Some (Inl err, c)
                    | None \<Rightarrow> Some (result, c))))"

section \<open>Shuffle-map tasks\<close>

definition writeComplaint :: string where
  "writeComplaint = ''shuffle write expected KeyValue''"

text \<open>The reading loop of \<open>writeShuffleRecords\<close>: records are written one by one, or combined by key.\<close>

fun writeLoop ::
  "nat \<Rightarrow> 'w Store \<Rightarrow> ReduceFunc option \<Rightarrow> Iterator \<Rightarrow> 'w \<Rightarrow> (string, any) fmap \<Rightarrow> clock \<Rightarrow>
   ((go_error + (string, any) fmap) \<times> Iterator \<times> 'w \<times> clock) option"
where
  "writeLoop 0 store reduce i w combined c = None"
| "writeLoop (Suc fuel) store reduce i w combined c =
     (case ctx_Cause c of
        (Some err, c) \<Rightarrow> Some (Inl err, i, w, c)
      | (None, c) \<Rightarrow>
          (case Next fuel i c of
             None \<Rightarrow> None
           | Some (Inl err, i, c) \<Rightarrow> Some (Inl err, i, w, c)
           | Some (Inr None, i, c) \<Rightarrow> Some (Inr combined, i, w, c)
           | Some (Inr (Some record), i, c) \<Rightarrow>
               (case (record, reduce) of
                  (KeyValueV key val, None) \<Rightarrow>
                    (case st_Write store \<lparr>rec_Key = key, rec_Value = val\<rparr> w c of
                       (Some err, w, c) \<Rightarrow> Some (Inl err, i, w, c)
                     | (None, w, c) \<Rightarrow> writeLoop fuel store reduce i w combined c)
                | (KeyValueV key val, Some fn) \<Rightarrow>
                    (case addRecord writeComplaint fn combined record of
                       Inl err \<Rightarrow> Some (Inl err, i, w, c)
                     | Inr combined \<Rightarrow> writeLoop fuel store reduce i w combined c)
                | _ \<Rightarrow> Some (Inl (permanentErrorf writeComplaint), i, w, c))))"

fun writeKeys :: "'w Store \<Rightarrow> (string, any) fmap \<Rightarrow> string list \<Rightarrow> 'w \<Rightarrow> clock \<Rightarrow> go_error option \<times> 'w \<times> clock" where
  "writeKeys store combined [] w c = (None, w, c)"
| "writeKeys store combined (key # keys) w c =
     (case ctx_Cause c of
        (Some err, c) \<Rightarrow> (Some err, w, c)
      | (None, c) \<Rightarrow>
          (case st_Write store
                  \<lparr>rec_Key = key, rec_Value = (case fmlookup combined key of None \<Rightarrow> NilV | Some x \<Rightarrow> x)\<rparr> w c of
             (Some err, w, c) \<Rightarrow> (Some err, w, c)
           | (None, w, c) \<Rightarrow> writeKeys store combined keys w c))"

definition writeShuffleRecords ::
  "nat \<Rightarrow> 'w Store \<Rightarrow> ReduceFunc option \<Rightarrow> Iterator \<Rightarrow> 'w \<Rightarrow> clock \<Rightarrow> (go_error option \<times> Iterator \<times> 'w \<times> clock) option"
where
  "writeShuffleRecords fuel store reduce i w c =
     (case writeLoop fuel store reduce i w fmempty c of
        None \<Rightarrow> None
      | Some (Inl err, i, w, c) \<Rightarrow> Some (Some err, i, w, c)
      | Some (Inr combined, i, w, c) \<Rightarrow>
          (case writeKeys store combined (sorted_list_of_fset (fmdom combined)) w c of
             (err, w, c) \<Rightarrow> Some (err, i, w, c)))"

definition attempt_identity :: "TaskExecution \<Rightarrow> ShuffleWriteSpec \<Rightarrow> AttemptIdentity" where
  "attempt_identity e write =
     \<lparr>ai_RunID = te_RunID e, ai_JobID = te_JobID e, ai_ShuffleID = sw_ShuffleID write,
      ai_StageID = task_StageID (te_Task e), ai_StageAttemptID = tai_StageAttemptID (te_Attempt e),
      ai_TaskID = task_ID (te_Task e), ai_TaskAttemptID = tai_ID (te_Attempt e),
      ai_MapPartitionID = task_PartitionID (te_Task e)\<rparr>"

text \<open>From the iterator to the published output, before the deferred \<open>Abort\<close>.\<close>

definition writeAndPublish ::
  "nat \<Rightarrow> 'w Store \<Rightarrow> ReduceFunc option \<Rightarrow> TaskExecution \<Rightarrow> FunctionRegistry \<Rightarrow> SourceReader \<Rightarrow> 'w \<Rightarrow> clock \<Rightarrow>
   ((go_error + MapOutput) \<times> 'w \<times> clock) option"
where
  "writeAndPublish fuel store reduce e registry sources w c =
     (case buildTaskIterator e registry sources (Some (st_OpenBucket store)) c of
        None \<Rightarrow> None
      | Some (Inl err, c) \<Rightarrow> Some (Inl err, w, c)
      | Some (Inr i, c) \<Rightarrow>
          (case writeShuffleRecords fuel store reduce i w c of
             None \<Rightarrow> None
           | Some (err, i, w, c) \<Rightarrow>
               (case errors_Join [err, fst (closeIterator i)] of
                  Some err \<Rightarrow> Some (Inl err, w, c)
                | None \<Rightarrow>
                    (case ctx_Cause c of
                       (Some err, c) \<Rightarrow> Some (Inl err, w, c)
                     | (None, c) \<Rightarrow>
                         (case st_Publish store w c of
                            (Inl err, w, c) \<Rightarrow> Some (Inl err, w, c)
                          | (Inr published, w, c) \<Rightarrow>
                              (case ctx_Cause c of
                                 (Some err, c) \<Rightarrow> Some (Inl err, w, c)
                               | (None, c) \<Rightarrow> Some (Inr published, w, c)))))))"

definition after_abort :: "go_error option \<Rightarrow> go_error + MapOutput \<Rightarrow> go_error + TaskOutput" where
  "after_abort abortErr result =
     (case result of
        Inl err \<Rightarrow>
          (case abortErr of
             None \<Rightarrow> Inl err
           | Some a \<Rightarrow> if errors_Is err a then Inl err else Inl (WrapError [err, a]))
      | Inr published \<Rightarrow>
          (case abortErr of
             None \<Rightarrow> Inr \<lparr>to_Records = None, to_Count = 0, to_ShuffleOutput = Some published\<rparr>
           | Some a \<Rightarrow> Inl (WrapError [a])))"

definition runShuffleMap ::
  "nat \<Rightarrow> 'w Store option \<Rightarrow> TaskExecution \<Rightarrow> FunctionRegistry \<Rightarrow> SourceReader \<Rightarrow> clock \<Rightarrow>
   ((go_error + TaskOutput) \<times> 'w option \<times> clock) option"
where
  "runShuffleMap fuel shuffleStore e registry sources c =
     (let task = te_Task e in
      case task_ShuffleWrite task of
        None \<Rightarrow> Some (Inl (permanentErrorf ''shuffle-map task requires a shuffle write and no final action''), None, c)
      | Some write \<Rightarrow>
          if task_FinalAction task \<noteq> None
          then Some (Inl (permanentErrorf ''shuffle-map task requires a shuffle write and no final action''), None, c)
          else if task_NumPartitions task \<le> 0 \<or> task_PartitionID task < 0 \<or> task_PartitionID task \<ge> task_NumPartitions task
          then Some (Inl (permanentErrorf ''invalid map partition''), None, c)
          else if ps_Kind (sw_Partitioner write) \<noteq> PartitionerHash \<or> ps_NumPartitions (sw_Partitioner write) \<le> 0
          then Some (Inl (permanentErrorf ''shuffle write requires a hash partitioner with positive partitions''), None, c)
          else case shuffleStore of
            None \<Rightarrow> Some (Inl (permanentErrorf ''shuffle store is not configured''), None, c)
          | Some store \<Rightarrow>
              (case (if sw_MapSideCombine write then map_sum id Some (Reduce (sw_AggregatorID write) registry) else Inr None) of
                 Inl err \<Rightarrow> Some (Inl err, None, c)
               | Inr reduce \<Rightarrow>
                   (case st_Begin store (attempt_identity e write) (task_NumPartitions task)
                           (ps_NumPartitions (sw_Partitioner write)) c of
                      (Inl err, c) \<Rightarrow> Some (Inl err, None, c)
                    | (Inr w, c) \<Rightarrow>
                        (case writeAndPublish fuel store reduce e registry sources w c of
                           None \<Rightarrow> None
                         | Some (result, w, c) \<Rightarrow>
                             (case st_Abort store w of
                                (abortErr, w) \<Rightarrow> Some (after_abort abortErr result, Some w, c))))))"

section \<open>The runner\<close>

record 'w LocalRunner =
  lr_registry :: "FunctionRegistry option"
  lr_sources :: "SourceReader option"
  lr_maxConcurrency :: int
  lr_permits :: bool
  lr_shuffleStore :: "'w Store option"

type_synonym 'w RunnerOption = "'w LocalRunner \<Rightarrow> 'w LocalRunner"

definition WithShuffleStore :: "'w Store option \<Rightarrow> 'w RunnerOption" where
  "WithShuffleStore store r = r\<lparr>lr_shuffleStore := store\<rparr>"

definition NewLocalRunner ::
  "(string \<Rightarrow> go_error + string) \<Rightarrow> FunctionRegistry option \<Rightarrow> SourceReader option \<Rightarrow> int \<Rightarrow> 'w RunnerOption list \<Rightarrow> 'w LocalRunner"
where
  "NewLocalRunner files registry sources maxConcurrency options =
     fold (\<lambda>option r. option r) options
       \<lparr>lr_registry = registry,
        lr_sources = Some (case sources of None \<Rightarrow> TextSourceReader files | Some s \<Rightarrow> s),
        lr_maxConcurrency = maxConcurrency, lr_permits = (maxConcurrency > 0), lr_shuffleStore = None\<rparr>"

definition result_output :: "ActionKind \<Rightarrow> partitionResult \<Rightarrow> TaskOutput" where
  "result_output kind result =
     \<lparr>to_Records = (if kind = ActionCollect then Some (pr_records result) else None),
      to_Count = pr_count result, to_ShuffleOutput = None\<rparr>"

text \<open>
  \<open>permit\<close> tells which case of the \<open>select\<close> is taken: a free permit, or the end of the context, which
  is possible only when the context has ended. A \<open>nil\<close> context is \<open>None\<close>.
\<close>

definition RunTask ::
  "nat \<Rightarrow> 'w LocalRunner \<Rightarrow> bool \<Rightarrow> clock option \<Rightarrow> TaskExecution \<Rightarrow> ((go_error + TaskOutput) \<times> clock option) option"
where
  "RunTask fuel r permit ctx e =
     (case ctx of
        None \<Rightarrow> Some (Inl (permanentErrorf ''task context is nil''), None)
      | Some c \<Rightarrow>
          if TaskExecution_Validate e \<noteq> None
          then Some (Inl (permanentError (ErrorText ''invalid task execution'')), ctx)
          else case (lr_registry r, lr_sources r) of
            (None, _) \<Rightarrow> Some (Inl (permanentErrorf ''local runner function registry is nil''), ctx)
          | (Some _, None) \<Rightarrow> Some (Inl (permanentErrorf ''local runner source reader is nil''), ctx)
          | (Some registry, Some sources) \<Rightarrow>
              if lr_maxConcurrency r \<le> 0 \<or> \<not> lr_permits r
              then Some (Inl (permanentErrorf ''local runner concurrency must be positive''), ctx)
              else case validateShuffleExecution e (lr_shuffleStore r \<noteq> None) of
                Some err \<Rightarrow> Some (Inl (permanentError err), ctx)
              | None \<Rightarrow>
                  if \<not> permit then (case ctx_Cause c of (Some err, c) \<Rightarrow> Some (Inl err, Some c) | (None, c) \<Rightarrow> None)
                  else case ctx_Cause c of
                    (Some err, c) \<Rightarrow> Some (Inl err, Some c)
                  | (None, c) \<Rightarrow>
                      if task_StageKind (te_Task e) = StageShuffleMap
                      then map_option (\<lambda>(out, _, c). (out, Some c))
                             (runShuffleMap fuel (lr_shuffleStore r) e registry sources c)
                      else
                        (case runTask fuel registry sources (map_option st_OpenBucket (lr_shuffleStore r)) e c of
                           None \<Rightarrow> None
                         | Some (Inl err, c) \<Rightarrow> Some (Inl err, Some c)
                         | Some (Inr result, c) \<Rightarrow>
                             (case ctx_Cause c of
                                (Some err, c) \<Rightarrow> Some (Inl err, Some c)
                              | (None, c) \<Rightarrow>
                                  Some (Inr (result_output
                                     (case task_FinalAction (te_Task e) of Some a \<Rightarrow> act_Kind a | None \<Rightarrow> ActionKindOther [])
                                     result), Some c))))"

end
