(* ===== verification/Aggregation.thy ===== *)
theory Aggregation
  imports Task_Runner
begin

text \<open>
  Aggregation by key across a shuffle. A map task may combine the values of a key before it writes
  them (\<open>writeShuffleRecords\<close> in \<open>src/executor/shuffle_map.go\<close>), the hash partitioner spreads the
  keys over the reduce tasks, values change their representation when they are stored and
  read again, and a reduce task folds what it reads (\<open>reduceRecords\<close> in \<open>src/executor/reduce.go\<close>).
  The locale \<open>reducer\<close> is what a reduce function promises: on values with a meaning it acts as an
  associative operation as long as the result is small enough. Under this contract the whole
  arrangement computes, for each key, the total over all its values.
\<close>

section \<open>The stages of an aggregation\<close>

definition is_pair :: "any \<Rightarrow> bool" where
  "is_pair x = (case x of KeyValueV _ _ \<Rightarrow> True | _ \<Rightarrow> False)"

definition pair_key :: "any \<Rightarrow> string" where
  "pair_key x = (case x of KeyValueV k _ \<Rightarrow> k | _ \<Rightarrow> [])"

text \<open>What a map task writes: its records, or one combined record per key.\<close>

definition map_side :: "ReduceFunc option \<Rightarrow> any list \<Rightarrow> any list" where
  "map_side reduce xs =
     (case reduce of
        None \<Rightarrow> xs
      | Some fn \<Rightarrow>
          (case fold_records writeComplaint fn fmempty xs of Inl _ \<Rightarrow> [] | Inr vals \<Rightarrow> sorted_records vals))"

definition carry_pair :: "(any \<Rightarrow> any) \<Rightarrow> any \<Rightarrow> any" where
  "carry_pair carry x = (case x of KeyValueV k v \<Rightarrow> KeyValueV k (carry v) | _ \<Rightarrow> x)"

text \<open>What reduce partition \<open>p\<close> of \<open>n\<close> reads of the output of one map task.\<close>

definition bucket_of :: "(any \<Rightarrow> any) \<Rightarrow> int \<Rightarrow> PartitionID \<Rightarrow> any list \<Rightarrow> any list" where
  "bucket_of carry n p xs = map (carry_pair carry) (filter (\<lambda>x. PartitionFor (pair_key x) n = Inr p) xs)"

definition shuffled :: "ReduceFunc option \<Rightarrow> (any \<Rightarrow> any) \<Rightarrow> int \<Rightarrow> PartitionID \<Rightarrow> any list list \<Rightarrow> any list" where
  "shuffled reduce carry n p parts = concat (map (\<lambda>xs. bucket_of carry n p (map_side reduce xs)) parts)"

section \<open>Totals\<close>

fun opt_plus :: "('v \<Rightarrow> 'v \<Rightarrow> 'v) \<Rightarrow> 'v option \<Rightarrow> 'v option \<Rightarrow> 'v option" where
  "opt_plus comb None y = y"
| "opt_plus comb (Some x) None = Some x"
| "opt_plus comb (Some x) (Some y) = Some (comb x y)"

definition total :: "('v \<Rightarrow> 'v \<Rightarrow> 'v) \<Rightarrow> 'v list \<Rightarrow> 'v option" where
  "total comb vs = foldr (\<lambda>v. opt_plus comb (Some v)) vs None"

text \<open>The meanings of the values that a list of records holds for a key.\<close>

definition key_values :: "(any \<Rightarrow> 'v option) \<Rightarrow> string \<Rightarrow> any list \<Rightarrow> 'v list" where
  "key_values val k xs =
     List.map_filter (\<lambda>x. case x of KeyValueV k' v \<Rightarrow> if k' = k then val v else None | _ \<Rightarrow> None) xs"

definition meaningful :: "(any \<Rightarrow> 'v option) \<Rightarrow> any list \<Rightarrow> bool" where
  "meaningful val xs \<longleftrightarrow> (\<forall>x \<in> set xs. case x of KeyValueV k v \<Rightarrow> val v \<noteq> None | _ \<Rightarrow> False)"

lemma opt_plus_None_right [simp]: "opt_plus comb x None = x"
  by (cases x) auto

lemma total_simps [simp]: "total comb [] = None" "total comb (v # vs) = opt_plus comb (Some v) (total comb vs)"
  by (simp_all add: total_def)

lemma map_filter_append: "List.map_filter f (xs @ ys) = List.map_filter f xs @ List.map_filter f ys"
  by (induction xs) (simp_all add: map_filter_simps split: option.split)

lemma key_values_simps [simp]:
  "key_values val k [] = []"
  "key_values val k (KeyValueV k' v # xs) =
     (if k' = k then (case val v of None \<Rightarrow> [] | Some x \<Rightarrow> [x]) else []) @ key_values val k xs"
  "key_values val k (xs @ ys) = key_values val k xs @ key_values val k ys"
  by (auto simp: key_values_def map_filter_simps map_filter_append split: option.split)

lemma key_values_concat: "key_values val k (concat xss) = concat (map (key_values val k) xss)"
  by (induction xss) auto

lemma key_values_map:
  "distinct ks \<Longrightarrow> key_values val k (map (\<lambda>key. KeyValueV key (f key)) ks) =
     (if k \<in> set ks then (case val (f k) of None \<Rightarrow> [] | Some x \<Rightarrow> [x]) else [])"
  by (induction ks) auto

lemma key_values_sorted_records:
  "key_values val k (sorted_records vals) = (case Option.bind (fmlookup vals k) val of None \<Rightarrow> [] | Some x \<Rightarrow> [x])"
proof -
  have "distinct (sorted_list_of_fset (fmdom vals))" "k \<in> set (sorted_list_of_fset (fmdom vals)) \<longleftrightarrow> fmlookup vals k \<noteq> None"
    by (auto simp: sorted_list_of_fset.rep_eq fmlookup_dom_iff)
  then show ?thesis by (cases "fmlookup vals k") (simp_all add: sorted_records_def key_values_map)
qed

lemma sorted_records_facts:
  "sorted_wrt (<) (map pair_key (sorted_records vals))" "list_all is_pair (sorted_records vals)"
  by (simp_all add: sorted_records_def list_all_iff is_pair_def pair_key_def comp_def strict_sorted_list_of_set sorted_list_of_fset.rep_eq)

lemma meaningful_sorted_records:
  "(\<And>k a. fmlookup vals k = Some a \<Longrightarrow> val a \<noteq> None) \<Longrightarrow> meaningful val (sorted_records vals)"
  by (auto simp: meaningful_def sorted_records_def fmlookup_dom_iff)

lemma key_values_bucket:
  assumes "\<And>a. val (carry a) = val a"
  shows "key_values val k (bucket_of carry n p xs) = (if PartitionFor k n = Inr p then key_values val k xs else [])"
proof (induction xs)
  case (Cons x xs)
  then show ?case using assms
    by (cases x) (auto simp: bucket_of_def key_values_def map_filter_simps carry_pair_def pair_key_def split: option.split)
qed (simp add: bucket_of_def)

lemma meaningful_bucket:
  "(\<And>a. val (carry a) = val a) \<Longrightarrow> meaningful val xs \<Longrightarrow> meaningful val (bucket_of carry n p xs)"
  by (fastforce simp: meaningful_def bucket_of_def carry_pair_def split: any.splits)

locale reducer =
  fixes fn :: ReduceFunc and val :: "any \<Rightarrow> 'v option" and comb :: "'v \<Rightarrow> 'v \<Rightarrow> 'v" and small :: "'v \<Rightarrow> bool"
  assumes plus_assoc: "comb (comb x y) z = comb x (comb y z)"
    and small_parts: "small (comb x y) \<Longrightarrow> small x \<and> small y"
    and reduces: "val a = Some x \<Longrightarrow> val b = Some y \<Longrightarrow> small (comb x y) \<Longrightarrow>
      \<exists>c. fn a b = Inr c \<and> val c = Some (comb x y)"
begin

lemma opt_plus_assoc: "opt_plus comb (opt_plus comb x y) z = opt_plus comb x (opt_plus comb y z)"
  by (cases x; cases y; cases z) (simp_all add: plus_assoc)

lemma total_append: "total comb (vs @ ws) = opt_plus comb (total comb vs) (total comb ws)"
  by (induction vs) (simp_all add: opt_plus_assoc)

lemma pred_option_plus: "pred_option small (opt_plus comb x y) \<Longrightarrow> pred_option small x \<and> pred_option small y"
  by (cases x; cases y) (auto dest: small_parts)

text \<open>Folding records adds the total of each key to what the table already holds for it.\<close>

lemma fold_records_totals:
  assumes "meaningful val xs" "\<And>k a. fmlookup vals k = Some a \<Longrightarrow> val a \<noteq> None"
    and "\<And>k. pred_option small (opt_plus comb (Option.bind (fmlookup vals k) val) (total comb (key_values val k xs)))"
  shows "\<exists>vals'. fold_records complaint fn vals xs = Inr vals' \<and>
    (\<forall>k a. fmlookup vals' k = Some a \<longrightarrow> val a \<noteq> None) \<and>
    (\<forall>k. Option.bind (fmlookup vals' k) val =
       opt_plus comb (Option.bind (fmlookup vals k) val) (total comb (key_values val k xs)))"
  using assms
proof (induction xs arbitrary: vals)
  case (Cons r xs)
  then obtain k v x where r: "r = KeyValueV k v" "val v = Some x"
    by (auto simp: meaningful_def split: any.splits)
  obtain c where c: "addRecord complaint fn vals r = Inr (fmupd k c vals)"
    "val c = opt_plus comb (Option.bind (fmlookup vals k) val) (Some x)"
  proof (cases "fmlookup vals k")
    case None
    then show ?thesis using that [of v] r by (simp add: addRecord_def)
  next
    case (Some a)
    then obtain y where y: "val a = Some y" using Cons.prems(2) by blast
    have "pred_option small (opt_plus comb (opt_plus comb (Some y) (Some x)) (total comb (key_values val k xs)))"
      unfolding opt_plus_assoc using Cons.prems(3) [of k] Some y r by simp
    then have "small (comb y x)" using pred_option_plus [of "Some (comb y x)"] by simp
    then obtain c where "fn a v = Inr c" "val c = Some (comb y x)" using reduces [OF y r(2)] by blast
    then show ?thesis using that [of c] Some y r by (simp add: addRecord_def)
  qed
  have step: "opt_plus comb (Option.bind (fmlookup (fmupd k c vals) k') val) (total comb (key_values val k' xs)) =
      opt_plus comb (Option.bind (fmlookup vals k') val) (total comb (key_values val k' (r # xs)))" for k'
    using c(2) r by (simp add: opt_plus_assoc)
  have "\<exists>vals'. fold_records complaint fn (fmupd k c vals) xs = Inr vals' \<and>
    (\<forall>k a. fmlookup vals' k = Some a \<longrightarrow> val a \<noteq> None) \<and>
    (\<forall>k'. Option.bind (fmlookup vals' k') val =
       opt_plus comb (Option.bind (fmlookup (fmupd k c vals) k') val) (total comb (key_values val k' xs)))"
  proof (rule Cons.IH)
    show "meaningful val xs" using Cons.prems(1) by (simp add: meaningful_def)
    show "val a \<noteq> None" if "fmlookup (fmupd k c vals) k' = Some a" for k' a
      using that c(2) Cons.prems(2) by (cases "Option.bind (fmlookup vals k) val") (auto split: if_splits)
    show "pred_option small (opt_plus comb (Option.bind (fmlookup (fmupd k c vals) k') val) (total comb (key_values val k' xs)))" for k'
      unfolding step by (rule Cons.prems(3))
  qed
  then show ?case unfolding step using c(1) by simp
qed simp

text \<open>Combining on the map side keeps the total of every key.\<close>

lemma map_side_totals:
  assumes "meaningful val xs" "\<And>k. pred_option small (total comb (key_values val k xs))" "reduce = None \<or> reduce = Some fn"
  shows "meaningful val (map_side reduce xs) \<and> (\<forall>k. total comb (key_values val k (map_side reduce xs)) = total comb (key_values val k xs))"
proof (cases "reduce = None")
  case False
  then obtain vals where vals: "fold_records writeComplaint fn fmempty xs = Inr vals"
    "\<And>k a. fmlookup vals k = Some a \<Longrightarrow> val a \<noteq> None"
    "\<And>k. Option.bind (fmlookup vals k) val = total comb (key_values val k xs)"
    using fold_records_totals [of xs fmempty writeComplaint] assms(1,2) by auto
  have "total comb (key_values val k (sorted_records vals)) = total comb (key_values val k xs)" for k
    unfolding key_values_sorted_records vals(3) by (simp split: option.split)
  moreover have "meaningful val (sorted_records vals)" by (rule meaningful_sorted_records [OF vals(2)])
  ultimately show ?thesis using False assms(3) vals(1) by (auto simp: map_side_def)
qed (use assms(1) in \<open>simp add: map_side_def\<close>)

lemma shuffled_totals:
  assumes "\<And>a. val (carry a) = val a" "reduce = None \<or> reduce = Some fn"
    and "\<forall>xs \<in> set parts. meaningful val xs" "\<And>k. pred_option small (total comb (key_values val k (concat parts)))"
  shows "meaningful val (shuffled reduce carry n p parts) \<and>
    (\<forall>k. total comb (key_values val k (shuffled reduce carry n p parts)) =
       (if PartitionFor k n = Inr p then total comb (key_values val k (concat parts)) else None))"
  using assms(3,4)
proof (induction parts)
  case (Cons xs parts)
  have parts: "pred_option small (total comb (key_values val k xs)) \<and> pred_option small (total comb (key_values val k (concat parts)))" for k
    by (rule pred_option_plus) (use Cons.prems(2) [of k] in \<open>simp add: total_append\<close>)
  have xs: "meaningful val xs" "\<forall>xs \<in> set parts. meaningful val xs" using Cons.prems(1) by simp_all
  from map_side_totals [OF xs(1) conjunct1 [OF parts] assms(2)] have one: "meaningful val (map_side reduce xs)" "\<And>k. total comb (key_values val k (map_side reduce xs)) = total comb (key_values val k xs)"
    by blast+
  from Cons.IH [OF xs(2) conjunct2 [OF parts]] have IH: "meaningful val (shuffled reduce carry n p parts)"
    "\<And>k. total comb (key_values val k (shuffled reduce carry n p parts)) =
       (if PartitionFor k n = Inr p then total comb (key_values val k (concat parts)) else None)"
    by blast+
  have "meaningful val (bucket_of carry n p (map_side reduce xs))"
    by (rule meaningful_bucket) (use assms(1) one(1) in auto)
  moreover have "key_values val k (bucket_of carry n p (map_side reduce xs)) =
      (if PartitionFor k n = Inr p then key_values val k (map_side reduce xs) else [])" for k
    by (rule key_values_bucket) (rule assms(1))
  ultimately show ?case using IH one(2) by (simp add: shuffled_def total_append meaningful_def ball_Un)
qed (simp add: shuffled_def meaningful_def)

theorem aggregate:
  assumes "\<And>a. val (carry a) = val a" "reduce = None \<or> reduce = Some fn"
    and "\<forall>xs \<in> set parts. meaningful val xs" "\<And>k. pred_option small (total comb (key_values val k (concat parts)))"
  shows "\<exists>recs. reduce_stream fn (shuffled reduce carry n p parts) None = (recs, None) \<and>
    sorted_wrt (<) (map pair_key recs) \<and> list_all is_pair recs \<and>
    (\<forall>k. key_values val k recs =
       (if PartitionFor k n = Inr p then (case total comb (key_values val k (concat parts)) of None \<Rightarrow> [] | Some t \<Rightarrow> [t]) else []))"
proof -
  let ?xs = "shuffled reduce carry n p parts"
  have xs: "meaningful val ?xs" "\<And>k. total comb (key_values val k ?xs) =
       (if PartitionFor k n = Inr p then total comb (key_values val k (concat parts)) else None)"
    using shuffled_totals [of carry reduce parts n p] assms by auto
  have small: "pred_option small (total comb (key_values val k ?xs))" for k
    using xs(2) assms(4) [of k] by simp
  obtain vals where vals: "fold_records reduceComplaint fn fmempty ?xs = Inr vals"
    "\<And>k. Option.bind (fmlookup vals k) val = total comb (key_values val k ?xs)"
    using fold_records_totals [of ?xs fmempty reduceComplaint] xs(1) small by auto
  have "key_values val k (sorted_records vals) =
      (if PartitionFor k n = Inr p then (case total comb (key_values val k (concat parts)) of None \<Rightarrow> [] | Some t \<Rightarrow> [t]) else [])" for k
    unfolding key_values_sorted_records vals(2) xs(2) by simp
  then show ?thesis using vals(1) sorted_records_facts by (auto simp: reduce_stream_def)
qed

end

end
