(* ===== verification/Runner_Properties.thy ===== *)
theory Runner_Properties
  imports Example_Functions
begin

text \<open>
  What the execution of a task attempt computes: a result task delivers exactly the stream that the
  functions of its operations define on the list of its input records, and whatever it delivers is
  accepted by the scheduler's own check of task outputs.
\<close>

section \<open>The stream of a pipeline\<close>

definition operator_ok :: "FunctionRegistry \<Rightarrow> OperatorSpec \<Rightarrow> bool" where
  "operator_ok registry operator \<longleftrightarrow>
     (let fid = op_FunctionID operator in
      case op_Kind operator of
        OpMap \<Rightarrow> \<not> isl (Map fid registry)
      | OpFilter \<Rightarrow> \<not> isl (Filter fid registry)
      | OpMapToPair \<Rightarrow> \<not> isl (PairMap fid registry)
      | OpMapValues \<Rightarrow> \<not> isl (ValueMap fid registry)
      | OpReduceByKey \<Rightarrow> \<not> isl (Reduce fid registry)
      | _ \<Rightarrow> False)"

definition operator_stream :: "FunctionRegistry \<Rightarrow> OperatorSpec \<Rightarrow> stream \<Rightarrow> stream" where
  "operator_stream registry operator = (\<lambda>(xs, e).
     let fid = op_FunctionID operator in
     case op_Kind operator of
       OpMap \<Rightarrow> map_stream (projr (Map fid registry)) xs e
     | OpFilter \<Rightarrow> filter_stream (projr (Filter fid registry)) xs e
     | OpMapToPair \<Rightarrow> map_stream (pair_record (projr (PairMap fid registry))) xs e
     | OpMapValues \<Rightarrow> map_stream (pair_value (projr (ValueMap fid registry))) xs e
     | OpReduceByKey \<Rightarrow> reduce_stream (projr (Reduce fid registry)) xs e
     | _ \<Rightarrow> (xs, e))"

definition operation_ok :: "FunctionRegistry \<Rightarrow> StageOperation \<Rightarrow> bool" where
  "operation_ok registry operation \<longleftrightarrow>
     so_Kind operation = StageOperationRDD \<and>
     (case so_RDD operation of None \<Rightarrow> False | Some rdd \<Rightarrow> operator_ok registry (ro_Operator rdd))"

definition operation_stream :: "FunctionRegistry \<Rightarrow> StageOperation \<Rightarrow> stream \<Rightarrow> stream" where
  "operation_stream registry operation s =
     (case so_RDD operation of None \<Rightarrow> s | Some rdd \<Rightarrow> operator_stream registry (ro_Operator rdd) s)"

abbreviation delivers :: "Iterator \<Rightarrow> stream \<Rightarrow> bool" where
  "delivers i s \<equiv> yields i (fst s) (snd s)"

lemma operator_iterator_yields:
  assumes "delivers i s" "operator_ok registry operator"
  shows "\<exists>j. operator_iterator registry operator (Some i) = Inr j \<and> delivers j (operator_stream registry operator s)"
  using assms yields_map yields_filter yields_pairMap yields_valueMap yields_reduce
  by (cases s) (auto simp: operator_ok_def operator_iterator_def operator_stream_def Let_def isl_def
      split: OperatorKind.splits sum.splits)

lemma buildLoop_operations:
  assumes "delivers i s" "\<forall>operation \<in> set operations. operation_ok registry operation"
  shows "\<exists>j. buildLoop e registry sources store operations (Some i) None = Some (Inr (Some j), Some j, None) \<and>
     delivers j (fold (operation_stream registry) operations s)"
  using assms
proof (induction operations arbitrary: i s)
  case (Cons operation rest)
  then obtain rdd where rdd: "so_Kind operation = StageOperationRDD" "so_RDD operation = Some rdd"
    "operator_ok registry (ro_Operator rdd)" by (auto simp: operation_ok_def split: option.splits)
  then have "op_Kind (ro_Operator rdd) \<noteq> OpSource" by (auto simp: operator_ok_def Let_def)
  moreover obtain j where "operator_iterator registry (ro_Operator rdd) (Some i) = Inr j"
    "delivers j (operator_stream registry (ro_Operator rdd) s)"
    using operator_iterator_yields [OF Cons.prems(1) rdd(3)] by blast
  ultimately show ?case using Cons rdd by (simp add: operation_stream_def)
qed simp

text \<open>The first operation provides the records: a source that opens, or the buckets of a shuffle.\<close>

definition provides :: "TaskExecution \<Rightarrow> SourceReader \<Rightarrow> OpenBucket option \<Rightarrow> StageOperation \<Rightarrow> stream \<Rightarrow> bool" where
  "provides e sources store operation s \<longleftrightarrow>
     (so_Kind operation = StageOperationShuffleRead \<and>
        (\<exists>open_bucket inputs. store = Some open_bucket \<and> te_ShuffleInputs e = Some inputs \<and> patient open_bucket \<and>
           s = buckets_stream open_bucket (task_PartitionID (te_Task e)) (is_Outputs inputs))) \<or>
     (so_Kind operation = StageOperationRDD \<and>
        (\<exists>rdd i. so_RDD operation = Some rdd \<and> op_Kind (ro_Operator rdd) = OpSource \<and>
           sources (op_SourcePath (ro_Operator rdd)) (task_PartitionID (te_Task e)) (task_NumPartitions (te_Task e)) None
             = (Inr (Some i), None) \<and> delivers i s))"

lemma buildLoop_first:
  assumes "provides e sources store operation s"
  shows "\<exists>i. delivers i s \<and> buildLoop e registry sources store (operation # rest) None None =
     buildLoop e registry sources store rest (Some i) None"
proof -
  consider (read) open_bucket inputs where "so_Kind operation = StageOperationShuffleRead" "store = Some open_bucket"
      "te_ShuffleInputs e = Some inputs" "patient open_bucket"
      "s = buckets_stream open_bucket (task_PartitionID (te_Task e)) (is_Outputs inputs)"
    | (source) rdd i where "so_Kind operation = StageOperationRDD" "so_RDD operation = Some rdd" "op_Kind (ro_Operator rdd) = OpSource"
      "sources (op_SourcePath (ro_Operator rdd)) (task_PartitionID (te_Task e)) (task_NumPartitions (te_Task e)) None = (Inr (Some i), None)"
      "delivers i s"
    using assms unfolding provides_def by blast
  then show ?thesis
  proof cases
    case read
    let ?s = "\<lparr>si_store = open_bucket, si_inputs = inputs, si_partition = task_PartitionID (te_Task e), si_next = 0,
      si_reader = None, si_closed = False, si_err = None\<rparr>"
    have "delivers (shuffleIterator ?s) (shuffle_stream ?s)"
      using read by (intro yields_shuffle) (simp_all add: reading_def)
    moreover have "shuffle_stream ?s = s" using read by (simp add: shuffle_stream_def)
    ultimately show ?thesis using read by auto
  next
    case source
    then show ?thesis by auto
  qed
qed

lemma buildTaskIterator_delivers:
  assumes "task_Operations (te_Task e) = operation # rest" "provides e sources store operation s"
    "\<forall>operation \<in> set rest. operation_ok registry operation"
  shows "\<exists>i. buildTaskIterator e registry sources store None = Some (Inr i, None) \<and>
     delivers i (fold (operation_stream registry) rest s)"
proof -
  obtain i where i: "delivers i s" "buildLoop e registry sources store (operation # rest) None None =
      buildLoop e registry sources store rest (Some i) None"
    using buildLoop_first [OF assms(2)] by blast
  obtain j where "buildLoop e registry sources store rest (Some i) None = Some (Inr (Some j), Some j, None)"
    "delivers j (fold (operation_stream registry) rest s)"
    using buildLoop_operations [OF i(1) assms(3)] by blast
  then show ?thesis using i(2) by (simp add: buildTaskIterator_def assms(1))
qed

section \<open>Result tasks\<close>

definition counted :: "ActionKind \<Rightarrow> any list \<Rightarrow> partitionResult" where
  "counted kind xs =
     (if kind = ActionCollect then \<lparr>pr_records = xs, pr_count = 0\<rparr>
      else \<lparr>pr_records = [], pr_count = to_int64 (int (length xs))\<rparr>)"

lemma resultLoop_mono: "resultLoop n kind i c result = Some r \<Longrightarrow> n \<le> m \<Longrightarrow> resultLoop m kind i c result = Some r"
proof (induction n arbitrary: m i c result)
  case (Suc n)
  then obtain k where k: "m = Suc k" "n \<le> k" by (cases m) auto
  from Suc.prems(1) obtain x j d where x: "Next n i c = Some (x, j, d)" by (auto split: option.splits)
  then have "Next k i c = Some (x, j, d)" using k(2) by (rule Next_mono)
  then show ?case using Suc k x by (auto split: sum.splits option.splits ActionKind.splits)
qed simp

lemma resultLoop_yields:
  assumes "yields i xs e" "kind = ActionCollect \<or> kind = ActionCount"
  shows "\<exists>n i' out. resultLoop n kind i None (counted kind done_xs) = Some (out, i', None) \<and>
    (case e of
       None \<Rightarrow> out = Inr (counted kind (done_xs @ xs)) \<and> fst (closeIterator i') = None
     | Some err \<Rightarrow> \<exists>e'. out = Inl e' \<and> err \<in> set (error_tree e'))"
  using assms
proof (induction arbitrary: done_xs)
  case (yields_end n i i')
  then have "resultLoop (Suc n) kind i None (counted kind done_xs) = Some (Inr (counted kind done_xs), i', None)" by simp
  then show ?case using yields_end(2) by fastforce
next
  case (yields_error n i e' i' e)
  then have "resultLoop (Suc n) kind i None (counted kind done_xs) = Some (Inl e', i', None)" by simp
  then show ?case using yields_error(2) by fastforce
next
  case (yields_record n i x i' xs e)
  obtain k j out where k: "resultLoop k kind i' None (counted kind (done_xs @ [x])) = Some (out, j, None)"
    and spec: "case e of None \<Rightarrow> out = Inr (counted kind ((done_xs @ [x]) @ xs)) \<and> fst (closeIterator j) = None
       | Some err \<Rightarrow> \<exists>e'. out = Inl e' \<and> err \<in> set (error_tree e')"
    using yields_record.IH [OF yields_record.prems, of "done_xs @ [x]"] by blast
  have "resultLoop (max n k) kind i' None (counted kind (done_xs @ [x])) = Some (out, j, None)"
    "Next (max n k) i None = Some (Inr (Some x), i', None)"
    using k yields_record.hyps(1) by (auto intro: resultLoop_mono Next_mono)
  moreover have "(counted ActionCount done_xs)\<lparr>pr_count := to_int64 (pr_count (counted ActionCount done_xs) + 1)\<rparr> =
      counted ActionCount (done_xs @ [x])"
    using to_int64_add [of "int (length done_xs)" 1] by (simp add: counted_def add.commute)
  ultimately have "resultLoop (Suc (max n k)) kind i None (counted kind done_xs) = Some (out, j, None)"
    using yields_record.prems by (auto simp: counted_def)
  then show ?case using spec unfolding append_assoc append_Cons append_Nil by blast
qed

lemma counted_Nil: "counted kind [] = zeroResult"
  by (simp add: counted_def zeroResult_def to_int64_id)

lemma errors_Join_tree: "errors_Join [Some err, x] = Some e \<Longrightarrow> set (error_tree err) \<subseteq> set (error_tree e)"
  by (cases x) (auto simp: errors_Join_def map_filter_simps)

lemma errors_Join_Some: "errors_Join [Some err, x] \<noteq> None"
  by (cases x) (auto simp: errors_Join_def map_filter_simps)

lemma errors_Join_None [simp]: "errors_Join [None, None] = None"
  by (simp add: errors_Join_def map_filter_simps)

definition refines :: "ActionKind \<Rightarrow> stream \<Rightarrow> go_error + TaskOutput \<Rightarrow> bool" where
  "refines kind s out \<longleftrightarrow>
     (case snd s of
        None \<Rightarrow> out = Inr (result_output kind (counted kind (fst s)))
      | Some err \<Rightarrow> (case out of Inl e \<Rightarrow> err \<in> set (error_tree e) | Inr _ \<Rightarrow> False))"


lemma runTask_delivers:
  assumes "task_StageKind (te_Task e) = StageResult" "task_ShuffleWrite (te_Task e) = None"
    "task_FinalAction (te_Task e) = Some action" "act_Kind action = ActionCollect \<or> act_Kind action = ActionCount"
    "buildTaskIterator e registry sources store None = Some (Inr i, None)" "delivers i s"
  shows "\<exists>n out. (\<forall>fuel \<ge> n. runTask fuel registry sources store e None = Some (out, None)) \<and>
    (case snd s of None \<Rightarrow> out = Inr (counted (act_Kind action) (fst s))
     | Some err \<Rightarrow> \<exists>e'. out = Inl e' \<and> err \<in> set (error_tree e'))"
proof -
  obtain n i' out where n: "resultLoop n (act_Kind action) i None zeroResult = Some (out, i', None)"
    and spec: "case snd s of None \<Rightarrow> out = Inr (counted (act_Kind action) (fst s)) \<and> fst (closeIterator i') = None
     | Some err \<Rightarrow> \<exists>e'. out = Inl e' \<and> err \<in> set (error_tree e')"
    using resultLoop_yields [OF assms(6,4), of "[]"] unfolding counted_Nil append_Nil by blast
  let ?join = "errors_Join [case out of Inl err \<Rightarrow> Some err | Inr _ \<Rightarrow> None, fst (closeIterator i')]"
  let ?out = "case ?join of Some err \<Rightarrow> Inl err | None \<Rightarrow> out"
  have run: "runTask fuel registry sources store e None = Some (?out, None)" if "n \<le> fuel" for fuel
    using resultLoop_mono [OF n that] assms(1-5) by (simp add: runTask_def split: option.split)
  have "case snd s of None \<Rightarrow> ?out = Inr (counted (act_Kind action) (fst s))
     | Some err \<Rightarrow> \<exists>e'. ?out = Inl e' \<and> err \<in> set (error_tree e')"
  proof (cases "snd s")
    case (Some err)
    then obtain e' where e': "out = Inl e'" "err \<in> set (error_tree e')" using spec by auto
    then obtain e'' where "?join = Some e''" using errors_Join_Some [of e' "fst (closeIterator i')"] by auto
    then show ?thesis using Some e' errors_Join_tree [of e' "fst (closeIterator i')" e''] by auto
  qed (use spec in simp)
  then show ?thesis using run by blast
qed

text \<open>
  C34: A result task computes the stream of its pipeline. When the attempt and its shuffle inputs pass the
  runner's checks, the first operation provides a stream of records and the functions of the other
  operations are registered, the runner ends, with every sufficient amount of fuel, and its
  output is the stream obtained by applying the operations one after the other to whole lists: all
  records in order for collect and their number for count. If the stream ends in an error, the
  runner fails with an error that carries it.
\<close>
theorem RunTask_refines_pipeline:
  assumes "lr_registry r = Some registry" "lr_sources r = Some sources" "0 < lr_maxConcurrency r" "lr_permits r"
    and "TaskExecution_Validate e = None" "validateShuffleExecution e (lr_shuffleStore r \<noteq> None) = None"
    and "task_StageKind (te_Task e) = StageResult" "task_ShuffleWrite (te_Task e) = None"
    and "task_FinalAction (te_Task e) = Some action" "act_Kind action = ActionCollect \<or> act_Kind action = ActionCount"
    and "task_Operations (te_Task e) = operation # rest" "\<forall>operation \<in> set rest. operation_ok registry operation"
    and "provides e sources (map_option st_OpenBucket (lr_shuffleStore r)) operation s"
  shows "\<exists>n out. (\<forall>fuel \<ge> n. RunTask fuel r True (Some None) e = Some (out, Some None)) \<and>
    refines (act_Kind action) (fold (operation_stream registry) rest s) out"
proof -
  let ?store = "map_option st_OpenBucket (lr_shuffleStore r)"
  let ?s = "fold (operation_stream registry) rest s"
  obtain i where i: "buildTaskIterator e registry sources ?store None = Some (Inr i, None)" "delivers i ?s"
    using buildTaskIterator_delivers [OF assms(11,13,12)] by blast
  obtain n out where run: "\<forall>fuel \<ge> n. runTask fuel registry sources ?store e None = Some (out, None)"
    and spec: "case snd ?s of None \<Rightarrow> out = Inr (counted (act_Kind action) (fst ?s))
     | Some err \<Rightarrow> \<exists>e'. out = Inl e' \<and> err \<in> set (error_tree e')"
    using runTask_delivers [OF assms(7-10) i] by blast
  let ?out = "map_sum id (result_output (act_Kind action)) out"
  have "RunTask fuel r True (Some None) e = Some (?out, Some None)" if "n \<le> fuel" for fuel
    using run that assms(1-10) by (cases out) (simp_all add: RunTask_def)
  moreover have "refines (act_Kind action) ?s ?out"
    using spec by (cases "snd ?s") (auto simp: refines_def)
  ultimately show ?thesis by blast
qed


section \<open>Shuffle-map tasks\<close>

definition accepts :: "'w Store \<Rightarrow> bool" where
  "accepts store \<longleftrightarrow> (\<forall>r w. \<exists>w'. st_Write store r w None = (None, w', None))"

definition pair_val :: "any \<Rightarrow> any" where
  "pair_val x = (case x of KeyValueV _ v \<Rightarrow> v | _ \<Rightarrow> NilV)"

text \<open>The writer after a list of records was written to it.\<close>

definition written :: "'w Store \<Rightarrow> any list \<Rightarrow> 'w \<Rightarrow> 'w" where
  "written store xs w =
     fold (\<lambda>x w. fst (snd (st_Write store \<lparr>rec_Key = pair_key x, rec_Value = pair_val x\<rparr> w None))) xs w"






lemma sorted_list_of_fempty [simp]: "sorted_list_of_fset {||} = []"
  by (simp add: sorted_list_of_fset.rep_eq)




section \<open>Outputs are accepted\<close>

text \<open>
  What the runner relies on of a store: a writer knows the attempt it was begun for, and the descriptor
  that publication returns is well formed and describes that attempt. \<open>about\<close> reads from a writer
  what it was begun with.
\<close>

definition describes :: "'w Store \<Rightarrow> ('w \<Rightarrow> AttemptIdentity \<times> int \<times> int) \<Rightarrow> bool" where
  "describes store about \<longleftrightarrow>
     (\<forall>a m n c w c'. st_Begin store a m n c = (Inr w, c') \<longrightarrow> about w = (a, m, n)) \<and>
     (\<forall>r w c. about (fst (snd (st_Write store r w c))) = about w) \<and>
     (\<forall>w c out w' c'. st_Publish store w c = (Inr out, w', c') \<longrightarrow>
        MapOutput_Validate out = None \<and>
        about w = (mo_Attempt out, mo_NumMapPartitions out, mo_NumReducePartitions out))"

lemma writeLoop_about:
  assumes "describes store about"
  shows "writeLoop n store reduce i w combined c = Some (out, i', w', c') \<Longrightarrow> about w' = about w"
proof (induction n arbitrary: reduce i w combined c)
  case (Suc n)
  have wr: "st_Write store r w c = (err, w1, c1) \<Longrightarrow> about w1 = about w" for r w c err w1 c1
    using assms unfolding describes_def by (metis fst_conv snd_conv)
  show ?case using Suc.prems
    by (auto split: prod.splits option.splits sum.splits any.splits dest!: Suc.IH wr)
qed simp

lemma writeKeys_about:
  assumes "describes store about"
  shows "writeKeys store combined keys w c = (err, w', c') \<Longrightarrow> about w' = about w"
proof (induction keys arbitrary: w c)
  case (Cons key keys)
  have wr: "st_Write store r w c = (err, w1, c1) \<Longrightarrow> about w1 = about w" for r w c err w1 c1
    using assms unfolding describes_def by (metis fst_conv snd_conv)
  show ?case using Cons.prems by (auto split: prod.splits option.splits dest!: Cons.IH wr)
qed simp

lemma writeShuffleRecords_about:
  assumes "describes store about" "writeShuffleRecords fuel store reduce i w c = Some (err, i', w', c')"
  shows "about w' = about w"
  using assms(2) writeLoop_about [OF assms(1)] writeKeys_about [OF assms(1)]
  by (fastforce simp: writeShuffleRecords_def split: option.splits sum.splits prod.splits)

lemma writeAndPublish_described:
  assumes "describes store about" "writeAndPublish fuel store reduce e registry sources w c = Some (Inr out, w', c')"
  shows "MapOutput_Validate out = None \<and> about w = (mo_Attempt out, mo_NumMapPartitions out, mo_NumReducePartitions out)"
proof -
  from assms(2) obtain i c1 err i' w1 c2 c3 c4 where
    "writeShuffleRecords fuel store reduce i w c1 = Some (err, i', w1, c2)" "st_Publish store w1 c3 = (Inr out, w', c4)"
    by (auto simp: writeAndPublish_def split: option.splits sum.splits prod.splits)
  then show ?thesis using assms(1) writeShuffleRecords_about [OF assms(1)] unfolding describes_def by metis
qed

lemma runShuffleMap_valid:
  assumes "describes store about" "task_StageKind (te_Task e) = StageShuffleMap"
    "runShuffleMap fuel (Some store) e registry sources c = Some (Inr out, w', c')"
  shows "ValidateFor out e = None"
proof -
  from assms(3) obtain spec w c1 reduce published w1 c2 where
    task: "task_ShuffleWrite (te_Task e) = Some spec" "task_FinalAction (te_Task e) = None"
    and begun: "st_Begin store (attempt_identity e spec) (task_NumPartitions (te_Task e)) (ps_NumPartitions (sw_Partitioner spec)) c = (Inr w, c1)"
    and published: "writeAndPublish fuel store reduce e registry sources w c1 = Some (Inr published, w1, c2)"
    and out: "out = \<lparr>to_Records = None, to_Count = 0, to_ShuffleOutput = Some published\<rparr>"
    by (auto simp: runShuffleMap_def after_abort_def Let_def split: option.splits sum.splits prod.splits if_splits)
  have "about w = (attempt_identity e spec, task_NumPartitions (te_Task e), ps_NumPartitions (sw_Partitioner spec))"
    using assms(1) begun unfolding describes_def by blast
  then have "MapOutput_Validate published = None" "mo_Attempt published = attempt_identity e spec"
    "mo_NumMapPartitions published = task_NumPartitions (te_Task e)"
    "mo_NumReducePartitions published = ps_NumPartitions (sw_Partitioner spec)"
    using writeAndPublish_described [OF assms(1) published] by auto
  then show ?thesis using task assms(2) by (simp add: ValidateFor_def out attempt_identity_def)
qed

lemma resultLoop_count:
  "resultLoop n kind i c result = Some (Inr out, i', c') \<Longrightarrow> 0 \<le> pr_count result \<Longrightarrow> pr_count result + int n < 2 ^ 63 \<Longrightarrow>
   0 \<le> pr_count out \<and> (kind = ActionCollect \<longrightarrow> pr_count out = pr_count result)"
proof (induction n arbitrary: kind i c result)
  case (Suc n)
  from Suc.prems(1) obtain x j d where x: "Next n i c = Some (x, j, d)" by (auto split: option.splits)
  have one: "to_int64 (pr_count result + 1) = pr_count result + 1" using Suc.prems(2,3) by (intro to_int64_id) auto
  consider "x = Inr None" "out = result"
    | y where "x = Inr (Some y)" "kind = ActionCollect" "resultLoop n kind j d (result\<lparr>pr_records := pr_records result @ [y]\<rparr>) = Some (Inr out, i', c')"
    | y where "x = Inr (Some y)" "kind = ActionCount" "resultLoop n kind j d (result\<lparr>pr_count := pr_count result + 1\<rparr>) = Some (Inr out, i', c')"
    using Suc.prems(1) x one by (auto split: sum.splits option.splits ActionKind.splits)
  then show ?case
    by cases (use Suc.prems(2,3) in \<open>auto dest: Suc.IH\<close>)
qed simp

lemma runTask_valid:
  assumes "runTask fuel registry sources store e c = Some (Inr result, c')" "int fuel < 2 ^ 63"
    "task_FinalAction (te_Task e) = Some action" "act_Kind action = ActionCollect \<or> act_Kind action = ActionCount"
  shows "ValidateFor (result_output (act_Kind action) result) e = None"
proof -
  from assms(1,3) obtain i c1 i' c2 where run: "resultLoop fuel (act_Kind action) i c1 zeroResult = Some (Inr result, i', c2)"
    and kind: "task_StageKind (te_Task e) = StageResult"
    by (auto simp: runTask_def Let_def split: option.splits sum.splits prod.splits if_splits)
  have "0 \<le> pr_count result \<and> (act_Kind action = ActionCollect \<longrightarrow> pr_count result = 0)"
    using resultLoop_count [OF run] assms(2) by (simp add: zeroResult_def)
  then show ?thesis using kind assms(3,4) by (auto simp: ValidateFor_def result_output_def)
qed

lemma RunTask_map_run:
  assumes "RunTask fuel r permit ctx e = Some (Inr out, ctx')" "task_StageKind (te_Task e) = StageShuffleMap"
  shows "\<exists>registry sources c w c'. runShuffleMap fuel (lr_shuffleStore r) e registry sources c = Some (Inr out, w, c')"
  using assms by (auto simp: RunTask_def split: option.splits prod.splits if_splits) blast+

lemma RunTask_result_run:
  assumes "RunTask fuel r permit ctx e = Some (Inr out, ctx')" "task_StageKind (te_Task e) \<noteq> StageShuffleMap"
    "task_FinalAction (te_Task e) = Some action"
  shows "\<exists>registry sources c result c'.
     runTask fuel registry sources (map_option st_OpenBucket (lr_shuffleStore r)) e c = Some (Inr result, c') \<and>
     out = result_output (act_Kind action) result"
  using assms by (auto simp: RunTask_def split: option.splits sum.splits prod.splits if_splits) blast+

text \<open>
  C37: The scheduler accepts what the runner returns. Whenever the runner returns an output, for a
  supported action and within fewer than \<open>2 ^ 63\<close> rounds, the output passes the scheduler's own
  check for the execution that produced it, so a successful attempt is never reported in vain. For
  shuffle-map tasks this rests on the store: its writer publishes a well-formed descriptor of the
  attempt it was begun for.
\<close>
theorem RunTask_output_accepted:
  assumes "RunTask fuel r permit ctx e = Some (Inr out, ctx')" "int fuel < 2 ^ 63"
    and "task_StageKind (te_Task e) = StageShuffleMap \<or>
      (\<exists>action. task_FinalAction (te_Task e) = Some action \<and> (act_Kind action = ActionCollect \<or> act_Kind action = ActionCount))"
    and "\<And>store. lr_shuffleStore r = Some store \<Longrightarrow> describes store about"
  shows "ValidateFor out e = None"
proof -
  show ?thesis
  proof (cases "task_StageKind (te_Task e) = StageShuffleMap")
    case True
    then obtain registry sources c w c' where run: "runShuffleMap fuel (lr_shuffleStore r) e registry sources c = Some (Inr out, w, c')"
      using RunTask_map_run [OF assms(1)] by blast
    then obtain store where "lr_shuffleStore r = Some store"
      by (cases "lr_shuffleStore r") (auto simp: runShuffleMap_def Let_def split: option.splits if_splits)
    then show ?thesis using runShuffleMap_valid [OF assms(4) True] run by auto
  next
    case False
    then obtain action where action: "task_FinalAction (te_Task e) = Some action"
      "act_Kind action = ActionCollect \<or> act_Kind action = ActionCount" using assms(3) by blast
    then obtain registry sources c result c' where
      "runTask fuel registry sources (map_option st_OpenBucket (lr_shuffleStore r)) e c = Some (Inr result, c')"
      "out = result_output (act_Kind action) result"
      using RunTask_result_run [OF assms(1) False action(1)] by blast
    then show ?thesis using runTask_valid [OF _ assms(2) action] by simp
  qed
qed


section \<open>An example\<close>

definition ex_registry :: FunctionRegistry where
  "ex_registry = the (snd (Register (Some NewFunctionRegistry)))"

definition ex_files :: "string \<Rightarrow> go_error + string" where
  "ex_files path =
     (if path = ''in'' then Inr (''go'' @ [newline] @ '' go '' @ [newline, newline] @ ''up'') else Inl ErrNotExist)"

definition ex_operation :: "OperatorKind \<Rightarrow> string \<Rightarrow> string \<Rightarrow> StageOperation" where
  "ex_operation kind path fid = \<lparr>so_Kind = StageOperationRDD,
     so_RDD = Some \<lparr>ro_RDDID = 0, ro_Operator = \<lparr>op_Kind = kind, op_FunctionID = fid, op_SourcePath = path\<rparr>\<rparr>, so_ShuffleRead = None\<rparr>"

definition ex_rest :: "StageOperation list" where
  "ex_rest = [ex_operation OpMap [] ''normalize'', ex_operation OpFilter [] ''non_empty'', ex_operation OpMapToPair [] ''word_pair'']"

definition ex_run_task :: "StageKind \<Rightarrow> Task" where
  "ex_run_task kind = \<lparr>task_ID = 0, task_StageID = 0, task_StageKind = kind, task_PartitionID = 0, task_NumPartitions = 1,
     task_Operations = ex_operation OpSource ''in'' [] # ex_rest,
     task_ShuffleWrite = (if kind = StageShuffleMap
       then Some \<lparr>sw_ShuffleID = 0, sw_Partitioner = HashPartitioner 1, sw_AggregatorID = ''sum_int'', sw_MapSideCombine = True\<rparr>
       else None),
     task_FinalAction = (if kind = StageShuffleMap then None else Some \<lparr>act_Kind = ActionCollect, act_TargetRDD = 0\<rparr>)\<rparr>"

definition ex_execution :: "StageKind \<Rightarrow> TaskExecution" where
  "ex_execution kind = \<lparr>te_RunID = replicate 32 CHR ''a'', te_JobID = 0, te_Task = ex_run_task kind,
     te_Attempt = \<lparr>tai_ID = 0, tai_TaskID = 0, tai_StageAttemptID = 0\<rparr>, te_WorkerID = ''w'', te_ShuffleInputs = None\<rparr>"

text \<open>A store in memory: a writer is what it was begun with and the records written so far.\<close>

type_synonym ex_writer = "(AttemptIdentity \<times> int \<times> int) \<times> shuffleRecord list"

definition ex_descriptor :: "ex_writer \<Rightarrow> MapOutput" where
  "ex_descriptor = (\<lambda>((a, m, n), rs).
     \<lparr>mo_Version = 1, mo_Attempt = a, mo_NumMapPartitions = m, mo_NumReducePartitions = n,
      mo_Buckets = map (\<lambda>p. let k = int (length (filter (\<lambda>r. PartitionFor (rec_Key r) n = Inr (int p)) rs)) in
        \<lparr>bm_PartitionID = int p, bm_RecordCount = k, bm_ByteCount = k,
         bm_SHA256 = (if k = 0 then emptyDigest else replicate 64 CHR ''a'')\<rparr>) [0 ..< nat n]\<rparr>)"

definition ex_store :: "ex_writer Store" where
  "ex_store = \<lparr>st_Begin = (\<lambda>a m n c. (Inr ((a, m, n), []), c)),
     st_Write = (\<lambda>r (i, rs) c. (None, (i, rs @ [r]), c)),
     st_Publish = (\<lambda>w c. (if MapOutput_Validate (ex_descriptor w) = None then Inr (ex_descriptor w) else Inl ErrInvalidRecord, w, c)),
     st_Abort = (\<lambda>w. (None, w)), st_OpenBucket = (\<lambda>_ _ c. (Inl ErrNotExist, c))\<rparr>"

definition ex_runner :: "ex_writer LocalRunner" where
  "ex_runner = NewLocalRunner ex_files (Some ex_registry) None 1 [WithShuffleStore (Some ex_store)]"

definition ex_pairs :: "any list" where
  "ex_pairs = [KeyValueV ''go'' (IntV 1), KeyValueV ''go'' (IntV 1), KeyValueV ''up'' (IntV 1)]"

lemma ex_registry_value: "ex_registry = NewFunctionRegistry\<lparr>fr_maps := fmupd ''normalize'' normalize fmempty,
    fr_filters := fmupd ''non_empty'' non_empty fmempty, fr_pairMaps := fmupd ''word_pair'' word_pair fmempty,
    fr_reducers := fmupd ''sum_int'' sum_int fmempty\<rparr>"
  by (simp add: ex_registry_def Register_def RegisterMap_def RegisterFilter_def RegisterPairMap_def RegisterReduce_def
      add_function_ok NewFunctionRegistry_def)

lemma ex_source: "\<exists>i. TextSourceReader ex_files ''in'' 0 1 None = (Inr (Some i), None) \<and>
    yields i [StringV ''go'', StringV '' go '', StringV [], StringV ''up''] None"
proof -
  let ?o = "text_Open ex_files ''in'' 0 1 None"
  have "?o = (Inr (projr (fst ?o)), None)"
    "text_drain 9 (projr (fst ?o)) None = Some (Inr [StringV ''go'', StringV '' go '', StringV [], StringV ''up''])" by code_simp+
  then obtain i where "?o = (Inr i, None)" "text_drain 9 i None = Some (Inr [StringV ''go'', StringV '' go '', StringV [], StringV ''up''])"
    by metis
  then show ?thesis using yields_text [of 9 i] by (simp add: TextSourceReader_def)
qed

lemma ex_checks:
  "TaskExecution_Validate (ex_execution StageResult) = None" "validateShuffleExecution (ex_execution StageResult) True = None"
  "list_all (operation_ok ex_registry) ex_rest"
  "fold (operation_stream ex_registry) ex_rest ([StringV ''go'', StringV '' go '', StringV [], StringV ''up''], None) = (ex_pairs, None)"
  unfolding ex_registry_value by code_simp+

lemma ex_provides: "provides (ex_execution kind) (TextSourceReader ex_files) store (ex_operation OpSource ''in'' [])
    ([StringV ''go'', StringV '' go '', StringV [], StringV ''up''], None)"
  using ex_source by (simp add: provides_def ex_execution_def ex_run_task_def ex_operation_def)

lemma ex_runner_fields: "lr_registry ex_runner = Some ex_registry" "lr_sources ex_runner = Some (TextSourceReader ex_files)"
  "lr_maxConcurrency ex_runner = 1" "lr_permits ex_runner" "lr_shuffleStore ex_runner = Some ex_store"
  by (simp_all add: ex_runner_def NewLocalRunner_def WithShuffleStore_def)

theorem RunTask_refines_pipeline_witness:
  "\<exists>fuel. RunTask fuel ex_runner True (Some None) (ex_execution StageResult) =
     Some (Inr \<lparr>to_Records = Some ex_pairs, to_Count = 0, to_ShuffleOutput = None\<rparr>, Some None)"
proof -
  let ?e = "ex_execution StageResult" and ?action = "\<lparr>act_Kind = ActionCollect, act_TargetRDD = 0\<rparr>"
  have "\<exists>n out. (\<forall>fuel \<ge> n. RunTask fuel ex_runner True (Some None) ?e = Some (out, Some None)) \<and>
    refines (act_Kind ?action)
      (fold (operation_stream ex_registry) ex_rest ([StringV ''go'', StringV '' go '', StringV [], StringV ''up''], None)) out"
    by (rule RunTask_refines_pipeline [where action = ?action and operation = "ex_operation OpSource ''in'' []"])
      (use ex_checks ex_runner_fields ex_provides [of StageResult] in
        \<open>simp_all add: ex_execution_def ex_run_task_def list_all_iff\<close>)
  then show ?thesis unfolding ex_checks(4) by (auto simp: refines_def result_output_def counted_def)
qed


lemma ex_store_fields:
  "st_Begin ex_store a m n c = (Inr ((a, m, n), []), c)" "st_Write ex_store r w c = (None, (fst w, snd w @ [r]), c)"
  "st_Publish ex_store w c = (if MapOutput_Validate (ex_descriptor w) = None then Inr (ex_descriptor w) else Inl ErrInvalidRecord, w, c)"
  "st_Abort ex_store w = (None, w)"
  by (simp_all add: ex_store_def split: prod.split)

lemma ex_store_laws: "accepts ex_store" "describes ex_store fst"
  by (auto simp: accepts_def describes_def ex_store_fields ex_descriptor_def split: if_splits)

definition ex_combined :: "any list" where
  "ex_combined = [KeyValueV ''go'' (Int64V 2), KeyValueV ''up'' (IntV 1)]"

definition ex_spec :: ShuffleWriteSpec where
  "ex_spec = \<lparr>sw_ShuffleID = 0, sw_Partitioner = HashPartitioner 1, sw_AggregatorID = ''sum_int'', sw_MapSideCombine = True\<rparr>"

definition ex_final :: ex_writer where
  "ex_final = written ex_store ex_combined ((attempt_identity (ex_execution StageShuffleMap) ex_spec, 1, 1), [])"




theorem RunTask_output_accepted_witness:
  "\<exists>out. RunTask 20 ex_runner True (Some None) (ex_execution StageShuffleMap) = Some (Inr out, Some None) \<and>
     ValidateFor out (ex_execution StageShuffleMap) = None"
proof -
  have "RunTask 20 ex_runner True (Some None) (ex_execution StageShuffleMap) =
     Some (Inr \<lparr>to_Records = None, to_Count = 0, to_ShuffleOutput = Some (ex_descriptor ex_final)\<rparr>, Some None)" by code_simp
  moreover from this have "ValidateFor \<lparr>to_Records = None, to_Count = 0, to_ShuffleOutput = Some (ex_descriptor ex_final)\<rparr>
      (ex_execution StageShuffleMap) = None"
    by (rule RunTask_output_accepted [where about = fst])
      (use ex_store_laws(2) ex_runner_fields(5) in \<open>simp_all add: ex_execution_def ex_run_task_def\<close>)
  ultimately show ?thesis by blast
qed

end
