(* ===== verification/Local_Scheduler.thy ===== *)
theory Local_Scheduler
  imports Runner_Properties DAG_System "HOL-Library.Multiset"
begin









section \<open>One accepted report per task\<close>








end
