(* ===== verification/Json_Text.thy ===== *)
theory Json_Text
  imports Prelude
begin

text \<open>
  The scanner behind \<open>json.Valid\<close> of Go's library, which the program uses to check opaque records: one
  byte at a time over a stack of open objects and arrays, at most 10000 deep.
\<close>

datatype parseState = parseObjectKey | parseObjectValue | parseArrayValue

datatype scanState =
    stateBeginValue | stateBeginValueOrEmpty | stateBeginStringOrEmpty | stateBeginString
  | stateEndValue | stateEndTop
  | stateInString | stateInStringEsc | stateInStringEscU nat
  | stateNeg | state1 | state0 | stateDot | stateDot0 | stateE | stateESign | stateE0
  | stateLiteral string

type_synonym scanner = "scanState \<times> parseState list"

definition isSpace :: "char \<Rightarrow> bool" where
  "isSpace c \<longleftrightarrow> c \<in> {CHR '' '', CHR 0x09, CHR 0x0D, CHR 0x0A}"

definition isDigit :: "char \<Rightarrow> bool" where
  "isDigit c \<longleftrightarrow> CHR ''0'' \<le> c \<and> c \<le> CHR ''9''"

definition isHexDigit :: "char \<Rightarrow> bool" where
  "isHexDigit c \<longleftrightarrow> isDigit c \<or> CHR ''a'' \<le> c \<and> c \<le> CHR ''f'' \<or> CHR ''A'' \<le> c \<and> c \<le> CHR ''F''"

definition pushParseState :: "parseState \<Rightarrow> scanState \<Rightarrow> parseState list \<Rightarrow> scanner option" where
  "pushParseState p state stack = (if Suc (length stack) \<le> 10000 then Some (state, p # stack) else None)"

definition popParseState :: "parseState list \<Rightarrow> scanner" where
  "popParseState stack = (if tl stack = [] then (stateEndTop, []) else (stateEndValue, tl stack))"

definition scanEndTop :: "char \<Rightarrow> scanner option" where
  "scanEndTop c = (if isSpace c then Some (stateEndTop, []) else None)"

definition scanEndValue :: "parseState list \<Rightarrow> char \<Rightarrow> scanner option" where
  "scanEndValue stack c =
     (case stack of
        [] \<Rightarrow> scanEndTop c
      | p # rest \<Rightarrow>
          if isSpace c then Some (stateEndValue, stack)
          else (case p of
                  parseObjectKey \<Rightarrow> if c = CHR '':'' then Some (stateBeginValue, parseObjectValue # rest) else None
                | parseObjectValue \<Rightarrow>
                    if c = CHR '','' then Some (stateBeginString, parseObjectKey # rest)
                    else if c = CHR ''}'' then Some (popParseState stack) else None
                | parseArrayValue \<Rightarrow>
                    if c = CHR '','' then Some (stateBeginValue, stack)
                    else if c = CHR '']'' then Some (popParseState stack) else None))"

definition scanBeginValue :: "parseState list \<Rightarrow> char \<Rightarrow> scanner option" where
  "scanBeginValue stack c =
     (if isSpace c then Some (stateBeginValue, stack)
      else if c = CHR ''{'' then pushParseState parseObjectKey stateBeginStringOrEmpty stack
      else if c = CHR ''['' then pushParseState parseArrayValue stateBeginValueOrEmpty stack
      else if c = CHR 0x22 then Some (stateInString, stack)
      else if c = CHR ''-'' then Some (stateNeg, stack)
      else if c = CHR ''0'' then Some (state0, stack)
      else if c = CHR ''t'' then Some (stateLiteral ''rue'', stack)
      else if c = CHR ''f'' then Some (stateLiteral ''alse'', stack)
      else if c = CHR ''n'' then Some (stateLiteral ''ull'', stack)
      else if isDigit c then Some (state1, stack)
      else None)"

definition scanBeginString :: "parseState list \<Rightarrow> char \<Rightarrow> scanner option" where
  "scanBeginString stack c =
     (if isSpace c then Some (stateBeginString, stack)
      else if c = CHR 0x22 then Some (stateInString, stack)
      else None)"

definition scanESign :: "parseState list \<Rightarrow> char \<Rightarrow> scanner option" where
  "scanESign stack c = (if isDigit c then Some (stateE0, stack) else None)"

definition scanNumber0 :: "parseState list \<Rightarrow> char \<Rightarrow> scanner option" where
  "scanNumber0 stack c =
     (if c = CHR ''.'' then Some (stateDot, stack)
      else if c = CHR ''e'' \<or> c = CHR ''E'' then Some (stateE, stack)
      else scanEndValue stack c)"

text \<open>One step of the scanner; \<open>None\<close> is a syntax error.\<close>

fun scanStep :: "scanner \<Rightarrow> char \<Rightarrow> scanner option" where
  "scanStep (stateBeginValue, stack) c = scanBeginValue stack c"
| "scanStep (stateBeginValueOrEmpty, stack) c =
     (if isSpace c then Some (stateBeginValueOrEmpty, stack)
      else if c = CHR '']'' then scanEndValue stack c
      else scanBeginValue stack c)"
| "scanStep (stateBeginStringOrEmpty, stack) c =
     (if isSpace c then Some (stateBeginStringOrEmpty, stack)
      else if c = CHR ''}'' then scanEndValue (parseObjectValue # tl stack) c
      else scanBeginString stack c)"
| "scanStep (stateBeginString, stack) c = scanBeginString stack c"
| "scanStep (stateEndValue, stack) c = scanEndValue stack c"
| "scanStep (stateEndTop, stack) c = scanEndTop c"
| "scanStep (stateInString, stack) c =
     (if c = CHR 0x22 then Some (stateEndValue, stack)
      else if c = CHR 0x5C then Some (stateInStringEsc, stack)
      else if c < CHR '' '' then None
      else Some (stateInString, stack))"
| "scanStep (stateInStringEsc, stack) c =
     (if c \<in> set [CHR ''b'', CHR ''f'', CHR ''n'', CHR ''r'', CHR ''t'', CHR 0x5C, CHR ''/'', CHR 0x22]
      then Some (stateInString, stack)
      else if c = CHR ''u'' then Some (stateInStringEscU 3, stack)
      else None)"
| "scanStep (stateInStringEscU left, stack) c =
     (if \<not> isHexDigit c then None
      else if left = 0 then Some (stateInString, stack)
      else Some (stateInStringEscU (left - 1), stack))"
| "scanStep (stateNeg, stack) c =
     (if c = CHR ''0'' then Some (state0, stack) else if isDigit c then Some (state1, stack) else None)"
| "scanStep (state1, stack) c = (if isDigit c then Some (state1, stack) else scanNumber0 stack c)"
| "scanStep (state0, stack) c = scanNumber0 stack c"
| "scanStep (stateDot, stack) c = (if isDigit c then Some (stateDot0, stack) else None)"
| "scanStep (stateDot0, stack) c =
     (if isDigit c then Some (stateDot0, stack)
      else if c = CHR ''e'' \<or> c = CHR ''E'' then Some (stateE, stack)
      else scanEndValue stack c)"
| "scanStep (stateE, stack) c =
     (if c = CHR ''+'' \<or> c = CHR ''-'' then Some (stateESign, stack) else scanESign stack c)"
| "scanStep (stateESign, stack) c = scanESign stack c"
| "scanStep (stateE0, stack) c = (if isDigit c then Some (stateE0, stack) else scanEndValue stack c)"
| "scanStep (stateLiteral rest, stack) c =
     (case rest of
        [] \<Rightarrow> None
      | d # ds \<Rightarrow> if c \<noteq> d then None
          else if ds = [] then Some (stateEndValue, stack) else Some (stateLiteral ds, stack))"

fun scanAll :: "scanner \<Rightarrow> string \<Rightarrow> scanner option" where
  "scanAll s [] = Some s"
| "scanAll s (c # cs) = (case scanStep s c of None \<Rightarrow> None | Some s' \<Rightarrow> scanAll s' cs)"

text \<open>At the end one more space must lead to, or find, the end of the top-level value.\<close>

definition scanEOF :: "scanner \<Rightarrow> bool" where
  "scanEOF s \<longleftrightarrow> fst s = stateEndTop \<or> (case scanStep s (CHR '' '') of None \<Rightarrow> False | Some s' \<Rightarrow> fst s' = stateEndTop)"

definition json_Valid :: "string \<Rightarrow> bool" where
  "json_Valid data = (case scanAll (stateBeginValue, []) data of None \<Rightarrow> False | Some s \<Rightarrow> scanEOF s)"

end
