(* ===== verification/Wire_Protocol.thy ===== *)
theory Wire_Protocol
  imports Json_Text Task_Output
begin

text \<open>
  The messages between workers and the coordinator and their validation: \<open>src/protocol/worker.go\<close>,
  \<open>src/protocol/task_report.go\<close>, \<open>src/protocol/job.go\<close>, \<open>src/protocol/error.go\<close> and
  \<open>src/protocol/validate.go\<close>, and \<open>DecodeAndValidate\<close> of \<open>src/protocol/decode.go\<close>. A slice that may be \<open>nil\<close> is an \<open>option\<close>, because the checks tell \<open>nil\<close> from
  empty. A \<open>json.RawMessage\<close> is its bytes. What \<open>url.Parse\<close> makes of a base URL is an argument.
\<close>

section \<open>Messages\<close>

record RegisterWorkerRequest =
  rw_WorkerID :: WorkerID
  rw_TotalSlots :: int
  rw_BaseURL :: string

record RegisterWorkerResponse =
  rr_WorkerID :: WorkerID
  rr_TotalSlots :: int

record HeartbeatRequest =
  hb_WorkerID :: WorkerID
  hb_FreeSlots :: int
  hb_RunningAttemptIDs :: "TaskAttemptID list option"

record protocol_TaskAssignment =
  pa_ShuffleInputs :: "InputSnapshot option"
  pa_RunID :: string
  pa_JobID :: JobID
  pa_StageID :: StageID
  pa_WorkerID :: WorkerID
  pa_Attempt :: TaskAttemptIdentity
  pa_Task :: Task

record HeartbeatResponse =
  hr_Assignments :: "protocol_TaskAssignment list option"

record protocol_TaskOutput =
  po_ShuffleOutput :: "MapOutput option"
  po_Records :: "string list option"
  po_Count :: int

record TaskSuccessRequest =
  tsr_JobID :: JobID
  tsr_StageID :: StageID
  tsr_Attempt :: TaskAttemptIdentity
  tsr_PartitionID :: PartitionID
  tsr_WorkerID :: WorkerID
  tsr_Output :: protocol_TaskOutput

record TaskFailureRequest =
  tfr_Kind :: FailureKind
  tfr_ShuffleInput :: "InputReference option"
  tfr_JobID :: JobID
  tfr_StageID :: StageID
  tfr_Attempt :: TaskAttemptIdentity
  tfr_PartitionID :: PartitionID
  tfr_WorkerID :: WorkerID
  tfr_Error :: string

record TaskReportResponse =
  tr_Acknowledged :: bool

record JobResultResponse =
  jr_Action :: ActionKind
  jr_Records :: "string list option"
  jr_Count :: int

datatype ErrorCode =
    CodeInvalidRequest
  | CodeRequestTooLarge
  | CodeNotFound
  | CodeMethodNotAllowed
  | CodeConflict
  | CodeUnavailable
  | CodeJobFailed
  | CodeInternal
  | ErrorCodeOther string

record ErrorResponse =
  er_Code :: ErrorCode
  er_Message :: string

section \<open>Decoding\<close>

datatype decodeError = DecodeMisuse | ErrMessageTooLarge | ReadFailed | ErrInvalidMessage

text \<open>
  A reader is its bytes up to its end, or up to a read failure. \<open>decode\<close> is the strict JSON decoding of
  the message's type, which is \<open>None\<close> for bytes that are not exactly one JSON value of that shape.
\<close>

definition DecodeAndValidate ::
  "(string \<Rightarrow> 'm option) \<Rightarrow> ('m \<Rightarrow> 'e option) \<Rightarrow> (string \<times> bool) option \<Rightarrow> int \<Rightarrow> decodeError + 'm"
where
  "DecodeAndValidate decode validate reader maxBytes =
     (case reader of
        None \<Rightarrow> Inl DecodeMisuse
      | Some (content, fails) \<Rightarrow>
          if maxBytes \<le> 0 \<or> maxBytes = 2 ^ 63 - 1 then Inl DecodeMisuse
          else
            let data = take (nat (maxBytes + 1)) content in
            if int (length data) > maxBytes then Inl ErrMessageTooLarge
            else if fails \<and> int (length content) < maxBytes + 1 then Inl ReadFailed
            else (case decode data of
                    None \<Rightarrow> Inl ErrInvalidMessage
                  | Some m \<Rightarrow> if validate m \<noteq> None then Inl ErrInvalidMessage else Inr m))"

lemma DecodeAndValidate_Inr:
  "0 < n \<Longrightarrow> n < 2 ^ 63 - 1 \<Longrightarrow> int (length content) \<le> n \<Longrightarrow> decode content = Some m \<Longrightarrow> validate m = None \<Longrightarrow>
   DecodeAndValidate decode validate (Some (content, False)) n = Inr m"
  by (simp add: DecodeAndValidate_def)

definition RegisterWorkerPath :: string where "RegisterWorkerPath = ''/v1/workers/register''"
definition HeartbeatPath :: string where "HeartbeatPath = ''/v1/workers/heartbeat''"
definition TaskSuccessPath :: string where "TaskSuccessPath = ''/v1/tasks/success''"
definition TaskFailurePath :: string where "TaskFailurePath = ''/v1/tasks/failure''"
definition SubmitJobPath :: string where "SubmitJobPath = ''/v1/jobs''"

section \<open>Workers\<close>

datatype ProtocolError =
    WorkerIDEmpty
  | TotalSlotsNotPositive
  | BadBaseURL
  | FreeSlotsNegative
  | RunningAttemptsNil
  | DuplicateRunningAttempt TaskAttemptID
  | HeartbeatExceedsCapacity int
  | PartitionNegative
  | ShuffleOutputHasResults
  | OutputDescriptor MetadataError
  | CountNegative
  | RecordsAndCount
  | RecordNotJSON nat
  | OutputIdentityDiffers
  | FailureInvalid FailureError
  | FailureInputDiffers
  | ErrorMessageEmpty
  | NotAcknowledged
  | CountResultHasRecords
  | CollectResultInvalid
  | ResultAction ActionKind
  | ResponseMessageEmpty
  | UnknownErrorCode ErrorCode

definition validateWorker :: "WorkerID \<Rightarrow> ProtocolError option" where
  "validateWorker wid = (if blank wid then Some WorkerIDEmpty else None)"

text \<open>The parts of a parsed URL that the check reads; \<open>None\<close> is a parse error.\<close>

record URL =
  url_Scheme :: string
  url_Hostname :: string
  url_HasUser :: bool
  url_RawQuery :: string
  url_ForceQuery :: bool
  url_Fragment :: string

definition RegisterWorkerRequest_Validate ::
  "(string \<Rightarrow> URL option) \<Rightarrow> RegisterWorkerRequest \<Rightarrow> ProtocolError option"
where
  "RegisterWorkerRequest_Validate parse r =
     (case validateWorker (rw_WorkerID r) of
        Some err \<Rightarrow> Some err
      | None \<Rightarrow>
          if rw_TotalSlots r \<le> 0 then Some TotalSlotsNotPositive
          else if rw_BaseURL r \<noteq> [] then
            (case parse (rw_BaseURL r) of
               None \<Rightarrow> Some BadBaseURL
             | Some u \<Rightarrow>
                 if (url_Scheme u \<noteq> ''http'' \<and> url_Scheme u \<noteq> ''https'') \<or> url_Hostname u = [] \<or> url_HasUser u \<or>
                    url_RawQuery u \<noteq> [] \<or> url_ForceQuery u \<or> url_Fragment u \<noteq> []
                 then Some BadBaseURL else None)
          else None)"

definition RegisterWorkerResponse_Validate ::
  "(string \<Rightarrow> URL option) \<Rightarrow> RegisterWorkerResponse \<Rightarrow> ProtocolError option"
where
  "RegisterWorkerResponse_Validate parse r =
     RegisterWorkerRequest_Validate parse
       \<lparr>rw_WorkerID = rr_WorkerID r, rw_TotalSlots = rr_TotalSlots r, rw_BaseURL = []\<rparr>"

fun firstDuplicate :: "TaskAttemptID list \<Rightarrow> TaskAttemptID fset \<Rightarrow> ProtocolError option" where
  "firstDuplicate [] seen = None"
| "firstDuplicate (a # rest) seen =
     (if a |\<in>| seen then Some (DuplicateRunningAttempt a) else firstDuplicate rest (finsert a seen))"

definition HeartbeatRequest_Validate :: "HeartbeatRequest \<Rightarrow> ProtocolError option" where
  "HeartbeatRequest_Validate r =
     (case validateWorker (hb_WorkerID r) of
        Some err \<Rightarrow> Some err
      | None \<Rightarrow>
          if hb_FreeSlots r < 0 then Some FreeSlotsNegative
          else (case hb_RunningAttemptIDs r of
                  None \<Rightarrow> Some RunningAttemptsNil
                | Some ids \<Rightarrow> firstDuplicate ids {||}))"

definition ValidateCapacity :: "HeartbeatRequest \<Rightarrow> int \<Rightarrow> ProtocolError option" where
  "ValidateCapacity r totalSlots =
     (case HeartbeatRequest_Validate r of
        Some err \<Rightarrow> Some err
      | None \<Rightarrow>
          if totalSlots \<le> 0 \<or> hb_FreeSlots r > totalSlots \<or>
             int (length (case hb_RunningAttemptIDs r of None \<Rightarrow> [] | Some ids \<Rightarrow> ids)) > totalSlots - hb_FreeSlots r
          then Some (HeartbeatExceedsCapacity totalSlots) else None)"

lemma firstDuplicate_None:
  "firstDuplicate ids seen = None \<longleftrightarrow> distinct ids \<and> set ids \<inter> fset seen = {}"
  by (induction ids arbitrary: seen) auto

lemma firstDuplicate_Some: "firstDuplicate ids {||} = Some err \<Longrightarrow> \<not> distinct ids"
  using firstDuplicate_None[of ids "{||}"] by auto

lemma ValidateCapacity_None:
  "ValidateCapacity r n = None \<longleftrightarrow>
     \<not> blank (hb_WorkerID r) \<and> 0 < n \<and> 0 \<le> hb_FreeSlots r \<and> hb_FreeSlots r \<le> n \<and>
     (\<exists>ids. hb_RunningAttemptIDs r = Some ids \<and> distinct ids \<and> int (length ids) \<le> n - hb_FreeSlots r)"
  by (auto simp: ValidateCapacity_def HeartbeatRequest_Validate_def validateWorker_def firstDuplicate_None
      dest: firstDuplicate_Some split: option.splits)

section \<open>Assignments\<close>

definition Execution :: "protocol_TaskAssignment \<Rightarrow> TaskExecution" where
  "Execution a =
     \<lparr>te_RunID = pa_RunID a, te_JobID = pa_JobID a, te_Task = pa_Task a, te_Attempt = pa_Attempt a,
      te_WorkerID = pa_WorkerID a, te_ShuffleInputs = CloneInput (pa_ShuffleInputs a)\<rparr>"

datatype AssignmentError =
    AssignmentExecution ExecutionError
  | AssignmentIdentity
  | AssignmentPartition
  | MapAssignmentShape
  | MapAssignmentWrite
  | ResultAssignmentShape
  | UnsupportedStageKind StageKind
  | AssignmentNoPipeline
  | InvalidShuffleRead
  | AssignmentInputs MetadataError
  | InputsDoNotMatch
  | ReadRequiresReduce
  | NarrowHasInputs
  | OperationNotRDD nat
  | DuplicateRDD RDDID
  | MustStartWithSource
  | MisplacedReduce
  | OperationFunction nat
  | UnsupportedNarrowOperator OperatorKind
  | ActionTarget
  | AssignmentNilDereference

text \<open>The \<open>switch\<close> on the kind of stage.\<close>

definition validateAssignmentKind :: "protocol_TaskAssignment \<Rightarrow> AssignmentError option" where
  "validateAssignmentKind a =
     (let task = pa_Task a in
      case task_StageKind task of
        StageShuffleMap \<Rightarrow>
          (case task_ShuffleWrite task of
             None \<Rightarrow> Some MapAssignmentShape
           | Some w \<Rightarrow>
               if task_FinalAction task \<noteq> None \<or> pa_ShuffleInputs a \<noteq> None then Some MapAssignmentShape
               else if ps_Kind (sw_Partitioner w) \<noteq> PartitionerHash \<or> ps_NumPartitions (sw_Partitioner w) \<le> 0 \<or>
                       blank (sw_AggregatorID w)
               then Some MapAssignmentWrite else None)
      | StageResult \<Rightarrow>
          (case task_FinalAction task of
             None \<Rightarrow> Some ResultAssignmentShape
           | Some action \<Rightarrow>
               if task_ShuffleWrite task \<noteq> None \<or> (act_Kind action \<noteq> ActionCount \<and> act_Kind action \<noteq> ActionCollect)
               then Some ResultAssignmentShape else None)
      | kind \<Rightarrow> Some (UnsupportedStageKind kind))"

text \<open>The checks of a pipeline that starts with the shuffle read \<open>op\<close>.\<close>

definition validateReadAssignment ::
  "protocol_TaskAssignment \<Rightarrow> StageOperation \<Rightarrow> StageOperation list \<Rightarrow> AssignmentError option"
where
  "validateReadAssignment a op rest =
     (case (so_ShuffleRead op, pa_ShuffleInputs a) of
        (Some read, Some input) \<Rightarrow>
          if task_StageKind (pa_Task a) = StageShuffleMap \<or> so_RDD op \<noteq> None then Some InvalidShuffleRead
          else (case InputSnapshot_Validate input of
                  Some err \<Rightarrow> Some (AssignmentInputs err)
                | None \<Rightarrow>
                    if is_RunID input \<noteq> pa_RunID a \<or> is_JobID input \<noteq> pa_JobID a \<or>
                       is_ShuffleID input \<noteq> sr_ShuffleID read \<or> ps_Kind (sr_Partitioner read) \<noteq> PartitionerHash \<or>
                       ps_NumPartitions (sr_Partitioner read) \<noteq> is_NumReducePartitions input \<or>
                       task_NumPartitions (pa_Task a) \<noteq> is_NumReducePartitions input
                    then Some InputsDoNotMatch
                    else (case rest of
                            [] \<Rightarrow> Some ReadRequiresReduce
                          | next # _ \<Rightarrow>
                              (case so_RDD next of
                                 None \<Rightarrow> Some ReadRequiresReduce
                               | Some rdd \<Rightarrow>
                                   if op_Kind (ro_Operator rdd) \<noteq> OpReduceByKey then Some ReadRequiresReduce else None)))
      | _ \<Rightarrow> Some InvalidShuffleRead)"

definition validateAssignedOperator :: "bool \<Rightarrow> nat \<Rightarrow> OperatorSpec \<Rightarrow> AssignmentError option" where
  "validateAssignedOperator readsShuffle i op =
     (if i = 0 then
        (if op_Kind op \<noteq> OpSource \<or> blank (op_SourcePath op) \<or> op_FunctionID op \<noteq> []
         then Some MustStartWithSource else None)
      else
        (case op_Kind op of
           OpSource \<Rightarrow> Some (UnsupportedNarrowOperator (op_Kind op))
         | OperatorKindOther _ \<Rightarrow> Some (UnsupportedNarrowOperator (op_Kind op))
         | _ \<Rightarrow>
             if (op_Kind op = OpReduceByKey) \<noteq> (readsShuffle \<and> i = 1) then Some MisplacedReduce
             else if blank (op_FunctionID op) \<or> op_SourcePath op \<noteq> [] then Some (OperationFunction i)
             else None))"

fun validatePipeline :: "bool \<Rightarrow> nat \<Rightarrow> StageOperation list \<Rightarrow> RDDID fset \<Rightarrow> AssignmentError option" where
  "validatePipeline readsShuffle i [] seen = None"
| "validatePipeline readsShuffle i (operation # rest) seen =
     (if i = 0 \<and> readsShuffle then validatePipeline readsShuffle (Suc i) rest seen
      else case so_RDD operation of
        None \<Rightarrow> Some (OperationNotRDD i)
      | Some rdd \<Rightarrow>
          if so_Kind operation \<noteq> StageOperationRDD \<or> so_ShuffleRead operation \<noteq> None then Some (OperationNotRDD i)
          else if ro_RDDID rdd |\<in>| seen then Some (DuplicateRDD (ro_RDDID rdd))
          else (case validateAssignedOperator readsShuffle i (ro_Operator rdd) of
                  Some err \<Rightarrow> Some err
                | None \<Rightarrow> validatePipeline readsShuffle (Suc i) rest (finsert (ro_RDDID rdd) seen)))"

text \<open>
  The final check reads the action and the last operation of a task whose shape has been checked;
  \<open>AssignmentNilDereference\<close> stands for the panic on a \<open>nil\<close> there.
\<close>

definition validateActionTarget :: "Task \<Rightarrow> AssignmentError option" where
  "validateActionTarget task =
     (if task_StageKind task = StageShuffleMap then None
      else case (task_FinalAction task, so_RDD (last (task_Operations task))) of
        (Some action, Some rdd) \<Rightarrow> if act_TargetRDD action \<noteq> ro_RDDID rdd then Some ActionTarget else None
      | _ \<Rightarrow> Some AssignmentNilDereference)"

definition TaskAssignment_Validate :: "protocol_TaskAssignment \<Rightarrow> AssignmentError option" where
  "TaskAssignment_Validate a =
     (case TaskExecution_Validate (Execution a) of
        Some err \<Rightarrow> Some (AssignmentExecution err)
      | None \<Rightarrow>
          let task = pa_Task a in
          if tai_TaskID (pa_Attempt a) \<noteq> task_ID task \<or> pa_StageID a \<noteq> task_StageID task
          then Some AssignmentIdentity
          else if task_NumPartitions task \<le> 0 \<or> task_PartitionID task < 0 \<or>
                  task_PartitionID task \<ge> task_NumPartitions task
          then Some AssignmentPartition
          else (case validateAssignmentKind a of
                  Some err \<Rightarrow> Some err
                | None \<Rightarrow>
                    (case task_Operations task of
                       [] \<Rightarrow> Some AssignmentNoPipeline
                     | op # rest \<Rightarrow>
                         let readsShuffle = (so_Kind op = StageOperationShuffleRead) in
                         (case (if readsShuffle then validateReadAssignment a op rest
                                else if pa_ShuffleInputs a \<noteq> None then Some NarrowHasInputs else None) of
                            Some err \<Rightarrow> Some err
                          | None \<Rightarrow>
                              (case validatePipeline readsShuffle 0 (op # rest) {||} of
                                 Some err \<Rightarrow> Some err
                               | None \<Rightarrow> validateActionTarget task)))))"

datatype ResponseError =
    AssignmentsNil
  | AssignmentInvalid nat AssignmentError
  | DifferentWorkers
  | DuplicateAssignment TaskID TaskAttemptID

type_synonym logicalKey = "JobID \<times> StageID \<times> StageAttemptID \<times> TaskID"

definition logical_key :: "protocol_TaskAssignment \<Rightarrow> logicalKey" where
  "logical_key a = (pa_JobID a, pa_StageID a, tai_StageAttemptID (pa_Attempt a), tai_TaskID (pa_Attempt a))"

fun validateAssignmentList ::
  "WorkerID \<Rightarrow> nat \<Rightarrow> protocol_TaskAssignment list \<Rightarrow> TaskAttemptID fset \<Rightarrow> logicalKey fset \<Rightarrow> ResponseError option"
where
  "validateAssignmentList first i [] attempts tasks = None"
| "validateAssignmentList first i (a # rest) attempts tasks =
     (case TaskAssignment_Validate a of
        Some err \<Rightarrow> Some (AssignmentInvalid i err)
      | None \<Rightarrow>
          if pa_WorkerID a \<noteq> first then Some DifferentWorkers
          else if tai_ID (pa_Attempt a) |\<in>| attempts \<or> logical_key a |\<in>| tasks
          then Some (DuplicateAssignment (tai_TaskID (pa_Attempt a)) (tai_ID (pa_Attempt a)))
          else validateAssignmentList first (Suc i) rest
                 (finsert (tai_ID (pa_Attempt a)) attempts) (finsert (logical_key a) tasks))"

definition HeartbeatResponse_Validate :: "HeartbeatResponse \<Rightarrow> ResponseError option" where
  "HeartbeatResponse_Validate r =
     (case hr_Assignments r of
        None \<Rightarrow> Some AssignmentsNil
      | Some [] \<Rightarrow> None
      | Some (a # rest) \<Rightarrow> validateAssignmentList (pa_WorkerID a) 0 (a # rest) {||} {||})"

lemma TaskAssignment_Validate_None:
  "TaskAssignment_Validate a = None \<longleftrightarrow>
     TaskExecution_Validate (Execution a) = None \<and>
     tai_TaskID (pa_Attempt a) = task_ID (pa_Task a) \<and> pa_StageID a = task_StageID (pa_Task a) \<and>
     0 \<le> task_PartitionID (pa_Task a) \<and> task_PartitionID (pa_Task a) < task_NumPartitions (pa_Task a) \<and>
     validateAssignmentKind a = None \<and> task_Operations (pa_Task a) \<noteq> [] \<and>
     (let reads = so_Kind (hd (task_Operations (pa_Task a))) = StageOperationShuffleRead in
      (if reads then validateReadAssignment a (hd (task_Operations (pa_Task a))) (tl (task_Operations (pa_Task a))) = None
       else pa_ShuffleInputs a = None) \<and>
      validatePipeline reads 0 (task_Operations (pa_Task a)) {||} = None) \<and>
     validateActionTarget (pa_Task a) = None"
  unfolding TaskAssignment_Validate_def Let_def
  by (cases "TaskExecution_Validate (Execution a)"; cases "validateAssignmentKind a"; cases "task_Operations (pa_Task a)")
    (auto simp del: validatePipeline.simps split: option.splits if_splits)

lemma assigned_snapshot:
  assumes "TaskAssignment_Validate a = None" "pa_ShuffleInputs a = Some snap"
  shows "InputSnapshot_Validate snap = None" "is_JobID snap = pa_JobID a"
  using assms
  by (auto simp: TaskAssignment_Validate_None validateReadAssignment_def Let_def simp del: validatePipeline.simps
      split: if_splits option.splits list.splits)

lemma validateAssignmentList_None:
  "validateAssignmentList first i as seen tasks = None \<longleftrightarrow>
     (\<forall>a \<in> set as. TaskAssignment_Validate a = None \<and> pa_WorkerID a = first) \<and>
     distinct (map (\<lambda>a. tai_ID (pa_Attempt a)) as) \<and> (\<lambda>a. tai_ID (pa_Attempt a)) ` set as \<inter> fset seen = {} \<and>
     distinct (map logical_key as) \<and> logical_key ` set as \<inter> fset tasks = {}"
proof (induction as arbitrary: i seen tasks)
  case (Cons a as)
  show ?case
  proof (cases "TaskAssignment_Validate a")
    case None
    then show ?thesis by (auto simp: Cons.IH)
  qed simp
qed simp

lemma HeartbeatResponse_Validate_None:
  "HeartbeatResponse_Validate r = None \<longleftrightarrow>
     (\<exists>as. hr_Assignments r = Some as \<and>
        (\<forall>a \<in> set as. TaskAssignment_Validate a = None \<and> pa_WorkerID a = pa_WorkerID (hd as)) \<and>
        distinct (map (\<lambda>a. tai_ID (pa_Attempt a)) as) \<and> distinct (map logical_key as))"
proof (cases "hr_Assignments r")
  case (Some as)
  then show ?thesis
    by (cases as) (simp_all add: HeartbeatResponse_Validate_def validateAssignmentList_None del: validateAssignmentList.simps)
qed (simp add: HeartbeatResponse_Validate_def)

section \<open>Reports\<close>

definition protocol_TaskOutput_Validate :: "protocol_TaskOutput \<Rightarrow> ProtocolError option" where
  "protocol_TaskOutput_Validate o1 =
     (case po_ShuffleOutput o1 of
        Some m \<Rightarrow>
          if po_Records o1 \<noteq> None \<or> po_Count o1 \<noteq> 0 then Some ShuffleOutputHasResults
          else map_option OutputDescriptor (MapOutput_Validate m)
      | None \<Rightarrow>
          if po_Count o1 < 0 then Some CountNegative
          else if po_Records o1 \<noteq> None \<and> po_Count o1 \<noteq> 0 then Some RecordsAndCount
          else first_error (\<lambda>(i, record1). if json_Valid record1 then None else Some (RecordNotJSON i))
                 (enumerate 0 (case po_Records o1 of None \<Rightarrow> [] | Some rs \<Rightarrow> rs)))"

definition protocol_validateReport :: "WorkerID \<Rightarrow> PartitionID \<Rightarrow> ProtocolError option" where
  "protocol_validateReport worker part =
     (case validateWorker worker of
        Some err \<Rightarrow> Some err
      | None \<Rightarrow> if part < 0 then Some PartitionNegative else None)"

definition TaskSuccessRequest_Validate :: "TaskSuccessRequest \<Rightarrow> ProtocolError option" where
  "TaskSuccessRequest_Validate r =
     (case protocol_validateReport (tsr_WorkerID r) (tsr_PartitionID r) of
        Some err \<Rightarrow> Some err
      | None \<Rightarrow>
          (case protocol_TaskOutput_Validate (tsr_Output r) of
             Some err \<Rightarrow> Some err
           | None \<Rightarrow>
               (case po_ShuffleOutput (tsr_Output r) of
                  None \<Rightarrow> None
                | Some m \<Rightarrow>
                    let a = mo_Attempt m in
                    if ai_JobID a \<noteq> tsr_JobID r \<or> ai_StageID a \<noteq> tsr_StageID r \<or>
                       ai_StageAttemptID a \<noteq> tai_StageAttemptID (tsr_Attempt r) \<or>
                       ai_TaskID a \<noteq> tai_TaskID (tsr_Attempt r) \<or> ai_TaskAttemptID a \<noteq> tai_ID (tsr_Attempt r) \<or>
                       ai_MapPartitionID a \<noteq> tsr_PartitionID r
                    then Some OutputIdentityDiffers else None)))"

definition TaskFailureRequest_Validate :: "TaskFailureRequest \<Rightarrow> ProtocolError option" where
  "TaskFailureRequest_Validate r =
     (case ValidateFailure (tfr_Kind r) (tfr_ShuffleInput r) of
        Some err \<Rightarrow> Some (FailureInvalid err)
      | None \<Rightarrow>
          if (case tfr_ShuffleInput r of
                None \<Rightarrow> False
              | Some ref \<Rightarrow> ai_JobID (ir_Attempt ref) \<noteq> tfr_JobID r \<or> ir_PartitionID ref \<noteq> tfr_PartitionID r)
          then Some FailureInputDiffers
          else (case protocol_validateReport (tfr_WorkerID r) (tfr_PartitionID r) of
                  Some err \<Rightarrow> Some err
                | None \<Rightarrow> if blank (tfr_Error r) then Some ErrorMessageEmpty else None))"

definition TaskReportResponse_Validate :: "TaskReportResponse \<Rightarrow> ProtocolError option" where
  "TaskReportResponse_Validate r = (if \<not> tr_Acknowledged r then Some NotAcknowledged else None)"

section \<open>Results and errors\<close>

definition JobResultResponse_Validate :: "JobResultResponse \<Rightarrow> ProtocolError option" where
  "JobResultResponse_Validate r =
     (case protocol_TaskOutput_Validate \<lparr>po_ShuffleOutput = None, po_Records = jr_Records r, po_Count = jr_Count r\<rparr> of
        Some err \<Rightarrow> Some err
      | None \<Rightarrow>
          (case jr_Action r of
             ActionCount \<Rightarrow> if jr_Records r \<noteq> None then Some CountResultHasRecords else None
           | ActionCollect \<Rightarrow> if jr_Records r = None \<or> jr_Count r \<noteq> 0 then Some CollectResultInvalid else None
           | kind \<Rightarrow> Some (ResultAction kind)))"

definition ErrorResponse_Validate :: "ErrorResponse \<Rightarrow> ProtocolError option" where
  "ErrorResponse_Validate r =
     (if blank (er_Message r) then Some ResponseMessageEmpty
      else case er_Code r of
        ErrorCodeOther _ \<Rightarrow> Some (UnknownErrorCode (er_Code r))
      | _ \<Rightarrow> None)"

end
