(* ===== verification/Job_Spec.thy ===== *)
theory Job_Spec
  imports Stage_Planner
begin

text \<open>
  The driver's way into the system: the lazy RDD handles of \<open>src/api/rdd.go\<close>, \<open>src/api/context.go\<close> and
  \<open>src/api/stage_plan.go\<close>, and the job specifications of \<open>src/jobspec/spec.go\<close> and
  \<open>src/jobspec/build.go\<close>. A context owns one graph, which all handles of the context share: it is
  the state that the operations pass on. A handle keeps its identifier and whether its context is set.
  The theory shows that building records exactly the specified chain of operations, that the chain
  always passes validation, and when planning it succeeds.
\<close>

section \<open>Handles\<close>

record RDD =
  rdd_id :: RDDID
  rdd_hasCtx :: bool

datatype ApiError =
    CreateTextFile ShapeError
  | MissingContext string RDDID
  | ParentDoesNotExist string RDDID
  | AddNodeFailed string RDDID ShapeError
  | UnsupportedOperator OperatorKind
  | PlanFailed RDDID PlanError

definition zeroRDD :: RDD where
  "zeroRDD = \<lparr>rdd_id = 0, rdd_hasCtx = False\<rparr>"

definition TextFile :: "string \<Rightarrow> int \<Rightarrow> RDDGraph \<Rightarrow> (ApiError + RDD) \<times> RDDGraph" where
  "TextFile path numPartitions g =
     (case AddNode g \<lparr>node_ID = 0, node_Name = ''TextFile'',
             node_Operator = \<lparr>op_Kind = OpSource, op_FunctionID = [], op_SourcePath = path\<rparr>,
             node_Dependencies = [], node_NumPartitions = numPartitions, node_Partitioner = None\<rparr> of
        Inl err \<Rightarrow> (Inl (CreateTextFile err), g)
      | Inr (rid, g') \<Rightarrow> (Inr \<lparr>rdd_id = rid, rdd_hasCtx = True\<rparr>, g'))"

definition addNarrowTransformation ::
  "string \<Rightarrow> OperatorKind \<Rightarrow> string \<Rightarrow> bool \<Rightarrow> RDD \<Rightarrow> RDDGraph \<Rightarrow> (ApiError + RDD) \<times> RDDGraph"
where
  "addNarrowTransformation name kind functionID preservePartitioner r g =
     (if \<not> rdd_hasCtx r then (Inl (MissingContext name (rdd_id r)), g)
      else case Node g (rdd_id r) of
        None \<Rightarrow> (Inl (ParentDoesNotExist name (rdd_id r)), g)
      | Some parent \<Rightarrow>
          (case AddNode g \<lparr>node_ID = 0, node_Name = name,
                  node_Operator = \<lparr>op_Kind = kind, op_FunctionID = functionID, op_SourcePath = []\<rparr>,
                  node_Dependencies = [\<lparr>dep_Kind = DependencyNarrow, dep_ParentID = rdd_id r,
                    dep_Narrow = Some \<lparr>nds_Mapping = NarrowOneToOne\<rparr>, dep_Shuffle = None\<rparr>],
                  node_NumPartitions = node_NumPartitions parent,
                  node_Partitioner = (if preservePartitioner then node_Partitioner parent else None)\<rparr> of
             Inl err \<Rightarrow> (Inl (AddNodeFailed name (rdd_id r) err), g)
           | Inr (rid, g') \<Rightarrow> (Inr \<lparr>rdd_id = rid, rdd_hasCtx = True\<rparr>, g')))"

definition RDD_Map :: "string \<Rightarrow> RDD \<Rightarrow> RDDGraph \<Rightarrow> (ApiError + RDD) \<times> RDDGraph" where
  "RDD_Map functionID = addNarrowTransformation ''Map'' OpMap functionID False"

definition RDD_Filter :: "string \<Rightarrow> RDD \<Rightarrow> RDDGraph \<Rightarrow> (ApiError + RDD) \<times> RDDGraph" where
  "RDD_Filter functionID = addNarrowTransformation ''Filter'' OpFilter functionID True"

definition RDD_MapToPair :: "string \<Rightarrow> RDD \<Rightarrow> RDDGraph \<Rightarrow> (ApiError + RDD) \<times> RDDGraph" where
  "RDD_MapToPair functionID = addNarrowTransformation ''MapToPair'' OpMapToPair functionID False"

definition RDD_MapValues :: "string \<Rightarrow> RDD \<Rightarrow> RDDGraph \<Rightarrow> (ApiError + RDD) \<times> RDDGraph" where
  "RDD_MapValues functionID = addNarrowTransformation ''MapValues'' OpMapValues functionID True"

text \<open>
  The shuffle identifier is drawn while the argument of \<open>AddNode\<close> is evaluated, so it is spent even
  when the node is refused.
\<close>

definition RDD_ReduceByKey ::
  "string \<Rightarrow> PartitionerSpec \<Rightarrow> RDD \<Rightarrow> RDDGraph \<Rightarrow> (ApiError + RDD) \<times> RDDGraph"
where
  "RDD_ReduceByKey functionID partitioner r g =
     (if \<not> rdd_hasCtx r then (Inl (MissingContext ''reduce-by-key'' (rdd_id r)), g)
      else case Node g (rdd_id r) of
        None \<Rightarrow> (Inl (ParentDoesNotExist ''reduce-by-key'' (rdd_id r)), g)
      | Some _ \<Rightarrow>
          (case NewShuffleID g of (sid, g1) \<Rightarrow>
             (case AddNode g1 \<lparr>node_ID = 0, node_Name = ''ReduceByKey'',
                     node_Operator = \<lparr>op_Kind = OpReduceByKey, op_FunctionID = functionID, op_SourcePath = []\<rparr>,
                     node_Dependencies = [\<lparr>dep_Kind = DependencyShuffle, dep_ParentID = rdd_id r, dep_Narrow = None,
                       dep_Shuffle = Some \<lparr>sds_ShuffleID = sid, sds_Partitioner = partitioner,
                         sds_AggregatorID = functionID, sds_MapSideCombine = True\<rparr>\<rparr>],
                     node_NumPartitions = ps_NumPartitions partitioner,
                     node_Partitioner = Some partitioner\<rparr> of
                Inl err \<Rightarrow> (Inl (AddNodeFailed ''reduce-by-key'' (rdd_id r) err), g1)
              | Inr (rid, g') \<Rightarrow> (Inr \<lparr>rdd_id = rid, rdd_hasCtx = True\<rparr>, g'))))"

definition PlanStages :: "ActionKind \<Rightarrow> FunctionLookup option \<Rightarrow> RDD \<Rightarrow> RDDGraph \<Rightarrow> ApiError + StagePlan" where
  "PlanStages action functions r g =
     (if \<not> rdd_hasCtx r then Inl (MissingContext ''plan'' (rdd_id r))
      else case Plan (Some functions) (Some g) \<lparr>act_Kind = action, act_TargetRDD = rdd_id r\<rparr> of
        Inl err \<Rightarrow> Inl (PlanFailed (rdd_id r) err)
      | Inr p \<Rightarrow> Inr p)"

section \<open>Job specifications\<close>

record SourceSpec =
  src_Path :: string
  src_NumPartitions :: int

record TransformationSpec =
  tr_Kind :: OperatorKind
  tr_FunctionID :: string
  tr_NumPartitions :: int

record Spec =
  spec_Source :: SourceSpec
  spec_Transformations :: "TransformationSpec list"
  spec_Action :: ActionKind

datatype TransformationError =
    DoesNotAcceptNumPartitions OperatorKind
  | RequiresPositiveNumPartitions OperatorKind
  | UnsupportedTransformation OperatorKind
  | RequiresFunctionID OperatorKind

datatype SpecError =
    SpecSourcePathEmpty
  | SpecSourcePartitions
  | SpecTransformation nat TransformationError
  | SpecUnsupportedAction ActionKind

definition TransformationSpec_validate :: "TransformationSpec \<Rightarrow> TransformationError option" where
  "TransformationSpec_validate s =
     (case (case tr_Kind s of
              OpReduceByKey \<Rightarrow>
                if tr_NumPartitions s \<le> 0 then Some (RequiresPositiveNumPartitions (tr_Kind s)) else None
            | OpSource \<Rightarrow> Some (UnsupportedTransformation (tr_Kind s))
            | OperatorKindOther _ \<Rightarrow> Some (UnsupportedTransformation (tr_Kind s))
            | _ \<Rightarrow> if tr_NumPartitions s \<noteq> 0 then Some (DoesNotAcceptNumPartitions (tr_Kind s)) else None)
      of Some err \<Rightarrow> Some err
       | None \<Rightarrow> if tr_FunctionID s = [] then Some (RequiresFunctionID (tr_Kind s)) else None)"

definition Spec_Validate :: "Spec \<Rightarrow> SpecError option" where
  "Spec_Validate s =
     (if src_Path (spec_Source s) = [] then Some SpecSourcePathEmpty
      else if src_NumPartitions (spec_Source s) \<le> 0 then Some SpecSourcePartitions
      else case first_error (\<lambda>(i, t). map_option (SpecTransformation i) (TransformationSpec_validate t))
                  (enumerate 0 (spec_Transformations s)) of
        Some err \<Rightarrow> Some err
      | None \<Rightarrow>
          (case spec_Action s of
             ActionKindOther _ \<Rightarrow> Some (SpecUnsupportedAction (spec_Action s))
           | _ \<Rightarrow> None))"

definition applyTransformation :: "RDD \<Rightarrow> TransformationSpec \<Rightarrow> RDDGraph \<Rightarrow> (ApiError + RDD) \<times> RDDGraph" where
  "applyTransformation r t g =
     (case tr_Kind t of
        OpMap \<Rightarrow> RDD_Map (tr_FunctionID t) r g
      | OpFilter \<Rightarrow> RDD_Filter (tr_FunctionID t) r g
      | OpMapToPair \<Rightarrow> RDD_MapToPair (tr_FunctionID t) r g
      | OpMapValues \<Rightarrow> RDD_MapValues (tr_FunctionID t) r g
      | OpReduceByKey \<Rightarrow> RDD_ReduceByKey (tr_FunctionID t) (HashPartitioner (tr_NumPartitions t)) r g
      | kind \<Rightarrow> (Inl (UnsupportedOperator kind), g))"

datatype BuildError =
    BuildContextNil
  | BuildSpec SpecError
  | BuildSource ApiError
  | BuildTransformation nat ApiError

fun buildTransformations ::
  "nat \<Rightarrow> TransformationSpec list \<Rightarrow> RDD \<Rightarrow> RDDGraph \<Rightarrow> (BuildError + RDD) \<times> RDDGraph"
where
  "buildTransformations i [] r g = (Inr r, g)"
| "buildTransformations i (t # ts) r g =
     (case applyTransformation r t g of
        (Inl err, g') \<Rightarrow> (Inl (BuildTransformation i err), g')
      | (Inr r', g') \<Rightarrow> buildTransformations (Suc i) ts r' g')"

text \<open>The first argument tells whether the API context is set.\<close>

definition Build :: "bool \<Rightarrow> Spec \<Rightarrow> RDDGraph \<Rightarrow> (BuildError + RDD) \<times> RDDGraph" where
  "Build hasCtx spec g =
     (if \<not> hasCtx then (Inl BuildContextNil, g)
      else case Spec_Validate spec of
        Some err \<Rightarrow> (Inl (BuildSpec err), g)
      | None \<Rightarrow>
          (case TextFile (src_Path (spec_Source spec)) (src_NumPartitions (spec_Source spec)) g of
             (Inl err, g') \<Rightarrow> (Inl (BuildSource err), g')
           | (Inr r, g') \<Rightarrow> buildTransformations 0 (spec_Transformations spec) r g'))"

section \<open>The lineage a specification stands for\<close>

definition source_recorded :: "SourceSpec \<Rightarrow> RDDNode \<Rightarrow> bool" where
  "source_recorded src n \<longleftrightarrow>
     node_Operator n = \<lparr>op_Kind = OpSource, op_FunctionID = [], op_SourcePath = src_Path src\<rparr> \<and>
     node_Dependencies n = [] \<and> node_NumPartitions n = src_NumPartitions src"

text \<open>Node \<open>n\<close> applies transformation \<open>t\<close> to its only parent \<open>m\<close>.\<close>

definition step_recorded :: "TransformationSpec \<Rightarrow> RDDNode \<Rightarrow> RDDNode \<Rightarrow> bool" where
  "step_recorded t m n \<longleftrightarrow>
     node_Operator n = \<lparr>op_Kind = tr_Kind t, op_FunctionID = tr_FunctionID t, op_SourcePath = []\<rparr> \<and>
     (if tr_Kind t = OpReduceByKey
      then node_NumPartitions n = tr_NumPartitions t \<and>
        (\<exists>sid. node_Dependencies n = [\<lparr>dep_Kind = DependencyShuffle, dep_ParentID = node_ID m, dep_Narrow = None,
           dep_Shuffle = Some \<lparr>sds_ShuffleID = sid, sds_Partitioner = HashPartitioner (tr_NumPartitions t),
             sds_AggregatorID = tr_FunctionID t, sds_MapSideCombine = True\<rparr>\<rparr>])
      else node_NumPartitions n = node_NumPartitions m \<and>
        node_Dependencies n = [\<lparr>dep_Kind = DependencyNarrow, dep_ParentID = node_ID m,
           dep_Narrow = Some \<lparr>nds_Mapping = NarrowOneToOne\<rparr>, dep_Shuffle = None\<rparr>])"

text \<open>The graph consists of the source, numbered 0, and node \<open>i + 1\<close> for transformation \<open>i\<close>.\<close>

definition lineage_recorded :: "SourceSpec \<Rightarrow> TransformationSpec list \<Rightarrow> RDDGraph \<Rightarrow> bool" where
  "lineage_recorded src ts g \<longleftrightarrow>
     (\<exists>ns. length ns = Suc (length ts) \<and>
        (\<forall>a. fmlookup (nodes g) a = (if unat a < length ns then Some (ns ! unat a) else None)) \<and>
        (\<forall>i < length ns. node_ID (ns ! i) = of_nat i) \<and>
        source_recorded src (ns ! 0) \<and>
        (\<forall>i < length ts. step_recorded (ts ! i) (ns ! i) (ns ! Suc i)))"

definition function_registered :: "FunctionLookup \<Rightarrow> TransformationSpec \<Rightarrow> bool" where
  "function_registered fns t \<longleftrightarrow>
     (case tr_Kind t of
        OpMap \<Rightarrow> HasMap fns (tr_FunctionID t)
      | OpFilter \<Rightarrow> HasFilter fns (tr_FunctionID t)
      | OpMapToPair \<Rightarrow> HasPairMap fns (tr_FunctionID t)
      | OpMapValues \<Rightarrow> HasValueMap fns (tr_FunctionID t)
      | OpReduceByKey \<Rightarrow> HasReduce fns (tr_FunctionID t)
      | _ \<Rightarrow> False)"

definition reduce_steps :: "TransformationSpec list \<Rightarrow> nat" where
  "reduce_steps ts = length (filter (\<lambda>t. tr_Kind t = OpReduceByKey) ts)"

section \<open>Building\<close>

definition building :: "SourceSpec \<Rightarrow> TransformationSpec list \<Rightarrow> RDD \<Rightarrow> RDDGraph \<Rightarrow> bool" where
  "building src ts r g \<longleftrightarrow>
     lineage_recorded src ts g \<and> nextRDDID g = of_nat (Suc (length ts)) \<and>
     r = \<lparr>rdd_id = of_nat (length ts), rdd_hasCtx = True\<rparr> \<and>
     (\<forall>a n. fmlookup (nodes g) a = Some n \<longrightarrow> validateNodeShape n = None)"

lemma unat_of_nat64: "n < 2 ^ 64 \<Longrightarrow> unat (of_nat n :: 64 word) = n"
  by (simp add: unat_of_nat take_bit_nat_eq_self)

lemma less_Suc_unat: "unat a < Suc n \<longleftrightarrow> unat a < n \<or> a = (of_nat n :: 64 word)" if "n < 2 ^ 64"
  using unat_of_nat64[OF that] by (auto simp: less_Suc_eq)

lemma lineage_recorded_grow:
  assumes "lineage_recorded src ts g" "Suc (length ts) < 2 ^ 64"
    and "fmlookup (nodes g) (of_nat (length ts)) = Some m" "step_recorded t m n" "node_ID n = of_nat (Suc (length ts))"
    and "nodes g' = fmupd (of_nat (Suc (length ts))) n (nodes g)"
  shows "lineage_recorded src (ts @ [t]) g'"
proof -
  from assms(1) obtain ns where ns: "length ns = Suc (length ts)"
    "\<forall>a. fmlookup (nodes g) a = (if unat a < length ns then Some (ns ! unat a) else None)"
    "\<forall>i < length ns. node_ID (ns ! i) = of_nat i" "source_recorded src (ns ! 0)"
    "\<forall>i < length ts. step_recorded (ts ! i) (ns ! i) (ns ! Suc i)"
    by (auto simp: lineage_recorded_def)
  have m: "m = ns ! length ts"
    using assms(2,3) ns(1,2) unat_of_nat64[of "length ts"] by simp
  have new: "unat (of_nat (Suc (length ts)) :: 64 word) = length ns"
    using unat_of_nat64[OF assms(2)] ns(1) by simp
  have "fmlookup (nodes g') a = (if unat a < length (ns @ [n]) then Some ((ns @ [n]) ! unat a) else None)" for a
    using ns(1,2) assms(6) new less_Suc_unat[OF assms(2), of a] by (auto simp: nth_append)
  moreover have "\<forall>i < length (ns @ [n]). node_ID ((ns @ [n]) ! i) = of_nat i"
    using ns(1,3) assms(5) by (auto simp: nth_append less_Suc_eq)
  moreover have "\<forall>i < length (ts @ [t]). step_recorded ((ts @ [t]) ! i) ((ns @ [n]) ! i) ((ns @ [n]) ! Suc i)"
    using ns(1,5) assms(4) m by (auto simp: nth_append less_Suc_eq)
  ultimately show ?thesis
    unfolding lineage_recorded_def using ns(1,4) by (intro exI[of _ "ns @ [n]"]) (auto simp: nth_append)
qed

text \<open>One accepted node at the end of the chain.\<close>

lemma building_AddNode:
  assumes "building src ts r g" "Suc (length ts) < 2 ^ 64"
    and "fmlookup (nodes g) (of_nat (length ts)) = Some m" "step_recorded t m n" "validateNodeShape n = None"
    and "nodes g1 = nodes g" "nextRDDID g1 = nextRDDID g"
  shows "\<exists>g'. AddNode g1 n = Inr (of_nat (Suc (length ts)), g') \<and>
           building src (ts @ [t]) \<lparr>rdd_id = of_nat (Suc (length ts)), rdd_hasCtx = True\<rparr> g'"
proof -
  let ?k = "of_nat (Suc (length ts)) :: RDDID"
  define n' where "n' = n\<lparr>node_ID := ?k\<rparr>"
  define g' where "g' = g1\<lparr>nextRDDID := ?k + 1, nodes := fmupd ?k n' (nodes g)\<rparr>"
  have add: "AddNode g1 n = Inr (?k, g')"
    using assms by (simp add: AddNode_def building_def g'_def n'_def Let_def)
  have shape: "validateNodeShape n' = None"
    using assms(5) by (simp add: n'_def validateNodeShape_def cong: if_cong option.case_cong)
  have "step_recorded t m n'" using assms(4) by (simp add: step_recorded_def n'_def)
  moreover have "lineage_recorded src ts g" using assms(1) by (simp add: building_def)
  ultimately have "lineage_recorded src (ts @ [t]) g'"
    using assms(2,3) by (intro lineage_recorded_grow) (auto simp: g'_def n'_def)
  moreover have "\<forall>a x. fmlookup (nodes g') a = Some x \<longrightarrow> validateNodeShape x = None"
    using assms(1) shape by (auto simp: g'_def building_def)
  moreover have "nextRDDID g' = of_nat (Suc (length (ts @ [t])))"
    by (simp add: g'_def)
  ultimately have "building src (ts @ [t]) \<lparr>rdd_id = ?k, rdd_hasCtx = True\<rparr> g'"
    by (simp add: building_def)
  with add show ?thesis by blast
qed

lemma building_last:
  assumes "building src ts r g" "length ts < 2 ^ 64"
  shows "\<exists>m. fmlookup (nodes g) (of_nat (length ts)) = Some m \<and> node_ID m = of_nat (length ts) \<and>
     validateNodeShape m = None"
proof -
  from assms(1) obtain ns where ns: "length ns = Suc (length ts)"
    "\<forall>a. fmlookup (nodes g) a = (if unat a < length ns then Some (ns ! unat a) else None)"
    "\<forall>i < length ns. node_ID (ns ! i) = of_nat i"
    by (auto simp: building_def lineage_recorded_def)
  then have "fmlookup (nodes g) (of_nat (length ts)) = Some (ns ! length ts)"
    using unat_of_nat64[OF assms(2)] by simp
  moreover from this assms(1) have "validateNodeShape (ns ! length ts) = None"
    unfolding building_def by blast
  ultimately show ?thesis using ns(1,3) by simp
qed

lemma hash_shape: "0 < n \<Longrightarrow> validatePartitioner (HashPartitioner n) = None"
  by (simp add: validatePartitioner_def HashPartitioner_def)

lemma building_apply:
  assumes b: "building src ts r g" "Suc (length ts) < 2 ^ 64" and t: "TransformationSpec_validate t = None"
  shows "\<exists>r' g'. applyTransformation r t g = (Inr r', g') \<and> building src (ts @ [t]) r' g'"
proof -
  from building_last[OF b(1)] b(2) obtain m where
    m: "fmlookup (nodes g) (of_nat (length ts)) = Some m" "node_ID m = of_nat (length ts)" "validateNodeShape m = None"
    by auto
  have r: "r = \<lparr>rdd_id = of_nat (length ts), rdd_hasCtx = True\<rparr>" using b(1) by (simp add: building_def)
  have narrow: "\<exists>r' g'. addNarrowTransformation name (tr_Kind t) (tr_FunctionID t) keep r g = (Inr r', g') \<and>
      building src (ts @ [t]) r' g'" if "tr_Kind t \<noteq> OpReduceByKey" for name keep
  proof -
    let ?n = "\<lparr>node_ID = 0, node_Name = name,
      node_Operator = \<lparr>op_Kind = tr_Kind t, op_FunctionID = tr_FunctionID t, op_SourcePath = []\<rparr>,
      node_Dependencies = [\<lparr>dep_Kind = DependencyNarrow, dep_ParentID = rdd_id r,
        dep_Narrow = Some \<lparr>nds_Mapping = NarrowOneToOne\<rparr>, dep_Shuffle = None\<rparr>],
      node_NumPartitions = node_NumPartitions m,
      node_Partitioner = (if keep then node_Partitioner m else None)\<rparr>"
    have "step_recorded t m ?n" using that m(2) r by (simp add: step_recorded_def)
    moreover have "validateNodeShape ?n = None"
      using m(3) by (auto simp: validateNodeShape_def validateDependencyShape_def split: option.splits if_splits)
    ultimately obtain g' where "AddNode g ?n = Inr (of_nat (Suc (length ts)), g')"
      "building src (ts @ [t]) \<lparr>rdd_id = of_nat (Suc (length ts)), rdd_hasCtx = True\<rparr> g'"
      using building_AddNode[OF b m(1), of t ?n g] by auto
    then show ?thesis using r m(1) by (simp add: addNarrowTransformation_def Node_lookup)
  qed
  show ?thesis
  proof (cases "tr_Kind t = OpReduceByKey")
    case True
    let ?p = "HashPartitioner (tr_NumPartitions t)"
    let ?n = "\<lparr>node_ID = 0, node_Name = ''ReduceByKey'',
      node_Operator = \<lparr>op_Kind = OpReduceByKey, op_FunctionID = tr_FunctionID t, op_SourcePath = []\<rparr>,
      node_Dependencies = [\<lparr>dep_Kind = DependencyShuffle, dep_ParentID = rdd_id r, dep_Narrow = None,
        dep_Shuffle = Some \<lparr>sds_ShuffleID = nextShuffleID g, sds_Partitioner = ?p,
          sds_AggregatorID = tr_FunctionID t, sds_MapSideCombine = True\<rparr>\<rparr>],
      node_NumPartitions = tr_NumPartitions t, node_Partitioner = Some ?p\<rparr>"
    have pos: "0 < tr_NumPartitions t"
      using t True by (auto simp: TransformationSpec_validate_def split: if_splits)
    have "step_recorded t m ?n" using True m(2) r by (simp add: step_recorded_def)
    moreover have "validateNodeShape ?n = None"
      using pos hash_shape[OF pos]
      by (simp add: validateNodeShape_def validateDependencyShape_def HashPartitioner_def)
    ultimately obtain g' where "AddNode (snd (NewShuffleID g)) ?n = Inr (of_nat (Suc (length ts)), g')"
      "building src (ts @ [t]) \<lparr>rdd_id = of_nat (Suc (length ts)), rdd_hasCtx = True\<rparr> g'"
      using building_AddNode[OF b m(1), of t ?n "snd (NewShuffleID g)"] by (auto simp: NewShuffleID_def)
    then show ?thesis using r m(1) True
      by (simp add: applyTransformation_def RDD_ReduceByKey_def Node_lookup NewShuffleID_def HashPartitioner_def)
  next
    case False
    with narrow t show ?thesis
      by (cases "tr_Kind t") (auto simp: applyTransformation_def RDD_Map_def RDD_Filter_def RDD_MapToPair_def
          RDD_MapValues_def TransformationSpec_validate_def)
  qed
qed

lemma building_rest:
  assumes "building src done1 r g" "length done1 + length ts < 2 ^ 64 - 1"
    and "\<forall>t \<in> set ts. TransformationSpec_validate t = None"
  shows "\<exists>r' g'. buildTransformations i ts r g = (Inr r', g') \<and> building src (done1 @ ts) r' g'"
  using assms
proof (induction ts arbitrary: i done1 r g)
  case (Cons t ts)
  from building_apply[OF Cons.prems(1), of t] Cons.prems obtain r' g' where
    "applyTransformation r t g = (Inr r', g')" "building src (done1 @ [t]) r' g'" by auto
  with Cons.IH[of "done1 @ [t]" r' g' "Suc i"] Cons.prems show ?case by auto
qed simp

lemma first_error_enumerate [simp]:
  "first_error (\<lambda>(i, x). map_option (f i) (check x)) (enumerate k xs) = None \<longleftrightarrow> (\<forall>x \<in> set xs. check x = None)"
  by (induction xs arbitrary: k) (auto split: option.splits)

lemma Spec_Validate_None:
  "Spec_Validate s = None \<longleftrightarrow>
     src_Path (spec_Source s) \<noteq> [] \<and> 0 < src_NumPartitions (spec_Source s) \<and>
     (\<forall>t \<in> set (spec_Transformations s). TransformationSpec_validate t = None) \<and>
     spec_Action s \<in> {ActionCollect, ActionCount}"
proof (cases "first_error (\<lambda>(i, t). map_option (SpecTransformation i) (TransformationSpec_validate t))
    (enumerate 0 (spec_Transformations s))")
  case None
  then have "\<forall>t \<in> set (spec_Transformations s). TransformationSpec_validate t = None"
    by (simp only: first_error_enumerate)
  then show ?thesis by (auto simp: Spec_Validate_def None split: ActionKind.splits)
next
  case (Some e)
  then have "\<not> (\<forall>t \<in> set (spec_Transformations s). TransformationSpec_validate t = None)"
    by (simp only: first_error_enumerate[of SpecTransformation _ 0, symmetric]) simp
  then show ?thesis by (simp add: Spec_Validate_def Some)
qed

lemma building_source:
  assumes "src_Path src \<noteq> []" "0 < src_NumPartitions src"
  shows "\<exists>r g. TextFile (src_Path src) (src_NumPartitions src) NewRDDGraph = (Inr r, g) \<and> building src [] r g"
  using assms
  by (auto simp: TextFile_def AddNode_def NewRDDGraph_def validateNodeShape_def building_def lineage_recorded_def
      source_recorded_def unat_eq_0 intro!: exI[of _ "[_]"])

lemma Build_Inr:
  assumes "Spec_Validate spec = None" "length (spec_Transformations spec) < 2 ^ 64 - 1"
  shows "\<exists>r g. Build True spec NewRDDGraph = (Inr r, g) \<and>
     building (spec_Source spec) (spec_Transformations spec) r g"
proof -
  from assms(1) building_source[of "spec_Source spec"] obtain r g where
    src: "TextFile (src_Path (spec_Source spec)) (src_NumPartitions (spec_Source spec)) NewRDDGraph = (Inr r, g)"
    "building (spec_Source spec) [] r g"
    by (auto simp: Spec_Validate_None)
  have "\<forall>t \<in> set (spec_Transformations spec). TransformationSpec_validate t = None"
    using assms(1) by (simp add: Spec_Validate_None)
  with building_rest[OF src(2), of "spec_Transformations spec" 0] assms(2) obtain r' g' where
    "buildTransformations 0 (spec_Transformations spec) r g = (Inr r', g')"
    "building (spec_Source spec) (spec_Transformations spec) r' g'" by auto
  then show ?thesis by (simp add: Build_def src(1) assms(1))
qed

section \<open>The recorded chain\<close>

lemma building_wf:
  assumes "building src ts r g" "length ts < 2 ^ 64 - 1"
  shows "graph_wf g"
proof -
  from assms(1) obtain ns where ns: "length ns = Suc (length ts)"
    "\<forall>a. fmlookup (nodes g) a = (if unat a < length ns then Some (ns ! unat a) else None)"
    "\<forall>i < length ns. node_ID (ns ! i) = of_nat i" "nextRDDID g = of_nat (length ns)"
    by (auto simp: building_def lineage_recorded_def simp del: of_nat_Suc)
  have "unat (nextRDDID g) = length ns"
    using ns(1,4) assms(2) unat_of_nat64[of "length ns"] by simp
  with ns show ?thesis by (auto simp: graph_wf_def word_less_nat_alt split: if_splits)
qed

lemma building_node:
  assumes "building src ts r g" "length ts < 2 ^ 64 - 1" "i < length ts"
  obtains m n where "fmlookup (nodes g) (of_nat i) = Some m" "node_ID m = of_nat i"
    "fmlookup (nodes g) (of_nat (Suc i)) = Some n" "step_recorded (ts ! i) m n" "validateNodeShape n = None"
proof -
  from assms(1) obtain ns where ns: "length ns = Suc (length ts)"
    "\<forall>a. fmlookup (nodes g) a = (if unat a < length ns then Some (ns ! unat a) else None)"
    "\<forall>i < length ns. node_ID (ns ! i) = of_nat i"
    "\<forall>i < length ts. step_recorded (ts ! i) (ns ! i) (ns ! Suc i)"
    by (auto simp: building_def lineage_recorded_def)
  have "fmlookup (nodes g) (of_nat i) = Some (ns ! i)" "fmlookup (nodes g) (of_nat (Suc i)) = Some (ns ! Suc i)"
    using ns(1,2) assms(2,3) unat_of_nat64[of i] unat_of_nat64[of "Suc i"] by (simp_all del: of_nat_Suc)
  with ns assms(1,3) that[of "ns ! i" "ns ! Suc i"] show thesis
    unfolding building_def by (metis less_SucI)
qed

lemma step_node_ok:
  assumes "step_recorded t m n" "validateNodeShape n = None" "TransformationSpec_validate t = None"
    "fmlookup (nodes g) (node_ID m) = Some m"
  shows "node_ok g n" "\<exists>d. node_Dependencies n = [d] \<and> dep_ParentID d = node_ID m"
    "op_Kind (node_Operator n) = tr_Kind t"
    "validateNodeFunction n fns = None \<longleftrightarrow> function_registered fns t"
proof -
  have fid: "tr_FunctionID t \<noteq> []" "tr_Kind t \<noteq> OpSource" "\<nexists>k. tr_Kind t = OperatorKindOther k"
    using assms(3) by (auto simp: TransformationSpec_validate_def split: OperatorKind.splits option.splits if_splits)
  show "op_Kind (node_Operator n) = tr_Kind t" using assms(1) by (simp add: step_recorded_def)
  show "\<exists>d. node_Dependencies n = [d] \<and> dep_ParentID d = node_ID m"
    using assms(1) by (auto simp: step_recorded_def split: if_splits)
  show "validateNodeFunction n fns = None \<longleftrightarrow> function_registered fns t"
    using assms(1) fid
    by (cases "tr_Kind t") (auto simp: step_recorded_def validateNodeFunction_def function_registered_def Let_def)
  have "validateOperator n = None"
    using assms(1) fid by (cases "tr_Kind t") (auto simp: step_recorded_def validateOperator_def Let_def)
  with assms show "node_ok g n"
    by (auto simp: node_ok_def step_recorded_def shuffleCount_def HashPartitioner_def intro: fmdomI split: if_splits)
qed

lemma reduce_steps_snoc: "reduce_steps (ts @ [t]) = (if tr_Kind t = OpReduceByKey then 1 else 0) + reduce_steps ts"
  by (simp add: reduce_steps_def)

lemma recorded_source:
  assumes "building src ts r g" "src_Path src \<noteq> []"
  shows "valid_lineage g 0 \<and> functions_ok g fns 0 \<and> shuffles g 0 = {}"
proof -
  from assms(1) obtain ns where ns: "length ns = Suc (length ts)"
    "\<forall>a. fmlookup (nodes g) a = (if unat a < length ns then Some (ns ! unat a) else None)" "source_recorded src (ns ! 0)"
    by (auto simp: building_def lineage_recorded_def)
  then obtain n where n: "fmlookup (nodes g) 0 = Some n" "source_recorded src n" by simp
  moreover from n assms have "node_ok g n"
    by (auto simp: building_def node_ok_def source_recorded_def validateOperator_def)
  moreover have "ancestors g 0 = {0}" using n by (intro ancestors_source) (auto simp: source_recorded_def)
  moreover have "validateNodeFunction n fns = None" using n by (simp add: source_recorded_def validateNodeFunction_def)
  ultimately show ?thesis
    by (auto simp: functions_ok_def shuffles_def source_recorded_def parent_edges_def intro: valid_lineage.intros)
qed

lemma recorded_chain:
  assumes "building src ts r g" "length ts < 2 ^ 64 - 1" "src_Path src \<noteq> []"
    and "\<forall>t \<in> set ts. TransformationSpec_validate t = None" and "i \<le> length ts"
  shows "valid_lineage g (of_nat i) \<and>
     (functions_ok g fns (of_nat i) \<longleftrightarrow> (\<forall>t \<in> set (take i ts). function_registered fns t)) \<and>
     card (shuffles g (of_nat i)) = reduce_steps (take i ts)"
  using assms(5)
proof (induction i)
  case 0
  with recorded_source[OF assms(1,3)] show ?case by (simp add: reduce_steps_def)
next
  case (Suc i)
  then have i: "i < length ts" by simp
  let ?a = "of_nat (Suc i) :: RDDID"
  note wf = building_wf[OF assms(1,2)]
  from building_node[OF assms(1,2) i] obtain m n where mn: "fmlookup (nodes g) (of_nat i) = Some m"
    "node_ID m = of_nat i" "fmlookup (nodes g) ?a = Some n" "step_recorded (ts ! i) m n" "validateNodeShape n = None" .
  have t: "TransformationSpec_validate (ts ! i) = None" using assms(4) i by simp
  note ok = step_node_ok[OF mn(4,5) t, of g, unfolded mn(2), OF mn(1)]
  from ok(2) obtain d where d: "node_Dependencies n = [d]" "dep_ParentID d = of_nat i" by blast
  have edge: "(?a, dep_ParentID d) \<in> parent_edges g"
    using mn(1,2,3) d by (auto simp: parent_edges_def simp del: of_nat_Suc)
  have only: "b = of_nat i" if "(?a, b) \<in> parent_edges g" for b
    using that mn(1,2,3) d by (auto simp: parent_edges_def simp del: of_nat_Suc)
  have vl: "valid_lineage g ?a"
    by (rule valid_lineage[OF mn(3) ok(1)]) (use Suc i only in auto)
  have anc: "ancestors g ?a = insert ?a (ancestors g (of_nat i))"
    using ancestors_parent[OF wf mn(3) d(1) edge] d(2) by simp
  have "functions_ok g fns ?a \<longleftrightarrow> function_registered fns (ts ! i) \<and> functions_ok g fns (of_nat i)"
    using ok(4) mn(3) by (auto simp: functions_ok_def anc simp del: of_nat_Suc)
  moreover have "card (shuffles g ?a) = (if tr_Kind (ts ! i) = OpReduceByKey then 1 else 0) + card (shuffles g (of_nat i))"
    using shuffles_parent[OF wf mn(3) d(1) vl edge] d(2) Suc ok(3) by simp
  ultimately show ?case
    using vl Suc i by (auto simp: take_Suc_conv_app_nth reduce_steps_snoc simp del: of_nat_Suc)
qed

text \<open>
  C40: a job specification that passes its own validation can always be built, and nothing else can. The
  graph of the new context then consists exactly of the source and one node per transformation, each
  the only child of the one before, with the specified operator, function and partition count,
  and a shuffle exactly at every \<open>ReduceByKey\<close>. The target always passes lineage validation. It can be planned
  exactly when every named function is registered for its kind of operator, and its plan has one
  stage more than the job has \<open>ReduceByKey\<close> steps. (Fewer than \<open>2 ^ 64 - 1\<close> transformations, so that
  identifiers do not wrap.)
\<close>

theorem Build_correct:
  assumes "length (spec_Transformations spec) < 2 ^ 64 - 1"
  shows "case Build True spec NewRDDGraph of
      (Inl err, g) \<Rightarrow> Spec_Validate spec \<noteq> None \<and> g = NewRDDGraph
    | (Inr r, g) \<Rightarrow>
        Spec_Validate spec = None \<and>
        lineage_recorded (spec_Source spec) (spec_Transformations spec) g \<and>
        r = \<lparr>rdd_id = of_nat (length (spec_Transformations spec)), rdd_hasCtx = True\<rparr> \<and>
        Validate (Some g) (rdd_id r) = None \<and>
        (\<forall>fns. ((\<exists>p. PlanStages (spec_Action spec) (Some fns) r g = Inr p) \<longleftrightarrow>
                 (\<forall>t \<in> set (spec_Transformations spec). function_registered fns t)) \<and>
               (\<forall>p. PlanStages (spec_Action spec) (Some fns) r g = Inr p \<longrightarrow>
                 length (sp_Stages p) = Suc (reduce_steps (spec_Transformations spec))))"
proof (cases "Spec_Validate spec")
  case (Some e)
  then show ?thesis by (simp add: Build_def)
next
  case None
  let ?ts = "spec_Transformations spec"
  from Build_Inr[OF None assms] obtain r g where b: "Build True spec NewRDDGraph = (Inr r, g)"
    "building (spec_Source spec) ?ts r g" by blast
  have r: "r = \<lparr>rdd_id = of_nat (length ?ts), rdd_hasCtx = True\<rparr>" "lineage_recorded (spec_Source spec) ?ts g"
    using b(2) by (simp_all add: building_def)
  note wf = building_wf[OF b(2) assms]
  have spec: "src_Path (spec_Source spec) \<noteq> []" "\<forall>t \<in> set ?ts. TransformationSpec_validate t = None"
    "spec_Action spec \<in> {ActionCollect, ActionCount}"
    using None by (simp_all add: Spec_Validate_None)
  note chain = recorded_chain[OF b(2) assms spec(1,2) order_refl]
  have "(\<exists>p. PlanStages (spec_Action spec) (Some fns) r g = Inr p) \<longleftrightarrow> (\<forall>t \<in> set ?ts. function_registered fns t)" for fns
    using Plan_Inr(1)[OF wf, of fns "\<lparr>act_Kind = spec_Action spec, act_TargetRDD = of_nat (length ?ts)\<rparr>"] chain[of fns] spec(3)
    by (auto simp: PlanStages_def r(1) split: sum.splits)
  moreover have "length (sp_Stages p) = Suc (reduce_steps ?ts)" if "PlanStages (spec_Action spec) (Some fns) r g = Inr p" for fns p
    using that Plan_Inr(2)[OF wf, of fns "\<lparr>act_Kind = spec_Action spec, act_TargetRDD = of_nat (length ?ts)\<rparr>" p] chain[of fns]
    by (auto simp: PlanStages_def r(1) plan_chain_def split: sum.splits)
  moreover have "Validate (Some g) (rdd_id r) = None"
    using chain by (simp add: Validate_iff_valid_lineage r(1))
  ultimately show ?thesis using b(1) None r by simp
qed

definition ex_spec :: Spec where
  "ex_spec = \<lparr>spec_Source = \<lparr>src_Path = ''in.txt'', src_NumPartitions = 4\<rparr>,
     spec_Transformations =
       [\<lparr>tr_Kind = OpMapToPair, tr_FunctionID = ''word_pair'', tr_NumPartitions = 0\<rparr>,
        \<lparr>tr_Kind = OpReduceByKey, tr_FunctionID = ''sum_int'', tr_NumPartitions = 2\<rparr>],
     spec_Action = ActionCollect\<rparr>"

theorem Build_correct_witness:
  "\<exists>r g p. Build True ex_spec NewRDDGraph = (Inr r, g) \<and>
     PlanStages ActionCollect (Some ex_functions) r g = Inr p \<and> length (sp_Stages p) = 2"
proof -
  have v: "Spec_Validate ex_spec = None" by code_simp
  have len: "length (spec_Transformations ex_spec) < 2 ^ 64 - 1" by (simp add: ex_spec_def)
  obtain r g where b: "Build True ex_spec NewRDDGraph = (Inr r, g)"
    using Build_correct[OF len] v
    by (cases "Build True ex_spec NewRDDGraph"; cases "fst (Build True ex_spec NewRDDGraph)") auto
  have ex: "\<forall>t \<in> set (spec_Transformations ex_spec). function_registered ex_functions t"
    "Suc (reduce_steps (spec_Transformations ex_spec)) = 2" "spec_Action ex_spec = ActionCollect"
    by code_simp+
  have "\<exists>p. PlanStages (spec_Action ex_spec) (Some ex_functions) r g = Inr p \<and> length (sp_Stages p) = 2"
  proof -
    have "\<forall>fns. ((\<exists>p. PlanStages (spec_Action ex_spec) (Some fns) r g = Inr p) \<longleftrightarrow>
          (\<forall>t \<in> set (spec_Transformations ex_spec). function_registered fns t)) \<and>
        (\<forall>p. PlanStages (spec_Action ex_spec) (Some fns) r g = Inr p \<longrightarrow> length (sp_Stages p) = 2)"
      using Build_correct[OF len] unfolding b prod.case sum.case ex(2) by blast
    with ex(1) show ?thesis by blast
  qed
  with b ex(3) show ?thesis by auto
qed

end
