(* ===== verification/Planned_Assignments.thy ===== *)
theory Planned_Assignments
  imports Wire_Protocol Job_Spec
begin

text \<open>
  Planning meets the protocol: what the coordinator sends out was produced by the job specification, the
  planner and the task generator, and a worker accepts it only when it passes the validation
  of \<open>src/protocol/validate.go\<close>. The theory follows a task through these steps.
\<close>

section \<open>Where the operations of a stage come from\<close>

text \<open>Narrow dependencies between stored nodes keep the partition count.\<close>

definition aligned :: "RDDGraph \<Rightarrow> bool" where
  "aligned g \<longleftrightarrow>
     (\<forall>a n d p. fmlookup (nodes g) a = Some n \<longrightarrow> d \<in> set (node_Dependencies n) \<longrightarrow> dep_Kind d = DependencyNarrow \<longrightarrow>
        fmlookup (nodes g) (dep_ParentID d) = Some p \<longrightarrow> node_NumPartitions n = node_NumPartitions p)"

text \<open>The stored nodes behind a pipeline that computes \<open>a\<close>, in order.\<close>

definition pipeline_nodes :: "RDDGraph \<Rightarrow> RDDID \<Rightarrow> RDDNode list \<Rightarrow> bool" where
  "pipeline_nodes g a ns \<longleftrightarrow>
     ns \<noteq> [] \<and> node_ID (last ns) = a \<and> distinct (map node_ID ns) \<and>
     (\<forall>n \<in> set ns. fmlookup (nodes g) (node_ID n) = Some n \<and> node_ID n \<in> ancestors g a \<and>
        node_NumPartitions n = node_NumPartitions (hd ns)) \<and>
     (\<forall>n \<in> set (tl ns). narrow_op (op_Kind (node_Operator n)))"

definition pipeline_start :: "RDDNode \<Rightarrow> StageOperation list \<Rightarrow> bool" where
  "pipeline_start n prefix \<longleftrightarrow>
     op_Kind (node_Operator n) = OpSource \<and> prefix = [] \<or>
     op_Kind (node_Operator n) = OpReduceByKey \<and>
       (\<exists>d sh. node_Dependencies n = [d] \<and> dep_Shuffle d = Some sh \<and> prefix = [shuffle_read sh] \<and>
          ps_Kind (sds_Partitioner sh) = PartitionerHash \<and>
          ps_NumPartitions (sds_Partitioner sh) = node_NumPartitions n)"

definition pipeline_from :: "RDDGraph \<Rightarrow> RDDID \<Rightarrow> StageOperation list \<Rightarrow> bool" where
  "pipeline_from g a operations \<longleftrightarrow>
     (\<exists>ns prefix. pipeline_nodes g a ns \<and> pipeline_start (hd ns) prefix \<and>
        operations = prefix @ map rdd_operation ns)"

definition write_from :: "RDDGraph \<Rightarrow> ShuffleWriteSpec option \<Rightarrow> bool" where
  "write_from g write \<longleftrightarrow>
     (\<forall>w. write = Some w \<longrightarrow> (\<exists>a n d sh. fmlookup (nodes g) a = Some n \<and> d \<in> set (node_Dependencies n) \<and>
        dep_Shuffle d = Some sh \<and> w = shuffle_write sh))"

definition stage_from :: "RDDGraph \<Rightarrow> Stage \<Rightarrow> bool" where
  "stage_from g s \<longleftrightarrow>
     write_from g (stage_ShuffleWrite s) \<and>
     (\<exists>a n. fmlookup (nodes g) a = Some n \<and> pipeline_from g a (stage_Operations s) \<and>
        stage_NumPartitions s = node_NumPartitions n)"

lemma stage_fromI:
  "write_from g w \<Longrightarrow> fmlookup (nodes g) a = Some n \<Longrightarrow> pipeline_from g a operations \<Longrightarrow>
     stage_from g \<lparr>stage_ID = sid, stage_Kind = kind, stage_ParentIDs = ps, stage_NumPartitions = node_NumPartitions n,
       stage_Operations = operations, stage_ShuffleWrite = w, stage_FinalAction = act\<rparr>"
  by (auto simp: stage_from_def)

lemma write_from_None [simp]: "write_from g None"
  by (simp add: write_from_def)

lemma pipeline_nodes_snoc:
  assumes "pipeline_nodes g b ns" "fmlookup (nodes g) a = Some n" "node_ID n = a"
    and "ancestors g a = insert a (ancestors g b)" "a \<notin> ancestors g b"
    and "narrow_op (op_Kind (node_Operator n))" "fmlookup (nodes g) b = Some p" "node_NumPartitions n = node_NumPartitions p"
  shows "pipeline_nodes g a (ns @ [n])"
proof -
  note ns = assms(1)[unfolded pipeline_nodes_def]
  have mem: "last ns \<in> set ns" using ns by simp
  then have "fmlookup (nodes g) b = Some (last ns)" "node_NumPartitions (last ns) = node_NumPartitions (hd ns)"
    using ns by blast+
  then have parts: "node_NumPartitions n = node_NumPartitions (hd ns)" using assms(7,8) by simp
  have new: "a \<notin> node_ID ` set ns" using ns assms(5) by blast
  have "\<forall>x \<in> set (ns @ [n]). fmlookup (nodes g) (node_ID x) = Some x \<and> node_ID x \<in> ancestors g a \<and>
      node_NumPartitions x = node_NumPartitions (hd (ns @ [n]))"
  proof
    fix x assume x: "x \<in> set (ns @ [n])"
    have hd: "hd (ns @ [n]) = hd ns" using ns by simp
    show "fmlookup (nodes g) (node_ID x) = Some x \<and> node_ID x \<in> ancestors g a \<and>
      node_NumPartitions x = node_NumPartitions (hd (ns @ [n]))"
    proof (cases "x \<in> set ns")
      case True
      then show ?thesis unfolding hd assms(4) using ns by blast
    next
      case False
      then have "x = n" using x by simp
      then show ?thesis unfolding hd assms(4) using parts assms(2,3) by simp
    qed
  qed
  moreover have "distinct (map node_ID (ns @ [n]))" using ns new assms(3) by simp
  moreover have "\<forall>x \<in> set (tl (ns @ [n])). narrow_op (op_Kind (node_Operator x))"
    using ns assms(6) by (auto simp: tl_append split: list.splits)
  ultimately show ?thesis using assms(3) unfolding pipeline_nodes_def by simp
qed

lemma buildPipeline_from:
  assumes wf: "graph_wf g" and al: "aligned g"
    and "buildPipeline fuel g b a = Inr (operations, parents, b')" "valid_lineage g a"
    and "\<forall>s \<in> set (b_stages b). stage_from g s"
  shows "pipeline_from g a operations \<and> (\<forall>s \<in> set (b_stages b'). stage_from g s)"
  using assms(3-)
proof (induction fuel arbitrary: b a operations parents b')
  case (Suc fuel)
  from wf Suc.prems(2) obtain n where n: "fmlookup (nodes g) a = Some n" "node_ok g n" "node_ID n = a"
    and par: "\<And>d. d \<in> set (node_Dependencies n) \<Longrightarrow> valid_lineage g (dep_ParentID d) \<and> (a, dep_ParentID d) \<in> parent_edges g"
    by (rule valid_lineage_chain) blast
  from n(2) show ?case
  proof (cases rule: node_ok_cases)
    case source
    then have "pipeline_nodes g a [n]" "pipeline_start n []"
      using n by (simp_all add: pipeline_nodes_def pipeline_start_def ancestors_self)
    moreover have "operations = [] @ map rdd_operation [n]" "b' = b"
      using Suc.prems(1) n source by (simp_all add: Node_lookup)
    ultimately show ?thesis using Suc.prems(3) by (force simp: pipeline_from_def)
  next
    case (narrow d)
    from Suc.prems(1) n narrow obtain ops1 where
      rec: "buildPipeline fuel g b (dep_ParentID d) = Inr (ops1, parents, b')" "operations = ops1 @ [rdd_operation n]"
      by (auto simp: Node_lookup split: sum.splits)
    from par[of d] narrow(2) have vl: "valid_lineage g (dep_ParentID d)" "(a, dep_ParentID d) \<in> parent_edges g" by auto
    from Suc.IH[OF rec(1) vl(1) Suc.prems(3)] obtain ns prefix where
      ns: "pipeline_nodes g (dep_ParentID d) ns" "pipeline_start (hd ns) prefix" "ops1 = prefix @ map rdd_operation ns"
      and stages: "\<forall>s \<in> set (b_stages b'). stage_from g s"
      by (auto simp: pipeline_from_def)
    obtain p where p: "fmlookup (nodes g) (dep_ParentID d) = Some p"
      using valid_lineage_dom[OF vl(1)] by (auto elim: fmdomE)
    have "node_NumPartitions n = node_NumPartitions p"
      using al n(1) narrow(2,3) p unfolding aligned_def by fastforce
    then have "pipeline_nodes g a (ns @ [n])"
      using pipeline_nodes_snoc[OF ns(1) n(1,3) ancestors_parent[OF wf n(1) narrow(2) vl(2)]
          ancestors_not_self[OF Suc.prems(2) vl(2)] narrow(1) p] by simp
    moreover have "hd (ns @ [n]) = hd ns" using ns(1) by (simp add: pipeline_nodes_def)
    ultimately have "pipeline_from g a operations"
      unfolding pipeline_from_def rec(2) ns(3) using ns(2)
      by (intro exI[of _ "ns @ [n]"] exI[of _ prefix]) simp
    with stages show ?thesis by simp
  next
    case (shuffle d sh)
    from par[of d] shuffle(2) have vl: "valid_lineage g (dep_ParentID d)" by auto
    from valid_lineage_dom[OF vl] obtain p where p: "fmlookup (nodes g) (dep_ParentID d) = Some p"
      by (auto elim: fmdomE)
    have ops: "operations = [shuffle_read sh, rdd_operation n]"
      using Suc.prems(1) n shuffle by (auto simp: Node_lookup split: sum.splits)
    have "pipeline_nodes g a [n]" "pipeline_start n [shuffle_read sh]"
      using n shuffle by (auto simp: pipeline_nodes_def pipeline_start_def ancestors_self)
    then have "pipeline_from g a operations" by (force simp: pipeline_from_def ops)
    moreover have "\<forall>s \<in> set (b_stages b'). stage_from g s"
    proof (cases "fmlookup (b_shuffleStages b) (sds_ShuffleID sh)")
      case None
      with Suc.prems(1) n shuffle obtain ops1 ps1 b1 where
        rec: "buildPipeline fuel g b (dep_ParentID d) = Inr (ops1, ps1, b1)"
        by (auto simp: Node_lookup Let_def split: sum.splits prod.splits)
      from Suc.IH[OF rec vl Suc.prems(3)] have
        IH: "pipeline_from g (dep_ParentID d) ops1" "\<forall>s \<in> set (b_stages b1). stage_from g s" by auto
      have "write_from g (Some (shuffle_write sh))"
        using n(1) shuffle(2,4) unfolding write_from_def by fastforce
      with IH Suc.prems(1) n shuffle None rec p show ?thesis
        by (auto simp: Node_lookup Let_def intro: stage_fromI)
    next
      case (Some sid)
      with Suc.prems n shuffle show ?thesis by (auto simp: Node_lookup split: sum.splits)
    qed
    ultimately show ?thesis by simp
  qed
qed simp

lemma Plan_stage_from:
  assumes wf: "graph_wf g" and al: "aligned g" and "Plan (Some (Some fns)) (Some g) action = Inr p" "s \<in> set (sp_Stages p)"
  shows "stage_from g s"
proof -
  let ?t = "act_TargetRDD action"
  have vl: "valid_lineage g ?t" using Plan_Inr(1)[OF wf, of fns action] assms(3) by blast
  from valid_lineage_dom[OF vl] obtain n where n: "fmlookup (nodes g) ?t = Some n" by (auto elim: fmdomE)
  from assms(3) obtain sid b where b:
    "buildStage (validate_fuel g) g empty_builder ?t StageResult None (Some action) = Inr (sid, b)" "sp_Stages p = b_stages b"
    by (auto simp: Plan_def empty_builder_def simp del: buildStage.simps split: option.splits sum.splits)
  then obtain operations parents b1 where
    rec: "buildPipeline (validate_fuel g) g empty_builder ?t = Inr (operations, parents, b1)"
    by (auto split: sum.splits)
  from buildPipeline_from[OF wf al rec vl] have "pipeline_from g ?t operations" "\<forall>s \<in> set (b_stages b1). stage_from g s"
    by (auto simp: empty_builder_def)
  with b rec n assms(4) show ?thesis
    by (auto simp: Node_lookup Let_def intro: stage_fromI[OF write_from_None])
qed

section \<open>The checks of a worker on a planned pipeline\<close>

definition operator_named :: "OperatorSpec \<Rightarrow> bool" where
  "operator_named op \<longleftrightarrow> \<not> blank (if op_Kind op = OpSource then op_SourcePath op else op_FunctionID op)"

text \<open>A task whose source path, functions and aggregator are not blank.\<close>

definition task_named :: "Task \<Rightarrow> bool" where
  "task_named task \<longleftrightarrow>
     (\<forall>operation \<in> set (task_Operations task).
        case so_RDD operation of None \<Rightarrow> True | Some rdd \<Rightarrow> operator_named (ro_Operator rdd)) \<and>
     (case task_ShuffleWrite task of None \<Rightarrow> True | Some w \<Rightarrow> \<not> blank (sw_AggregatorID w))"

text \<open>Every operator has either a path or a function, as the API creates them.\<close>

definition one_name :: "RDDNode \<Rightarrow> bool" where
  "one_name n \<longleftrightarrow>
     (if op_Kind (node_Operator n) = OpSource then op_FunctionID (node_Operator n) = []
      else op_SourcePath (node_Operator n) = [])"

lemma operation_fields [simp]:
  "so_Kind (rdd_operation n) = StageOperationRDD" "so_ShuffleRead (rdd_operation n) = None"
  "so_RDD (rdd_operation n) = Some \<lparr>ro_RDDID = node_ID n, ro_Operator = node_Operator n\<rparr>"
  "so_Kind (shuffle_read sh) = StageOperationShuffleRead" "so_RDD (shuffle_read sh) = None"
  "so_ShuffleRead (shuffle_read sh) = Some \<lparr>sr_ShuffleID = sds_ShuffleID sh, sr_Partitioner = sds_Partitioner sh\<rparr>"
  by (simp_all add: rdd_operation_def shuffle_read_def)

lemma validatePipeline_narrow:
  assumes "\<forall>n \<in> set ns. narrow_op (op_Kind (node_Operator n)) \<and> one_name n"
    and "distinct (map node_ID ns)" "node_ID ` set ns \<inter> fset seen = {}" "0 < i" "readsShuffle \<longrightarrow> 1 < i"
  shows "validatePipeline readsShuffle i (map rdd_operation ns) seen = None \<longleftrightarrow>
     (\<forall>n \<in> set ns. operator_named (node_Operator n))"
  using assms
proof (induction ns arbitrary: i seen)
  case (Cons n ns)
  have "validateAssignedOperator readsShuffle i (node_Operator n) = None \<longleftrightarrow> operator_named (node_Operator n)"
    using Cons.prems
    by (auto simp: validateAssignedOperator_def operator_named_def narrow_op_def one_name_def split: OperatorKind.splits)
  moreover have "validatePipeline readsShuffle (Suc i) (map rdd_operation ns) (finsert (node_ID n) seen) = None \<longleftrightarrow>
      (\<forall>n \<in> set ns. operator_named (node_Operator n))"
    using Cons.prems by (intro Cons.IH) auto
  ultimately show ?case
    using Cons.prems by (auto split: option.splits)
qed simp

lemma validatePipeline_planned:
  assumes "pipeline_nodes g a ns" "pipeline_start (hd ns) prefix" "\<forall>n \<in> set ns. one_name n"
  shows "validatePipeline (prefix \<noteq> []) 0 (prefix @ map rdd_operation ns) {||} = None \<longleftrightarrow>
     (\<forall>n \<in> set ns. operator_named (node_Operator n))"
proof -
  obtain n rest where ns: "ns = n # rest" using assms(1) by (cases ns) (auto simp: pipeline_nodes_def)
  have rest: "\<forall>m \<in> set rest. narrow_op (op_Kind (node_Operator m)) \<and> one_name m"
    "distinct (map node_ID rest)" "node_ID ` set rest \<inter> fset {|node_ID n|} = {}"
    using assms(1,3) by (auto simp: pipeline_nodes_def ns)
  have one: "one_name n" using assms(3) by (simp add: ns)
  from assms(2) consider "op_Kind (node_Operator n) = OpSource" "prefix = []"
    | sh where "op_Kind (node_Operator n) = OpReduceByKey" "prefix = [shuffle_read sh]"
    by (auto simp: pipeline_start_def ns)
  then show ?thesis
  proof cases
    case 1
    with one validatePipeline_narrow[OF rest, of 1 False] show ?thesis
      by (auto simp: ns validateAssignedOperator_def operator_named_def one_name_def)
  next
    case 2
    with one validatePipeline_narrow[OF rest, of 2 True] show ?thesis
      by (auto simp: ns validateAssignedOperator_def operator_named_def one_name_def
          numeral_2_eq_2)
  qed
qed

text \<open>The shuffle inputs of an assignment: exactly those its first operation reads.\<close>

definition inputs_match :: "protocol_TaskAssignment \<Rightarrow> bool" where
  "inputs_match a \<longleftrightarrow>
     (case so_ShuffleRead (hd (task_Operations (pa_Task a))) of
        None \<Rightarrow> pa_ShuffleInputs a = None
      | Some read \<Rightarrow>
          (\<exists>snap. pa_ShuffleInputs a = Some snap \<and> InputSnapshot_Validate snap = None \<and>
             is_RunID snap = pa_RunID a \<and> is_JobID snap = pa_JobID a \<and> is_ShuffleID snap = sr_ShuffleID read \<and>
             is_NumReducePartitions snap = ps_NumPartitions (sr_Partitioner read)))"

text \<open>The identity of an assignment fits its task.\<close>

definition identity_fits :: "protocol_TaskAssignment \<Rightarrow> bool" where
  "identity_fits a \<longleftrightarrow>
     lowerHex (pa_RunID a) 32 \<and> \<not> blank (pa_WorkerID a) \<and>
     tai_TaskID (pa_Attempt a) = task_ID (pa_Task a) \<and> pa_StageID a = task_StageID (pa_Task a)"

text \<open>What the stage of an executable plan adds to its pipeline.\<close>

definition executable_stage :: "RDDID \<Rightarrow> Stage \<Rightarrow> bool" where
  "executable_stage target s \<longleftrightarrow>
     map_stage s \<and> so_Kind (hd (stage_Operations s)) = StageOperationRDD \<or>
     stage_Kind s = StageResult \<and> stage_ShuffleWrite s = None \<and>
       (\<exists>action. stage_FinalAction s = Some action \<and> act_Kind action \<in> {ActionCollect, ActionCount} \<and>
          map_option ro_RDDID (so_RDD (last (stage_Operations s))) = Some (act_TargetRDD action))"

lemma executable_kind:
  assumes "executable_stage target s" "pa_Task a = stage_task s i part" "map_stage s \<longrightarrow> pa_ShuffleInputs a = None"
  shows "validateAssignmentKind a = None \<longleftrightarrow> (\<forall>w. stage_ShuffleWrite s = Some w \<longrightarrow> \<not> blank (sw_AggregatorID w))"
    and "validateActionTarget (pa_Task a) = None"
  using assms
  by (auto simp: executable_stage_def map_stage_def validateAssignmentKind_def validateActionTarget_def stage_task_def
      Let_def)

lemma assignment_of_stage:
  assumes s: "stage_from g s" "executable_stage target s" and named: "\<forall>a n. fmlookup (nodes g) a = Some n \<longrightarrow> one_name n"
    and task: "pa_Task a = stage_task s i part" "0 \<le> part" "part < stage_NumPartitions s"
    and a: "identity_fits a" "inputs_match a"
  shows "TaskAssignment_Validate a = None \<longleftrightarrow> task_named (pa_Task a)"
proof -
  from s(1) obtain b n ns prefix where
    ns: "fmlookup (nodes g) b = Some n" "pipeline_nodes g b ns" "pipeline_start (hd ns) prefix"
    "stage_Operations s = prefix @ map rdd_operation ns" "stage_NumPartitions s = node_NumPartitions n"
    by (auto simp: stage_from_def pipeline_from_def)
  have one: "\<forall>n \<in> set ns. one_name n" using ns(2) named by (auto simp: pipeline_nodes_def)
  obtain m rest where m: "ns = m # rest" using ns(2) by (cases ns) (auto simp: pipeline_nodes_def)
  have parts: "stage_NumPartitions s = node_NumPartitions m"
  proof -
    have "last ns \<in> set ns" "node_ID (last ns) = b" using ns(2) by (auto simp: pipeline_nodes_def)
    then have "last ns = n" "node_NumPartitions (last ns) = node_NumPartitions (hd ns)"
      using ns(1,2) unfolding pipeline_nodes_def by (metis option.inject, blast)
    then show ?thesis using ns(5) by (simp add: m)
  qed
  have ops: "task_Operations (pa_Task a) = prefix @ map rdd_operation ns" by (simp add: task stage_task_def ns)
  have named_iff: "task_named (pa_Task a) \<longleftrightarrow>
      validatePipeline (prefix \<noteq> []) 0 (prefix @ map rdd_operation ns) {||} = None \<and>
      (\<forall>w. stage_ShuffleWrite s = Some w \<longrightarrow> \<not> blank (sw_AggregatorID w))"
    unfolding validatePipeline_planned[OF ns(2,3) one] task_named_def ops
    using ns(3) by (auto simp: task stage_task_def pipeline_start_def split: option.splits)
  have exec: "TaskExecution_Validate (Execution a) = None"
    using a(1) by (simp add: TaskExecution_Validate_def Execution_def identity_fits_def)
  from ns(3) consider (source) "prefix = []"
    | (read) d sh where "node_Dependencies m = [d]" "dep_Shuffle d = Some sh" "prefix = [shuffle_read sh]"
      "ps_Kind (sds_Partitioner sh) = PartitionerHash" "ps_NumPartitions (sds_Partitioner sh) = node_NumPartitions m"
      "op_Kind (node_Operator m) = OpReduceByKey"
    by (auto simp: pipeline_start_def m)
  then show ?thesis
  proof cases
    case source
    have "pa_ShuffleInputs a = None" using a(2) by (simp add: inputs_match_def ops source m)
    moreover have "validatePipeline False 0 (rdd_operation m # map rdd_operation rest) {||} = None \<longleftrightarrow>
        validatePipeline (prefix \<noteq> []) 0 (prefix @ map rdd_operation ns) {||} = None"
      by (simp add: source m)
    ultimately show ?thesis
      using executable_kind[OF s(2) task(1)] a(1) task(2,3) named_iff exec
      by (simp add: TaskAssignment_Validate_None ns(4) source m Let_def identity_fits_def task stage_task_def conj_commute
          del: validatePipeline.simps)
  next
    case read
    from a(2) obtain snap where snap: "pa_ShuffleInputs a = Some snap" "InputSnapshot_Validate snap = None"
      "is_RunID snap = pa_RunID a" "is_JobID snap = pa_JobID a" "is_ShuffleID snap = sds_ShuffleID sh"
      "is_NumReducePartitions snap = ps_NumPartitions (sds_Partitioner sh)"
      by (auto simp: inputs_match_def ops read m)
    have result: "stage_Kind s = StageResult"
      using s(2) ns(4) by (auto simp: executable_stage_def read m)
    then have "validateReadAssignment a (shuffle_read sh) (map rdd_operation ns) = None"
      using snap read parts by (simp add: validateReadAssignment_def task stage_task_def m)
    moreover have "\<not> map_stage s" using result by (simp add: map_stage_def)
    moreover have "validatePipeline True 0 (shuffle_read sh # map rdd_operation ns) {||} = None \<longleftrightarrow>
        validatePipeline (prefix \<noteq> []) 0 (prefix @ map rdd_operation ns) {||} = None"
      by (simp add: read)
    ultimately show ?thesis
      using executable_kind[OF s(2) task(1)] a(1) task(2,3) named_iff exec
      by (simp add: TaskAssignment_Validate_None ns(4) read Let_def identity_fits_def task stage_task_def conj_commute
          del: validatePipeline.simps)
  qed
qed

section \<open>From a job specification to accepted assignments\<close>

lemma building_graph:
  assumes "building src ts r g" "length ts < 2 ^ 64 - 1" "\<forall>t \<in> set ts. TransformationSpec_validate t = None"
  shows "aligned g" "fmlookup (nodes g) a = Some n \<Longrightarrow> one_name n"
proof -
  from assms(1) obtain ns where ns: "length ns = Suc (length ts)"
    "\<forall>a. fmlookup (nodes g) a = (if unat a < length ns then Some (ns ! unat a) else None)"
    "\<forall>i < length ns. node_ID (ns ! i) = of_nat i" "source_recorded src (ns ! 0)"
    "\<forall>i < length ts. step_recorded (ts ! i) (ns ! i) (ns ! Suc i)"
    by (auto simp: building_def lineage_recorded_def)
  have cases: "source_recorded src n \<or> (\<exists>i. i < length ts \<and> n = ns ! Suc i \<and> step_recorded (ts ! i) (ns ! i) n \<and>
      fmlookup (nodes g) (node_ID (ns ! i)) = Some (ns ! i))" if "fmlookup (nodes g) a = Some n" for a n
  proof (cases "unat a")
    case 0
    then show ?thesis using that ns(1,2,4) by simp
  next
    case (Suc i)
    with that ns(1,2) have i: "i < length ts" "n = ns ! Suc i" by (auto split: if_splits)
    moreover have "unat (of_nat i :: 64 word) = i" using i(1) assms(2) unat_of_nat64[of i] by simp
    ultimately show ?thesis using ns by auto
  qed
  show "aligned g"
    unfolding aligned_def
  proof (intro allI impI)
    fix a n d p
    assume "fmlookup (nodes g) a = Some n" "d \<in> set (node_Dependencies n)" "dep_Kind d = DependencyNarrow"
      "fmlookup (nodes g) (dep_ParentID d) = Some p"
    with cases[of a n] show "node_NumPartitions n = node_NumPartitions p"
      by (auto simp: source_recorded_def step_recorded_def split: if_splits)
  qed
  show "one_name n" if "fmlookup (nodes g) a = Some n"
  proof -
    have "tr_Kind (ts ! i) \<noteq> OpSource" if "i < length ts" for i
      using assms(3) nth_mem[OF that] by (auto simp: TransformationSpec_validate_def split: option.splits)
    with cases[OF that] show ?thesis by (auto simp: source_recorded_def step_recorded_def one_name_def)
  qed
qed

lemma plan_executable:
  assumes "graph_wf g" "Plan (Some (Some fns)) (Some g) action = Inr p" "validateExecutionPlan p = None" "s \<in> set (sp_Stages p)"
  shows "executable_stage (act_TargetRDD action) s"
proof -
  have chain: "plan_chain g action (sp_Stages p)" using Plan_Inr(2)[OF assms(1,2)] by simp
  have act: "act_Kind action \<in> {ActionCollect, ActionCount}" using Plan_Inr(1)[OF assms(1), of fns action] assms(2) by blast
  have res: "executable_stage (act_TargetRDD action) (last (sp_Stages p))"
    using chain act by (auto simp: plan_chain_def executable_stage_def)
  from assms(3) consider "sp_Stages p = [s]" | parent child where "sp_Stages p = [parent, child]"
    using assms(4) by (auto simp: validateExecutionPlan_def split: list.splits)
  then show ?thesis
  proof cases
    case 1
    with res show ?thesis by simp
  next
    case (2 parent child)
    have "map_stage parent" "stage_link g [parent, child] 0" using chain 2 by (auto simp: plan_chain_def)
    then have "executable_stage (act_TargetRDD action) parent"
      by (auto simp: executable_stage_def stage_link_def stage_input_def pipeline_ok_def rdd_operation_def)
    with res 2 assms(4) show ?thesis by auto
  qed
qed

lemma GenerateTasks_member:
  assumes "GenerateTasks p = Inr tasks" "task \<in> set tasks"
  obtains s i part where "s \<in> set (sp_Stages p)" "task = stage_task s i part" "0 \<le> part" "part < stage_NumPartitions s"
proof -
  have "tasks = number_tasks 0 (stage_partitions (sp_Stages p))"
    using assms(1) by (auto simp: GenerateTasks_def generateTasksLoop_eq split: option.splits)
  with assms(2) obtain i s part where "(s, part) \<in> set (stage_partitions (sp_Stages p))" "task = stage_task s i part"
    by (auto simp: number_tasks_def in_set_enumerate_eq) (metis nth_mem)
  then show thesis by (intro that[of s i part]) (auto simp: stage_partitions_def)
qed

text \<open>
  C39: every task that the coordinator can hand out for a submitted job specification passes the
  validation a worker applies before it runs anything, provided the assignment carries the
  identity of its task, a proper run identifier and worker, and the snapshot of the shuffle that the task reads. The
  only exception is a name: the worker refuses a task exactly when its source path, one of its function
  names or its aggregator name consists of white space only.
\<close>

theorem planned_assignments_accepted:
  assumes "length (spec_Transformations spec) < 2 ^ 64 - 1"
    and "Build True spec NewRDDGraph = (Inr r, g)"
    and "PlanStages (spec_Action spec) (Some fns) r g = Inr p" and "validateExecutionPlan p = None"
    and "GenerateTasks p = Inr tasks" and "pa_Task a \<in> set tasks"
    and "identity_fits a" and "inputs_match a"
  shows "TaskAssignment_Validate a = None \<longleftrightarrow> task_named (pa_Task a)"
proof -
  let ?ts = "spec_Transformations spec"
  have valid: "Spec_Validate spec = None" using assms(2) by (auto simp: Build_def split: option.splits)
  from Build_Inr[OF this assms(1)] assms(2) have b: "building (spec_Source spec) ?ts r g" by simp
  have ts: "\<forall>t \<in> set ?ts. TransformationSpec_validate t = None" using valid by (simp add: Spec_Validate_None)
  note wf = building_wf[OF b assms(1)]
  from assms(3) obtain action where plan: "Plan (Some (Some fns)) (Some g) action = Inr p"
    by (auto simp: PlanStages_def split: if_splits sum.splits)
  from GenerateTasks_member[OF assms(5,6)] obtain s i part where
    s: "s \<in> set (sp_Stages p)" "pa_Task a = stage_task s i part" "0 \<le> part" "part < stage_NumPartitions s" .
  show ?thesis
    by (rule assignment_of_stage[OF Plan_stage_from[OF wf building_graph(1)[OF b assms(1) ts] plan s(1)]
          plan_executable[OF wf plan assms(4) s(1)] _ s(2-4) assms(7,8)])
      (use building_graph(2)[OF b assms(1) ts] in blast)
qed

section \<open>A concrete job\<close>

definition job_of :: "Spec \<Rightarrow> RDD \<times> RDDGraph" where
  "job_of spec = (case Build True spec NewRDDGraph of (Inr r, g) \<Rightarrow> (r, g) | (Inl _, g) \<Rightarrow> (zeroRDD, g))"

definition plan_of :: "Spec \<Rightarrow> StagePlan" where
  "plan_of spec = (case PlanStages (spec_Action spec) (Some ex_functions) (fst (job_of spec)) (snd (job_of spec)) of
     Inr p \<Rightarrow> p | Inl _ \<Rightarrow> \<lparr>sp_TargetRDD = 0, sp_Stages = []\<rparr>)"

definition tasks_of :: "Spec \<Rightarrow> Task list" where
  "tasks_of spec = (case GenerateTasks (plan_of spec) of Inr tasks \<Rightarrow> tasks | Inl _ \<Rightarrow> [])"

definition assignment_of :: "Spec \<Rightarrow> protocol_TaskAssignment" where
  "assignment_of spec =
     (let task = hd (tasks_of spec) in
      \<lparr>pa_ShuffleInputs = None, pa_RunID = replicate 32 (CHR ''a''), pa_JobID = 0, pa_StageID = task_StageID task,
       pa_WorkerID = ''w'', pa_Attempt = \<lparr>tai_ID = 0, tai_TaskID = task_ID task, tai_StageAttemptID = 0\<rparr>,
       pa_Task = task\<rparr>)"

text \<open>The same job over a file whose name is a single space.\<close>

definition ex_space_spec :: Spec where
  "ex_space_spec = ex_spec\<lparr>spec_Source := \<lparr>src_Path = '' '', src_NumPartitions = 4\<rparr>\<rparr>"

lemma job_of_Build:
  assumes "\<not> isl (fst (Build True spec NewRDDGraph))"
  shows "Build True spec NewRDDGraph = (Inr (fst (job_of spec)), snd (job_of spec))"
  using assms by (auto simp: job_of_def split: prod.splits sum.splits)

lemma ex_job_built:
  "Build True ex_spec NewRDDGraph = (Inr (fst (job_of ex_spec)), snd (job_of ex_spec))"
  "Build True ex_space_spec NewRDDGraph = (Inr (fst (job_of ex_space_spec)), snd (job_of ex_space_spec))"
  by (rule job_of_Build, code_simp)+

lemma ex_job_planned:
  "PlanStages ActionCollect (Some ex_functions) (fst (job_of ex_spec)) (snd (job_of ex_spec)) = Inr (plan_of ex_spec)"
  "PlanStages ActionCollect (Some ex_functions) (fst (job_of ex_space_spec)) (snd (job_of ex_space_spec)) =
     Inr (plan_of ex_space_spec)"
  by code_simp+

lemma ex_job_tasks:
  "validateExecutionPlan (plan_of ex_spec) = None" "GenerateTasks (plan_of ex_spec) = Inr (tasks_of ex_spec)"
  "validateExecutionPlan (plan_of ex_space_spec) = None" "GenerateTasks (plan_of ex_space_spec) = Inr (tasks_of ex_space_spec)"
  by code_simp+

theorem planned_assignments_accepted_witness:
  "pa_Task (assignment_of ex_spec) = hd (tasks_of ex_spec) \<and> TaskAssignment_Validate (assignment_of ex_spec) = None"
proof -
  have ex: "length (spec_Transformations ex_spec) < 2 ^ 64 - 1" "spec_Action ex_spec = ActionCollect"
    by (simp_all add: ex_spec_def)
  have "pa_Task (assignment_of ex_spec) \<in> set (tasks_of ex_spec)" "task_named (pa_Task (assignment_of ex_spec))"
    "identity_fits (assignment_of ex_spec)"
    "so_ShuffleRead (hd (task_Operations (pa_Task (assignment_of ex_spec)))) = None"
    by code_simp+
  moreover from this(4) have "inputs_match (assignment_of ex_spec)"
    by (simp add: inputs_match_def) (simp add: assignment_of_def Let_def)
  ultimately show ?thesis
    using planned_assignments_accepted[OF ex(1) ex_job_built(1) _ ex_job_tasks(1,2), of ex_functions "assignment_of ex_spec"]
      ex_job_planned(1) ex(2)
    by (simp add: assignment_of_def Let_def)
qed

text \<open>
  The gap between the two validations: a path of one space is accepted by the job specification, the planner and
  the task generator, and refused by the worker, whose \<open>poll\<close> then fails.
\<close>

theorem space_path_refused_by_worker:
  "Spec_Validate ex_space_spec = None \<and> validateExecutionPlan (plan_of ex_space_spec) = None \<and>
   pa_Task (assignment_of ex_space_spec) \<in> set (tasks_of ex_space_spec) \<and>
   TaskAssignment_Validate (assignment_of ex_space_spec) = Some MustStartWithSource"
  by code_simp

end
