(* ===== verification/FIFO_Invariant.thy ===== *)
theory FIFO_Invariant
  imports FIFO_Scheduler
begin

text \<open>
  The invariant of the task scheduler and its preservation by every operation.
\<close>

section \<open>What the pointer updates leave alone\<close>

named_theorems upd_simps \<open>projections of the state after an update through a pointer\<close>

lemma upd_set_fields [upd_simps]:
  "maxTaskAttempts (upd_set k f s) = maxTaskAttempts s" "runID (upd_set k f s) = runID s"
  "registry (upd_set k f s) = registry s" "queue (upd_set k f s) = queue s"
  "attempts (upd_set k f s) = attempts s" "nextAttempt (upd_set k f s) = nextAttempt s"
  "closed (upd_set k f s) = closed s"
  "fmlookup (sets (upd_set k f s)) x = (if x = k then map_option f (fmlookup (sets s) x) else fmlookup (sets s) x)"
  by (simp_all add: upd_set_def)

lemma upd_task_fields [upd_simps]:
  "maxTaskAttempts (upd_task k i f s) = maxTaskAttempts s" "runID (upd_task k i f s) = runID s"
  "registry (upd_task k i f s) = registry s" "queue (upd_task k i f s) = queue s"
  "attempts (upd_task k i f s) = attempts s" "nextAttempt (upd_task k i f s) = nextAttempt s"
  "closed (upd_task k i f s) = closed s"
  by (simp_all add: upd_task_def upd_simps)

lemma upd_attempt_fields [upd_simps]:
  "maxTaskAttempts (upd_attempt a f s) = maxTaskAttempts s" "runID (upd_attempt a f s) = runID s"
  "registry (upd_attempt a f s) = registry s" "queue (upd_attempt a f s) = queue s"
  "sets (upd_attempt a f s) = sets s" "nextAttempt (upd_attempt a f s) = nextAttempt s"
  "closed (upd_attempt a f s) = closed s"
  "fmlookup (attempts (upd_attempt a f s)) x = (if x = a then map_option f (fmlookup (attempts s) x) else fmlookup (attempts s) x)"
  by (simp_all add: upd_attempt_def)

lemma upd_worker_fields [upd_simps]:
  "maxTaskAttempts (upd_worker w f s) = maxTaskAttempts s" "runID (upd_worker w f s) = runID s"
  "attempts (upd_worker w f s) = attempts s" "queue (upd_worker w f s) = queue s"
  "sets (upd_worker w f s) = sets s" "nextAttempt (upd_worker w f s) = nextAttempt s"
  "closed (upd_worker w f s) = closed s"
  "fmlookup (registry (upd_worker w f s)) x = (if x = w then map_option f (fmlookup (registry s) x) else fmlookup (registry s) x)"
  by (simp_all add: upd_worker_def)

lemma task_at_cong: "sets s = sets s' \<Longrightarrow> task_at s = task_at s'"
  by (simp add: task_at_def fun_eq_iff)

lemma task_at_upd [upd_simps]:
  "task_at (upd_attempt a f s) = task_at s" "task_at (upd_worker w g s) = task_at s"
  by (rule task_at_cong; simp add: upd_simps)+

lemma task_at_upd_set:
  "(\<And>ts. fs_tasks (f ts) = fs_tasks ts) \<Longrightarrow> task_at (upd_set k f s) = task_at s"
  by (auto simp: task_at_def upd_simps fun_eq_iff split: option.splits)

lemma task_at_upd_task [upd_simps]:
  "task_at (upd_task k i f s) k' i' = (if k' = k \<and> i' = i then map_option f (task_at s k' i') else task_at s k' i')"
  by (auto simp: task_at_def upd_task_def upd_simps split: option.splits)

lemma finish_fields [upd_simps]:
  "maxTaskAttempts (finish k e s) = maxTaskAttempts s" "runID (finish k e s) = runID s"
  "registry (finish k e s) = registry s" "queue (finish k e s) = queue s"
  "attempts (finish k e s) = attempts s" "nextAttempt (finish k e s) = nextAttempt s"
  "closed (finish k e s) = closed s" "task_at (finish k e s) = task_at s"
  by (simp_all add: finish_def notify_def upd_simps task_at_upd_set)

lemma notify_fields [upd_simps]:
  "maxTaskAttempts (notify k s) = maxTaskAttempts s" "runID (notify k s) = runID s"
  "registry (notify k s) = registry s" "queue (notify k s) = queue s"
  "attempts (notify k s) = attempts s" "nextAttempt (notify k s) = nextAttempt s"
  "closed (notify k s) = closed s" "task_at (notify k s) = task_at s"
  by (simp_all add: notify_def upd_simps task_at_upd_set)

lemma compactQueue_fields [upd_simps]:
  "maxTaskAttempts (compactQueue s) = maxTaskAttempts s" "runID (compactQueue s) = runID s"
  "registry (compactQueue s) = registry s" "sets (compactQueue s) = sets s"
  "attempts (compactQueue s) = attempts s" "nextAttempt (compactQueue s) = nextAttempt s"
  "closed (compactQueue s) = closed s" "task_at (compactQueue s) = task_at s"
  "queue (compactQueue s) = filter (\<lambda>key. \<not> set_terminal s key) (queue s)"
  by (auto simp: compactQueue_def intro!: task_at_cong)

section \<open>Attempts, tasks and reservations\<close>

text \<open>
  Every recorded attempt points to a task; the attempts that have not ended, the running tasks
  and the reserved slots correspond; no worker has more reservations than slots.
\<close>

definition attempt_ok :: "FIFO \<Rightarrow> TaskAttemptID \<Rightarrow> assignedAttempt \<Rightarrow> bool" where
  "attempt_ok s a att \<longleftrightarrow>
     tai_ID (aa_identity att) = a \<and> a < nextAttempt s \<and> aa_worker att |\<in>| fmdom (registry s) \<and>
     (\<exists>t. task_at s (aa_set att) (aa_task att) = Some t \<and>
        (\<not> aa_terminal att \<longrightarrow> lt_state t = TaskRunning \<and> lt_active t = a))"

definition running_ok :: "FIFO \<Rightarrow> taskSetKey \<Rightarrow> nat \<Rightarrow> logicalTaskState \<Rightarrow> bool" where
  "running_ok s k i t \<longleftrightarrow>
     (lt_state t = TaskRunning \<longrightarrow>
        (\<exists>att. fmlookup (attempts s) (lt_active t) = Some att \<and> \<not> aa_terminal att \<and>
               aa_set att = k \<and> aa_task att = i))"

definition worker_ok :: "FIFO \<Rightarrow> WorkerID \<Rightarrow> workerState \<Rightarrow> bool" where
  "worker_ok s w ws \<longleftrightarrow>
     (\<forall>a. a |\<in>| w_reserved ws \<longleftrightarrow>
        (\<exists>att. fmlookup (attempts s) a = Some att \<and> \<not> aa_terminal att \<and> aa_worker att = w)) \<and>
     int (fcard (w_reserved ws)) \<le> ws_TotalSlots ws"

definition inv_core :: "FIFO \<Rightarrow> bool" where
  "inv_core s \<longleftrightarrow>
     (\<forall>a att. fmlookup (attempts s) a = Some att \<longrightarrow> attempt_ok s a att) \<and>
     (\<forall>k i t. task_at s k i = Some t \<longrightarrow> running_ok s k i t) \<and>
     (\<forall>w ws. fmlookup (registry s) w = Some ws \<longrightarrow> worker_ok s w ws)"

lemma inv_coreD:
  assumes "inv_core s"
  shows "fmlookup (attempts s) a = Some att \<Longrightarrow> attempt_ok s a att"
    and "task_at s k i = Some t \<Longrightarrow> running_ok s k i t"
    and "fmlookup (registry s) w = Some ws \<Longrightarrow> worker_ok s w ws"
  using assms by (auto simp: inv_core_def)

lemma inv_core_cong:
  assumes "inv_core s" "task_at s' = task_at s" "attempts s' = attempts s" "registry s' = registry s"
    "nextAttempt s' = nextAttempt s"
  shows "inv_core s'"
  using assms by (simp add: inv_core_def attempt_ok_def running_ok_def worker_ok_def)

lemma inv_core_upd_task:
  assumes inv: "inv_core s"
    and keep: "\<And>t. task_at s k i = Some t \<Longrightarrow>
      (lt_state (f t) = TaskRunning \<longleftrightarrow> lt_state t = TaskRunning) \<and> lt_active (f t) = lt_active t"
  shows "inv_core (upd_task k i f s)"
  unfolding inv_core_def
proof (intro conjI allI impI)
  fix a att assume "fmlookup (attempts (upd_task k i f s)) a = Some att"
  with inv have "attempt_ok s a att" by (simp add: inv_core_def upd_simps)
  then show "attempt_ok (upd_task k i f s) a att" using keep by (auto simp: attempt_ok_def upd_simps)
next
  fix k' i' t assume "task_at (upd_task k i f s) k' i' = Some t"
  then obtain t0 where t0: "task_at s k' i' = Some t0" "t = (if k' = k \<and> i' = i then f t0 else t0)"
    by (auto simp: upd_simps split: if_splits)
  with inv have "running_ok s k' i' t0" by (simp add: inv_core_def)
  with t0 keep show "running_ok (upd_task k i f s) k' i' t" by (auto simp: running_ok_def upd_simps)
next
  fix w ws assume "fmlookup (registry (upd_task k i f s)) w = Some ws"
  with inv show "worker_ok (upd_task k i f s) w ws" by (simp add: inv_core_def worker_ok_def upd_simps)
qed

lemma inv_core_upd_worker:
  assumes "inv_core s"
    and "\<And>ws. fmlookup (registry s) w = Some ws \<Longrightarrow>
      w_reserved (f ws) = w_reserved ws \<and> ws_TotalSlots (f ws) = ws_TotalSlots ws"
  shows "inv_core (upd_worker w f s)"
proof -
  have "fmdom (registry (upd_worker w f s)) = fmdom (registry s)" by (simp add: upd_worker_def)
  then show ?thesis
    using assms by (auto simp: inv_core_def attempt_ok_def running_ok_def worker_ok_def upd_simps)
qed

subsection \<open>Ending an attempt\<close>

lemma release_lookups [upd_simps]:
  "maxTaskAttempts (release att st s) = maxTaskAttempts s" "runID (release att st s) = runID s"
  "queue (release att st s) = queue s" "nextAttempt (release att st s) = nextAttempt s"
  "closed (release att st s) = closed s"
  "task_at (release att st s) k i =
     (if k = aa_set att \<and> i = aa_task att then map_option (\<lambda>t. t\<lparr>lt_state := st\<rparr>) (task_at s k i) else task_at s k i)"
  "fmlookup (attempts (release att st s)) a =
     (if a = tai_ID (aa_identity att)
      then map_option (\<lambda>x. x\<lparr>aa_terminal := True, aa_assignment := (aa_assignment x)\<lparr>as_Attempt := (as_Attempt (aa_assignment x))\<lparr>ta_State := st\<rparr>\<rparr>\<rparr>)
             (fmlookup (attempts s) a)
      else fmlookup (attempts s) a)"
  "fmlookup (registry (release att st s)) w =
     (if w = aa_worker att
      then map_option (\<lambda>x. x\<lparr>w_reserved := w_reserved x |-| {|tai_ID (aa_identity att)|}\<rparr>) (fmlookup (registry s) w)
      else fmlookup (registry s) w)"
  "fmdom (registry (release att st s)) = fmdom (registry s)"
  by (simp_all add: release_def upd_simps)
    (simp add: upd_worker_def upd_task_def upd_set_def upd_attempt_def)

lemma inv_core_release:
  assumes inv: "inv_core s" and att: "fmlookup (attempts s) a = Some att" "\<not> aa_terminal att"
    and st: "st \<noteq> TaskRunning"
  shows "inv_core (release att st s)"
proof -
  let ?s = "release att st s"
  have a: "attempt_ok s a att" using inv_coreD [OF inv] att by blast
  have ida: "tai_ID (aa_identity att) = a" using a by (simp add: attempt_ok_def)
  have own: "b = a" if "fmlookup (attempts s) b = Some att'" "\<not> aa_terminal att'"
    "aa_set att' = aa_set att" "aa_task att' = aa_task att" for b att'
    using inv_coreD(1) [OF inv that(1)] a that att unfolding attempt_ok_def by (metis option.inject)
  show ?thesis unfolding inv_core_def
  proof (intro conjI allI impI)
    fix b att' assume b: "fmlookup (attempts ?s) b = Some att'"
    then obtain x where x: "fmlookup (attempts s) b = Some x" and
      same: "aa_identity att' = aa_identity x" "aa_worker att' = aa_worker x" "aa_set att' = aa_set x"
        "aa_task att' = aa_task x" and over: "aa_terminal att' \<longleftrightarrow> b = a \<or> aa_terminal x"
      by (auto simp: upd_simps ida split: if_splits)
    have ok: "attempt_ok s b x" using inv_coreD(1) [OF inv x] .
    then obtain t where t: "task_at s (aa_set x) (aa_task x) = Some t" by (auto simp: attempt_ok_def)
    have "\<not> (aa_set x = aa_set att \<and> aa_task x = aa_task att)" if "\<not> aa_terminal att'"
      using own [OF x] that over by auto
    with ok t show "attempt_ok ?s b att'"
      unfolding attempt_ok_def release_lookups same over by auto
  next
    fix k i t assume t: "task_at ?s k i = Some t"
    then show "running_ok ?s k i t"
    proof (cases "k = aa_set att \<and> i = aa_task att")
      case False
      then have t0: "task_at s k i = Some t" using t by (auto simp: upd_simps split: if_splits)
      have "lt_active t = a \<Longrightarrow> lt_state t = TaskRunning \<Longrightarrow> False"
        using inv_coreD(2) [OF inv t0] att False by (auto simp: running_ok_def)
      with inv_coreD(2) [OF inv t0] show ?thesis by (auto simp: running_ok_def upd_simps ida)
    qed (use t st in \<open>auto simp: running_ok_def upd_simps\<close>)
  next
    fix w ws assume "fmlookup (registry ?s) w = Some ws"
    then obtain w0 where w0: "fmlookup (registry s) w = Some w0" and
      ws: "ws = (if w = aa_worker att then w0\<lparr>w_reserved := w_reserved w0 |-| {|a|}\<rparr> else w0)"
      by (auto simp: upd_simps ida split: if_splits)
    have "fcard (w_reserved w0 |-| {|a|}) \<le> fcard (w_reserved w0)" by (rule fcard_mono) auto
    with inv_coreD(3) [OF inv w0] att show "worker_ok ?s w ws"
      by (auto simp: worker_ok_def upd_simps ida ws)
  qed
qed

subsection \<open>Starting an attempt\<close>

abbreviation assigned :: "WorkerID \<Rightarrow> taskSetKey \<Rightarrow> fifoTaskSet \<Rightarrow> nat \<Rightarrow> FIFO \<Rightarrow> FIFO" where
  "assigned wid key ts i s \<equiv> snd (assignTask wid key ts i s)"

lemma assignTask_fst: "fst (assignTask wid key ts i s) = new_assignment wid ts i s"
  by (simp add: assignTask_def Let_def)

lemma assignTask_lookups [upd_simps]:
  "maxTaskAttempts (assigned wid key ts i s) = maxTaskAttempts s" "runID (assigned wid key ts i s) = runID s"
  "queue (assigned wid key ts i s) = queue s" "nextAttempt (assigned wid key ts i s) = nextAttempt s + 1"
  "closed (assigned wid key ts i s) = closed s"
  "fmlookup (attempts (assigned wid key ts i s)) a =
     (if a = nextAttempt s
      then Some \<lparr>aa_assignment = new_assignment wid ts i s, aa_set = key, aa_task = i, aa_terminal = False\<rparr>
      else fmlookup (attempts s) a)"
  "fmlookup (registry (assigned wid key ts i s)) w =
     (if w = wid
      then map_option (\<lambda>x. x\<lparr>w_reserved := finsert (nextAttempt s) (w_reserved x)\<rparr>) (fmlookup (registry s) w)
      else fmlookup (registry s) w)"
  "fmdom (registry (assigned wid key ts i s)) = fmdom (registry s)"
  "sets (assigned wid key ts i s) =
     sets (upd_task key i (\<lambda>t. t\<lparr>lt_state := TaskRunning, lt_attempts := lt_attempts t + 1, lt_active := nextAttempt s\<rparr>) s)"
  by (simp_all add: assignTask_def Let_def upd_simps)
    (simp_all add: upd_worker_def upd_task_def upd_set_def upd_attempt_def)

lemma assignTask_task_at [upd_simps]:
  "task_at (assigned wid key ts i s) k j =
     (if k = key \<and> j = i
      then map_option (\<lambda>t. t\<lparr>lt_state := TaskRunning, lt_attempts := lt_attempts t + 1, lt_active := nextAttempt s\<rparr>) (task_at s k j)
      else task_at s k j)"
  unfolding task_at_cong [OF assignTask_lookups(9)] by (simp add: upd_simps)

text \<open>The attempt counter has not wrapped: every recorded attempt is below it.\<close>

lemma fresh_attempt: "inv_core s \<Longrightarrow> fmlookup (attempts s) (nextAttempt s) = None"
  by (cases "fmlookup (attempts s) (nextAttempt s)") (auto simp: attempt_ok_def dest: inv_coreD(1))

lemma inv_core_assign:
  assumes inv: "inv_core s" and t: "task_at s key i = Some t" "lt_state t = TaskPending"
    and w: "fmlookup (registry s) wid = Some ws" "int (fcard (w_reserved ws)) < ws_TotalSlots ws"
    and nowrap: "nextAttempt s \<noteq> - 1"
  shows "inv_core (assigned wid key ts i s)"
proof -
  let ?s = "assigned wid key ts i s" and ?a = "nextAttempt s"
  note new = fresh_attempt [OF inv]
  show ?thesis unfolding inv_core_def
  proof (intro conjI allI impI)
    fix a att assume a: "fmlookup (attempts ?s) a = Some att"
    show "attempt_ok ?s a att"
    proof (cases "a = ?a")
      case True
      with a t w show ?thesis
        by (auto simp: attempt_ok_def upd_simps new_assignment_def Let_def less_plus_one [OF order_refl nowrap] fmdomI)
    next
      case False
      then have "attempt_ok s a att" using a inv by (simp add: inv_core_def upd_simps)
      then show ?thesis using t less_plus_one [of a ?a] nowrap
        unfolding attempt_ok_def assignTask_lookups assignTask_task_at by auto
    qed
  next
    fix k j u assume u: "task_at ?s k j = Some u"
    show "running_ok ?s k j u"
    proof (cases "k = key \<and> j = i")
      case False
      then have u0: "running_ok s k j u" using u inv by (auto simp: inv_core_def upd_simps)
      with new show ?thesis by (auto simp: running_ok_def upd_simps)
    qed (use u in \<open>auto simp: running_ok_def upd_simps\<close>)
  next
    fix w' ws' assume "fmlookup (registry ?s) w' = Some ws'"
    then obtain w0 where w0: "fmlookup (registry s) w' = Some w0" and
      ws': "ws' = (if w' = wid then w0\<lparr>w_reserved := finsert ?a (w_reserved w0)\<rparr> else w0)"
      by (auto simp: upd_simps split: if_splits)
    have ok: "worker_ok s w' w0" using inv_coreD(3) [OF inv w0] .
    with new have "?a |\<notin>| w_reserved w0" by (auto simp: worker_ok_def)
    with ok w w0 new show "worker_ok ?s w' ws'"
      by (auto simp: worker_ok_def upd_simps ws' new_assignment_def Let_def fcard_finsert_disjoint)
  qed
qed

section \<open>Retry budget\<close>

definition task_attempts :: "FIFO \<Rightarrow> taskSetKey \<Rightarrow> nat \<Rightarrow> TaskAttemptID set" where
  "task_attempts s k i = {a. \<exists>att. fmlookup (attempts s) a = Some att \<and> aa_set att = k \<and> aa_task att = i}"

definition budget_ok :: "FIFO \<Rightarrow> taskSetKey \<Rightarrow> nat \<Rightarrow> logicalTaskState \<Rightarrow> bool" where
  "budget_ok s k i t \<longleftrightarrow>
     int (card (task_attempts s k i)) = lt_attempts t \<and> lt_attempts t \<le> maxTaskAttempts s \<and>
     (lt_state t = TaskPending \<longrightarrow> lt_attempts t < maxTaskAttempts s)"

definition inv_budget :: "FIFO \<Rightarrow> bool" where
  "inv_budget s \<longleftrightarrow> 0 < maxTaskAttempts s \<and> (\<forall>k i t. task_at s k i = Some t \<longrightarrow> budget_ok s k i t)"

lemma finite_task_attempts [simp]: "finite (task_attempts s k i)"
proof -
  have "task_attempts s k i \<subseteq> fset (fmdom (attempts s))" by (auto simp: task_attempts_def fmlookup_dom_iff)
  then show ?thesis by (rule finite_subset) simp
qed

lemma inv_budget_cong:
  assumes "inv_budget s" "task_at s' = task_at s" "attempts s' = attempts s" "maxTaskAttempts s' = maxTaskAttempts s"
  shows "inv_budget s'"
  using assms by (simp add: inv_budget_def budget_ok_def task_attempts_def)

lemma task_attempts_release [upd_simps]: "task_attempts (release att st s) k i = task_attempts s k i"
  by (auto simp: task_attempts_def upd_simps split: if_splits)

lemma inv_budget_release:
  "inv_budget s \<Longrightarrow> st \<noteq> TaskPending \<Longrightarrow> inv_budget (release att st s)"
  by (auto simp: inv_budget_def budget_ok_def upd_simps split: if_splits)

lemma inv_budget_upd_task:
  assumes "inv_budget s"
    and "\<And>t. task_at s k i = Some t \<Longrightarrow> lt_attempts (f t) = lt_attempts t \<and>
       (lt_state (f t) = TaskPending \<longrightarrow> lt_state t = TaskPending \<or> lt_attempts t < maxTaskAttempts s)"
  shows "inv_budget (upd_task k i f s)"
  using assms by (auto simp: inv_budget_def budget_ok_def upd_simps task_attempts_def split: if_splits)

lemma inv_budget_assign:
  assumes "inv_core s" "inv_budget s" "task_at s key i = Some t" "lt_state t = TaskPending"
  shows "inv_budget (assigned wid key ts i s)"
proof -
  have new: "nextAttempt s \<notin> task_attempts s k j" for k j
    using fresh_attempt [OF assms(1)] by (auto simp: task_attempts_def)
  have "task_attempts (assigned wid key ts i s) k j =
      (if k = key \<and> j = i then insert (nextAttempt s) (task_attempts s k j) else task_attempts s k j)" for k j
    using fresh_attempt [OF assms(1)] by (auto simp: task_attempts_def upd_simps)
  moreover have "lt_attempts t < maxTaskAttempts s" using assms(2-4) by (simp add: inv_budget_def budget_ok_def)
  then have "lt_attempts t + 1 \<le> maxTaskAttempts s" by simp
  ultimately show ?thesis
    using assms new by (auto simp: inv_budget_def budget_ok_def upd_simps split: if_splits)
qed

section \<open>Task sets\<close>

text \<open>
  A live set counts its unfinished tasks and none of them has failed for good; a set that ended
  without an error has succeeded in every task.
\<close>

abbreviation unfinished :: "logicalTaskState list \<Rightarrow> logicalTaskState list" where
  "unfinished \<equiv> filter (\<lambda>t. lt_state t \<noteq> TaskSucceeded)"

definition set_ok :: "fifoTaskSet \<Rightarrow> bool" where
  "set_ok ts \<longleftrightarrow>
     (\<not> fs_terminal ts \<longrightarrow>
        fs_err ts = None \<and> 0 < fs_remaining ts \<and> fs_remaining ts = int (length (unfinished (fs_tasks ts))) \<and>
        (\<forall>t \<in> set (fs_tasks ts). lt_state t \<noteq> TaskFailed)) \<and>
     (fs_terminal ts \<longrightarrow> fs_err ts = None \<longrightarrow> (\<forall>t \<in> set (fs_tasks ts). lt_state t = TaskSucceeded))"

definition inv_sets :: "FIFO \<Rightarrow> bool" where
  "inv_sets s \<longleftrightarrow> (\<forall>k ts. fmlookup (sets s) k = Some ts \<longrightarrow> fs_key ts = k \<and> set_ok ts)"

lemma inv_sets_upd_set:
  assumes "inv_sets s" "\<And>ts. fmlookup (sets s) k = Some ts \<Longrightarrow> set_ok ts \<Longrightarrow> fs_key (f ts) = fs_key ts \<and> set_ok (f ts)"
  shows "inv_sets (upd_set k f s)"
  using assms by (auto simp: inv_sets_def upd_simps)

lemma inv_sets_finish:
  assumes "inv_sets s" "e \<noteq> None"
  shows "inv_sets (finish k e s)"
  unfolding finish_def notify_def using assms
  by (auto intro!: inv_sets_upd_set simp: set_ok_def)

section \<open>Queue\<close>

definition inv_queue :: "FIFO \<Rightarrow> bool" where
  "inv_queue s \<longleftrightarrow>
     distinct (queue s) \<and> (\<forall>k. \<not> set_terminal s k \<longrightarrow> k \<in> set (queue s)) \<and>
     set (queue s) \<subseteq> fset (fmdom (sets s)) \<and> (closed s \<longrightarrow> (\<forall>k. set_terminal s k))"

lemma set_terminal_upd:
  "set_terminal (upd_set k f s) x \<longleftrightarrow>
     (if x = k then (case fmlookup (sets s) k of None \<Rightarrow> True | Some ts \<Rightarrow> fs_terminal (f ts)) else set_terminal s x)"
  by (simp add: set_terminal_def upd_simps split: option.split)

lemma set_terminal_cong: "sets s = sets s' \<Longrightarrow> set_terminal s = set_terminal s'"
  by (simp add: set_terminal_def fun_eq_iff)

lemma set_terminal_mono [upd_simps]:
  "set_terminal (upd_attempt a g s) = set_terminal s" "set_terminal (upd_worker w h s) = set_terminal s"
  "set_terminal (upd_task k i t s) = set_terminal s" "set_terminal (notify k s) = set_terminal s"
  "set_terminal (compactQueue s) = set_terminal s" "set_terminal (release att st s) = set_terminal s"
  "set_terminal (assigned wid k ts i s) = set_terminal s"
  "set_terminal (finish k e s) x \<longleftrightarrow> x = k \<or> set_terminal s x"
proof -
  show t: "set_terminal (upd_task k i t s) = set_terminal s" for k i t s
    by (auto simp: set_terminal_def upd_task_def upd_simps fun_eq_iff split: option.splits)
  show "set_terminal (notify k s) = set_terminal s"
    by (auto simp: set_terminal_def notify_def upd_simps fun_eq_iff split: option.splits)
  show "set_terminal (release att st s) = set_terminal s"
    by (simp add: release_def t set_terminal_cong [OF upd_worker_fields(5)] set_terminal_cong [OF upd_attempt_fields(5)])
  show "set_terminal (assigned wid k ts i s) = set_terminal s"
    unfolding set_terminal_cong [OF assignTask_lookups(9)] t ..
  show "set_terminal (finish k e s) x \<longleftrightarrow> x = k \<or> set_terminal s x"
    by (auto simp: set_terminal_def finish_def notify_def upd_simps split: option.splits)
qed (rule set_terminal_cong; simp add: upd_simps)+

lemma fmdom_sets [upd_simps]:
  "fmdom (sets (upd_set k f s)) = fmdom (sets s)" "fmdom (sets (upd_task k i t s)) = fmdom (sets s)"
  "fmdom (sets (notify k s)) = fmdom (sets s)" "fmdom (sets (finish k e s)) = fmdom (sets s)"
  "fmdom (sets (release att st s)) = fmdom (sets s)" "fmdom (sets (assigned wid k ts i s)) = fmdom (sets s)"
  by (simp_all add: upd_set_def upd_task_def notify_def finish_def release_def upd_worker_def
      upd_attempt_def assignTask_def Let_def)

lemma inv_queue_mono:
  assumes "inv_queue s" "queue s' = queue s" "fmdom (sets s') = fmdom (sets s)" "closed s' = closed s"
    "\<And>k. set_terminal s k \<Longrightarrow> set_terminal s' k"
  shows "inv_queue s'"
  using assms unfolding inv_queue_def by metis

lemma inv_queue_compact: "inv_queue s \<Longrightarrow> inv_queue (compactQueue s)"
  by (auto simp: inv_queue_def upd_simps)

section \<open>Assignments\<close>

text \<open>What an attempt was assigned is what its task set asked for.\<close>

definition assignment_ok :: "FIFO \<Rightarrow> assignedAttempt \<Rightarrow> bool" where
  "assignment_ok s att \<longleftrightarrow>
     (\<exists>ts. fmlookup (sets s) (aa_set att) = Some ts \<and> aa_task att < length (fs_tasks ts) \<and>
        aa_Task att = lt_task (fs_tasks ts ! aa_task att) \<and>
        as_ShuffleInputs (aa_assignment att) = fs_inputs ts \<and> as_RunID (aa_assignment att) = runID s \<and>
        as_JobID (aa_assignment att) = k_job (aa_set att) \<and> as_StageID (aa_assignment att) = k_stage (aa_set att) \<and>
        tai_TaskID (aa_identity att) = task_ID (aa_Task att) \<and>
        tai_StageAttemptID (aa_identity att) = k_attempt (aa_set att))"

definition inv_assign :: "FIFO \<Rightarrow> bool" where
  "inv_assign s \<longleftrightarrow> (\<forall>a att. fmlookup (attempts s) a = Some att \<longrightarrow> assignment_ok s att)"

lemma inv_assign_cong:
  assumes "inv_assign s" "attempts s' = attempts s" "runID s' = runID s"
    "\<And>k ts. fmlookup (sets s) k = Some ts \<Longrightarrow> \<exists>ts'. fmlookup (sets s') k = Some ts' \<and>
       fs_inputs ts' = fs_inputs ts \<and> map lt_task (fs_tasks ts') = map lt_task (fs_tasks ts)"
  shows "inv_assign s'"
  unfolding inv_assign_def assms(2)
proof (intro allI impI)
  fix a att assume "fmlookup (attempts s) a = Some att"
  then have ok: "assignment_ok s att" using assms(1) by (simp add: inv_assign_def)
  then obtain ts where ts: "fmlookup (sets s) (aa_set att) = Some ts" "aa_task att < length (fs_tasks ts)"
    unfolding assignment_ok_def by blast
  from assms(4) [OF ts(1)] obtain ts' where ts': "fmlookup (sets s') (aa_set att) = Some ts'"
      "fs_inputs ts' = fs_inputs ts" "map lt_task (fs_tasks ts') = map lt_task (fs_tasks ts)" by blast
  have "length (fs_tasks ts') = length (fs_tasks ts)" using ts'(3) by (metis length_map)
  moreover have "lt_task (fs_tasks ts' ! aa_task att) = lt_task (fs_tasks ts ! aa_task att)"
    using ts'(3) ts(2) calculation by (metis nth_map)
  ultimately show "assignment_ok s' att" using ok ts ts' assms(3) unfolding assignment_ok_def by simp
qed

lemma inv_assign_upd_set:
  assumes "inv_assign s" "\<And>ts. fs_inputs (f ts) = fs_inputs ts \<and> map lt_task (fs_tasks (f ts)) = map lt_task (fs_tasks ts)"
  shows "inv_assign (upd_set k f s)"
  using assms by (intro inv_assign_cong [OF assms(1)]) (auto simp: upd_simps)

lemma map_lt_task_update:
  "lt_task (f (xs ! i)) = lt_task (xs ! i) \<Longrightarrow> map lt_task (xs[i := f (xs ! i)]) = map lt_task xs"
  by (cases "i < length xs") (simp_all add: map_update list_update_same_conv list_update_beyond)

lemma inv_assign_upd_task:
  "inv_assign s \<Longrightarrow> (\<And>t. lt_task (f t) = lt_task t) \<Longrightarrow> inv_assign (upd_task k i f s)"
  unfolding upd_task_def by (intro inv_assign_upd_set) (simp_all add: map_lt_task_update)

lemma inv_assign_upd_worker: "inv_assign s \<Longrightarrow> inv_assign (upd_worker w f s)"
  by (simp add: inv_assign_def assignment_ok_def upd_simps)

lemma inv_assign_release:
  assumes inv: "inv_assign s"
  shows "inv_assign (release att st s)"
proof -
  let ?g = "\<lambda>x. x\<lparr>aa_terminal := True,
      aa_assignment := (aa_assignment x)\<lparr>as_Attempt := (as_Attempt (aa_assignment x))\<lparr>ta_State := st\<rparr>\<rparr>\<rparr>"
  have same: "assignment_ok (upd_attempt a ?g s) x \<longleftrightarrow> assignment_ok s x"
    "assignment_ok s (?g x) \<longleftrightarrow> assignment_ok s x" for a x
    by (simp_all add: assignment_ok_def upd_attempt_fields)
  have "inv_assign (upd_attempt a ?g s)" for a
    unfolding inv_assign_def same(1)
  proof (intro allI impI)
    fix b x assume "fmlookup (attempts (upd_attempt a ?g s)) b = Some x"
    then obtain y where "fmlookup (attempts s) b = Some y" "x = y \<or> x = ?g y"
      by (auto simp: upd_simps split: if_splits)
    with inv same(2) show "assignment_ok s x" unfolding inv_assign_def by blast
  qed
  then have "inv_assign (upd_task k i (\<lambda>t. t\<lparr>lt_state := st\<rparr>) (upd_attempt a ?g s))" for k i a
    by (intro inv_assign_upd_task) auto
  then show ?thesis
    unfolding release_def by (intro inv_assign_upd_worker)
qed

lemma inv_assign_assigned:
  assumes inv: "inv_assign s" and ts: "fmlookup (sets s) key = Some ts" "i < length (fs_tasks ts)" "fs_key ts = key"
  shows "inv_assign (assigned wid key ts i s)"
proof -
  let ?f = "\<lambda>t. t\<lparr>lt_state := TaskRunning, lt_attempts := lt_attempts t + 1, lt_active := nextAttempt s\<rparr>"
  have old: "inv_assign (upd_task key i ?f s)" using inv by (rule inv_assign_upd_task) simp
  show ?thesis unfolding inv_assign_def
  proof (intro allI impI)
    fix a att assume a: "fmlookup (attempts (assigned wid key ts i s)) a = Some att"
    show "assignment_ok (assigned wid key ts i s) att"
    proof (cases "a = nextAttempt s")
      case True
      with a ts show ?thesis
        by (auto simp: assignment_ok_def upd_simps upd_task_def new_assignment_def Let_def)
    next
      case False
      then have "assignment_ok (upd_task key i ?f s) att"
        using a old by (auto simp: inv_assign_def upd_simps)
      then show ?thesis by (simp add: assignment_ok_def assignTask_lookups upd_task_fields)
    qed
  qed
qed

section \<open>Composite preservation\<close>

text \<open>Everything except the bookkeeping of the task sets themselves.\<close>

definition base_inv :: "FIFO \<Rightarrow> bool" where
  "base_inv s \<longleftrightarrow> inv_core s \<and> inv_budget s \<and> inv_queue s \<and> inv_assign s"

definition fifo_inv :: "FIFO \<Rightarrow> bool" where
  "fifo_inv s \<longleftrightarrow> base_inv s \<and> inv_sets s"

named_theorems inv_intros \<open>preservation of the invariant by the updates\<close>

lemma base_inv_finish [inv_intros]: "base_inv s \<Longrightarrow> base_inv (finish k e s)"
  unfolding base_inv_def
proof (elim conjE, intro conjI)
  assume i: "inv_assign s"
  show "inv_assign (finish k e s)"
    unfolding finish_def notify_def using i by (auto intro!: inv_assign_upd_set)
qed (auto simp: upd_simps elim!: inv_core_cong inv_budget_cong inv_queue_mono)

lemma base_inv_upd_set [inv_intros]:
  assumes "base_inv s"
    and f: "\<And>ts. fs_tasks (f ts) = fs_tasks ts \<and> fs_inputs (f ts) = fs_inputs ts \<and> fs_terminal (f ts) = fs_terminal ts"
  shows "base_inv (upd_set k f s)"
  using assms(1) unfolding base_inv_def
proof (elim conjE, intro conjI)
  have t: "task_at (upd_set k f s) = task_at s" using f by (intro task_at_upd_set) blast
  assume "inv_core s" "inv_budget s" "inv_queue s" "inv_assign s"
  show "inv_core (upd_set k f s)"
    by (rule inv_core_cong [OF \<open>inv_core s\<close> t]) (simp_all add: upd_simps)
  show "inv_budget (upd_set k f s)"
    by (rule inv_budget_cong [OF \<open>inv_budget s\<close> t]) (simp_all add: upd_simps)
  have "set_terminal (upd_set k f s) x \<longleftrightarrow> set_terminal s x" for x
    by (auto simp: set_terminal_def upd_set_fields f split: option.splits)
  then show "inv_queue (upd_set k f s)"
    by (intro inv_queue_mono [OF \<open>inv_queue s\<close>]) (simp_all add: upd_simps)
  show "inv_assign (upd_set k f s)" by (rule inv_assign_upd_set [OF \<open>inv_assign s\<close>]) (simp add: f)
qed

lemma base_inv_notify [inv_intros]: "base_inv s \<Longrightarrow> base_inv (notify k s)"
  unfolding notify_def by (rule base_inv_upd_set) auto

lemma base_inv_upd_task [inv_intros]:
  assumes "base_inv s"
    and "\<And>t. lt_task (f t) = lt_task t \<and> lt_active (f t) = lt_active t \<and> lt_attempts (f t) = lt_attempts t"
    and "\<And>t. task_at s k i = Some t \<Longrightarrow> (lt_state (f t) = TaskRunning \<longleftrightarrow> lt_state t = TaskRunning) \<and>
       (lt_state (f t) = TaskPending \<longrightarrow> lt_state t = TaskPending \<or> lt_attempts t < maxTaskAttempts s)"
  shows "base_inv (upd_task k i f s)"
  using assms(1) unfolding base_inv_def
proof (elim conjE, intro conjI)
  assume inv: "inv_core s" "inv_budget s" "inv_queue s" "inv_assign s"
  show "inv_core (upd_task k i f s)" using assms(2,3) by (intro inv_core_upd_task [OF inv(1)]) auto
  show "inv_budget (upd_task k i f s)" using assms(2,3) by (intro inv_budget_upd_task [OF inv(2)]) auto
  show "inv_assign (upd_task k i f s)" using assms(2) by (intro inv_assign_upd_task [OF inv(4)]) auto
  show "inv_queue (upd_task k i f s)" using inv(3) by (rule inv_queue_mono) (simp_all add: upd_simps)
qed

lemma base_inv_release [inv_intros]:
  "base_inv s \<Longrightarrow> fmlookup (attempts s) a = Some att \<Longrightarrow> \<not> aa_terminal att \<Longrightarrow>
   st = TaskSucceeded \<or> st = TaskFailed \<Longrightarrow> base_inv (release att st s)"
  unfolding base_inv_def
  by (elim conjE, intro conjI)
    (auto intro: inv_core_release inv_budget_release inv_assign_release simp: upd_simps elim!: inv_queue_mono)

lemma base_inv_compact [inv_intros]: "base_inv s \<Longrightarrow> base_inv (compactQueue s)"
  unfolding base_inv_def
  by (elim conjE, intro conjI)
    (auto intro: inv_queue_compact simp: upd_simps elim!: inv_core_cong inv_budget_cong inv_assign_cong)

lemma base_inv_assign:
  assumes "base_inv s" "fmlookup (sets s) key = Some ts" "i < length (fs_tasks ts)" "fs_key ts = key"
    "lt_state (fs_tasks ts ! i) = TaskPending"
    "fmlookup (registry s) wid = Some ws" "int (fcard (w_reserved ws)) < ws_TotalSlots ws" "nextAttempt s \<noteq> - 1"
  shows "base_inv (assigned wid key ts i s)"
proof -
  have t: "task_at s key i = Some (fs_tasks ts ! i)" using assms by (simp add: task_at_def)
  show ?thesis using assms(1) unfolding base_inv_def
    by (elim conjE, intro conjI)
      (auto intro: inv_core_assign [OF _ t assms(5-8)] inv_budget_assign [OF _ _ t] inv_assign_assigned assms
        simp: upd_simps elim!: inv_queue_mono)
qed

lemma base_inv_upd_worker [inv_intros]:
  assumes "base_inv s" "\<And>ws. w_reserved (f ws) = w_reserved ws \<and> ws_TotalSlots (f ws) = ws_TotalSlots ws"
  shows "base_inv (upd_worker w f s)"
  using assms unfolding base_inv_def
  by (elim conjE, intro conjI)
    (auto intro: inv_core_upd_worker simp: upd_simps elim!: inv_budget_cong inv_assign_cong inv_queue_mono)

subsection \<open>Reports\<close>

lemma release_sets [upd_simps]:
  "fmlookup (sets (release att st s)) k =
     (if k = aa_set att
      then map_option (\<lambda>ts. ts\<lparr>fs_tasks := (fs_tasks ts)[aa_task att := (fs_tasks ts ! aa_task att)\<lparr>lt_state := st\<rparr>]\<rparr>)
             (fmlookup (sets s) k)
      else fmlookup (sets s) k)"
  by (simp add: release_def upd_simps upd_task_def)

lemma finish_sets [upd_simps]:
  "fmlookup (sets (finish key e s)) k =
     (if k = key
      then map_option (\<lambda>ts. if fs_terminal ts then ts else ts\<lparr>fs_terminal := True, fs_err := e, fs_wake := True\<rparr>)
             (fmlookup (sets s) k)
      else fmlookup (sets s) k)"
  by (auto simp: finish_def notify_def upd_simps set_terminal_def split: option.splits)

lemma notify_sets [upd_simps]:
  "fmlookup (sets (notify key s)) k =
     (if k = key then map_option (\<lambda>ts. ts\<lparr>fs_wake := True\<rparr>) (fmlookup (sets s) k) else fmlookup (sets s) k)"
  by (simp add: notify_def upd_simps)

lemma upd_task_sets [upd_simps]:
  "fmlookup (sets (upd_task key i f s)) k =
     (if k = key then map_option (\<lambda>ts. ts\<lparr>fs_tasks := (fs_tasks ts)[i := f (fs_tasks ts ! i)]\<rparr>) (fmlookup (sets s) k)
      else fmlookup (sets s) k)"
  by (simp add: upd_task_def upd_simps)

text \<open>A live attempt, the situation in which a report takes effect.\<close>

lemma live_attempt:
  assumes "fifo_inv s" "fmlookup (attempts s) a = Some att" "\<not> aa_terminal att"
  obtains ts where "fmlookup (sets s) (aa_set att) = Some ts" "fs_key ts = aa_set att"
    "aa_task att < length (fs_tasks ts)" "lt_state (fs_tasks ts ! aa_task att) = TaskRunning" "set_ok ts"
    "fs_terminal ts \<longrightarrow> fs_err ts \<noteq> None"
proof -
  have "attempt_ok s a att" using assms by (simp add: fifo_inv_def base_inv_def inv_core_def)
  then obtain t where t: "task_at s (aa_set att) (aa_task att) = Some t" "lt_state t = TaskRunning"
    using assms(3) by (auto simp: attempt_ok_def)
  then obtain ts where ts: "fmlookup (sets s) (aa_set att) = Some ts" "aa_task att < length (fs_tasks ts)"
      "fs_tasks ts ! aa_task att = t"
    by (auto simp: task_at_def split: option.splits if_splits)
  moreover have ok: "fs_key ts = aa_set att" "set_ok ts"
    using assms(1) ts by (auto simp: fifo_inv_def inv_sets_def)
  moreover have "fs_terminal ts \<longrightarrow> fs_err ts \<noteq> None"
    using ok(2) ts t nth_mem [OF ts(2)] by (auto simp: set_ok_def)
  ultimately show ?thesis using t that by blast
qed

lemma inv_sets_change:
  assumes "inv_sets s" "\<And>k. k \<noteq> key \<Longrightarrow> fmlookup (sets s') k = fmlookup (sets s) k"
    "fmlookup (sets s') key = Some ts" "fs_key ts = key" "set_ok ts"
  shows "inv_sets s'"
  using assms unfolding inv_sets_def by (metis option.inject)

lemma set_ok_err: "fs_terminal ts \<Longrightarrow> fs_err ts \<noteq> None \<Longrightarrow> set_ok ts"
  by (auto simp: set_ok_def)

lemma unfinished_update:
  assumes "i < length xs" "lt_state (xs ! i) \<noteq> TaskSucceeded"
  shows "length (unfinished (xs[i := y])) + (if lt_state y = TaskSucceeded then 1 else 0) = length (unfinished xs)"
  using length_filter_list_update [OF assms(1), of "\<lambda>t. lt_state t \<noteq> TaskSucceeded" y] assms(2)
  by (simp split: if_splits)

lemma set_ok_succeed:
  assumes ok: "set_ok ts" "\<not> fs_terminal ts" and i: "i < length (fs_tasks ts)" "lt_state (fs_tasks ts ! i) = TaskRunning"
    and y: "lt_state y = TaskSucceeded" and n: "n = fs_remaining ts - 1"
  shows "set_ok (ts\<lparr>fs_tasks := (fs_tasks ts)[i := y], fs_remaining := n, fs_reports := r, fs_wake := w,
    fs_terminal := (n = 0)\<rparr>)"
proof -
  let ?xs = "(fs_tasks ts)[i := y]"
  have rem: "fs_remaining ts = int (length (unfinished (fs_tasks ts)))" "0 < fs_remaining ts" "fs_err ts = None"
    and none: "\<And>t. t \<in> set (fs_tasks ts) \<Longrightarrow> lt_state t \<noteq> TaskFailed"
    using ok unfolding set_ok_def by blast+
  have "length (unfinished ?xs) + 1 = length (unfinished (fs_tasks ts))"
    using unfinished_update [OF i(1), of y] i(2) y by simp
  then have n': "int (length (unfinished ?xs)) = n" using rem(1) n by linarith
  then have all: "lt_state t = TaskSucceeded" if "n = 0" "t \<in> set ?xs" for t
    using that by (auto simp: filter_empty_conv)
  have "lt_state t \<noteq> TaskFailed" if "t \<in> set ?xs" for t
    using in_set_list_updateD [OF that] none y by auto
  moreover have "0 \<le> n" using n' by linarith
  ultimately show ?thesis unfolding set_ok_def using rem(3) n' all by simp
qed

lemma set_ok_unfinished:
  assumes ok: "set_ok ts" "\<not> fs_terminal ts" and i: "i < length (fs_tasks ts)" "lt_state (fs_tasks ts ! i) \<noteq> TaskSucceeded"
    and y: "lt_state y = TaskPending \<or> lt_state y = TaskRunning"
  shows "set_ok (ts\<lparr>fs_tasks := (fs_tasks ts)[i := y], fs_reports := r, fs_wake := w\<rparr>)"
proof -
  have "lt_state t \<noteq> TaskFailed" if "t \<in> set ((fs_tasks ts)[i := y])" for t
    using in_set_list_updateD [OF that] ok y by (auto simp: set_ok_def)
  moreover have "length (unfinished ((fs_tasks ts)[i := y])) = length (unfinished (fs_tasks ts))"
    using unfinished_update [OF i, of y] y by auto
  ultimately show ?thesis using ok unfolding set_ok_def by auto
qed

lemma fifo_inv_succeed:
  assumes inv: "fifo_inv s" and att: "fmlookup (attempts s) a = Some att" "\<not> aa_terminal att"
  shows "fifo_inv (succeedAttempt env att report s)"
proof -
  let ?s = "succeedAttempt env att report s" and ?k = "aa_set att" and ?i = "aa_task att"
  from live_attempt [OF inv att] obtain ts where ts: "fmlookup (sets s) ?k = Some ts" "fs_key ts = ?k"
    "?i < length (fs_tasks ts)" "lt_state (fs_tasks ts ! ?i) = TaskRunning" "set_ok ts"
    "fs_terminal ts \<longrightarrow> fs_err ts \<noteq> None" .
  have base: "base_inv (release att TaskSucceeded s)"
    using inv att by (auto simp: fifo_inv_def intro: base_inv_release)
  then have "base_inv ?s"
    unfolding succeedAttempt_def Let_def
    by (auto split: option.splits intro!: inv_intros)
  moreover have "inv_sets ?s"
  proof (rule inv_sets_change)
    show "inv_sets s" using inv by (simp add: fifo_inv_def)
    show "k \<noteq> ?k \<Longrightarrow> fmlookup (sets ?s) k = fmlookup (sets s) k" for k
      by (auto simp: succeedAttempt_def Let_def upd_simps split: option.splits)
    let ?y = "(fs_tasks ts ! ?i)\<lparr>lt_state := TaskSucceeded, lt_output := ts_Output report\<rparr>"
    let ?n = "fs_remaining ts - 1"
    let ?r = "fs_reports ts @ [\<lparr>tr_success = Some report, tr_failure = None,
      tr_requeued = False, tr_exhausted = False, tr_attempts = 0\<rparr>]"
    let ?ts = "if fs_terminal ts
      then ts\<lparr>fs_tasks := (fs_tasks ts)[?i := (fs_tasks ts ! ?i)\<lparr>lt_state := TaskSucceeded\<rparr>]\<rparr>
      else case env (fs_ctx ts) of
        Some err \<Rightarrow> ts\<lparr>fs_tasks := (fs_tasks ts)[?i := (fs_tasks ts ! ?i)\<lparr>lt_state := TaskSucceeded\<rparr>],
            fs_terminal := True, fs_err := Some (ErrContext err), fs_wake := True\<rparr>
      | None \<Rightarrow> ts\<lparr>fs_tasks := (fs_tasks ts)[?i := ?y], fs_remaining := ?n, fs_reports := ?r,
            fs_wake := True, fs_terminal := (?n = 0)\<rparr>"
    show "fmlookup (sets ?s) ?k = Some ?ts"
      using ts by (simp add: succeedAttempt_def Let_def upd_simps set_terminal_def set_ctx_err_def set_ok_def
          split: option.split)
    show "fs_key ?ts = ?k" using ts by (simp split: option.split)
    show "set_ok ?ts"
      using ts set_ok_succeed [OF ts(5) _ ts(3,4), of ?y ?n]
      by (auto split: option.split intro: set_ok_err)
  qed
  ultimately show ?thesis by (simp add: fifo_inv_def)
qed

lemma fifo_inv_fail:
  assumes inv: "fifo_inv s" and att: "fmlookup (attempts s) a = Some att" "\<not> aa_terminal att"
  shows "fifo_inv (failAttempt env att report s)"
proof -
  let ?s = "failAttempt env att report s" and ?k = "aa_set att" and ?i = "aa_task att"
  from live_attempt [OF inv att] obtain ts where ts: "fmlookup (sets s) ?k = Some ts" "fs_key ts = ?k"
    "?i < length (fs_tasks ts)" "lt_state (fs_tasks ts ! ?i) = TaskRunning" "set_ok ts"
    "fs_terminal ts \<longrightarrow> fs_err ts \<noteq> None" .
  let ?t = "fs_tasks ts ! ?i"
  let ?re = "retryable (tf_Kind report) \<and> lt_attempts ?t < maxTaskAttempts s"
  have at: "task_at s ?k ?i = Some ?t" using ts by (simp add: task_at_def)
  have base: "base_inv (release att TaskFailed s)"
    using inv att by (auto simp: fifo_inv_def intro: base_inv_release)
  then have "base_inv ?s"
    unfolding failAttempt_def Let_def using at
    by (auto split: option.splits intro!: inv_intros simp: upd_simps task_at_upd_set)
  moreover have "inv_sets ?s"
  proof (rule inv_sets_change)
    show "inv_sets s" using inv by (simp add: fifo_inv_def)
    show "k \<noteq> ?k \<Longrightarrow> fmlookup (sets ?s) k = fmlookup (sets s) k" for k
      by (auto simp: failAttempt_def Let_def upd_simps split: option.splits)
    let ?r = "fs_reports ts @ [\<lparr>tr_success = None, tr_failure = Some report, tr_requeued = ?re,
      tr_exhausted = (retryable (tf_Kind report) \<and> \<not> ?re), tr_attempts = lt_attempts ?t\<rparr>]"
    let ?failed = "ts\<lparr>fs_tasks := (fs_tasks ts)[?i := ?t\<lparr>lt_state := TaskFailed\<rparr>]\<rparr>"
    let ?ts = "if fs_terminal ts then ?failed
      else case env (fs_ctx ts) of
        Some err \<Rightarrow> ?failed\<lparr>fs_terminal := True, fs_err := Some (ErrContext err), fs_wake := True\<rparr>
      | None \<Rightarrow> if ?re
          then ts\<lparr>fs_tasks := (fs_tasks ts)[?i := ?t\<lparr>lt_state := TaskPending\<rparr>], fs_reports := ?r, fs_wake := True\<rparr>
          else ?failed\<lparr>fs_reports := ?r, fs_terminal := True, fs_err := Some (TaskSetFailed (tf_StageID report)
            (tai_TaskID (tf_Attempt report)) (tf_PartitionID report) (tf_Error report)), fs_wake := True\<rparr>"
    show "fmlookup (sets ?s) ?k = Some ?ts"
      using ts at by (auto simp: failAttempt_def Let_def upd_simps set_terminal_def set_ctx_err_def set_ok_def
          split: option.split)
    show "fs_key ?ts = ?k" using ts by (simp split: option.split)
    show "set_ok ?ts"
      using ts set_ok_unfinished [OF ts(5) _ ts(3), of "?t\<lparr>lt_state := TaskPending\<rparr>"]
      by (auto split: option.split intro: set_ok_err)
  qed
  ultimately show ?thesis by (simp add: fifo_inv_def)
qed

subsection \<open>Offers\<close>

lemma inv_sets_assign:
  assumes "inv_sets s" "fmlookup (sets s) key = Some ts" "\<not> fs_terminal ts" "i < length (fs_tasks ts)"
    "lt_state (fs_tasks ts ! i) = TaskPending"
  shows "inv_sets (assigned wid key ts i s)"
proof (rule inv_sets_change [OF assms(1)])
  let ?y = "(fs_tasks ts ! i)\<lparr>lt_state := TaskRunning, lt_attempts := lt_attempts (fs_tasks ts ! i) + 1,
    lt_active := nextAttempt s\<rparr>"
  show "k \<noteq> key \<Longrightarrow> fmlookup (sets (assigned wid key ts i s)) k = fmlookup (sets s) k" for k
    by (simp add: assignTask_lookups upd_simps)
  show "fmlookup (sets (assigned wid key ts i s)) key = Some (ts\<lparr>fs_tasks := (fs_tasks ts)[i := ?y]\<rparr>)"
    using assms by (simp add: assignTask_lookups upd_simps)
  have "set_ok ts" "fs_key ts = key" using assms by (auto simp: inv_sets_def)
  then show "fs_key (ts\<lparr>fs_tasks := (fs_tasks ts)[i := ?y]\<rparr>) = key" by simp
  show "set_ok (ts\<lparr>fs_tasks := (fs_tasks ts)[i := ?y]\<rparr>)"
    using set_ok_unfinished [OF \<open>set_ok ts\<close> assms(3,4), of ?y "fs_wake ts" "fs_reports ts"] assms(5) by simp
qed

text \<open>The slots that an offer still has, while its loops run.\<close>

definition offer_room :: "WorkerID \<Rightarrow> int \<Rightarrow> FIFO \<Rightarrow> bool" where
  "offer_room wid available s \<longleftrightarrow>
     (\<exists>ws. fmlookup (registry s) wid = Some ws \<and>
        int (fcard (w_reserved ws)) + max 0 available \<le> ws_TotalSlots ws) \<and>
     unat (nextAttempt s) + nat available < 2 ^ 64"

lemma offer_room_assign:
  assumes "offer_room wid available s" "0 < available" "inv_core s"
  shows "offer_room wid (available - 1) (assigned wid key ts i s)" "nextAttempt s \<noteq> - 1"
proof -
  obtain ws where ws: "fmlookup (registry s) wid = Some ws"
      "int (fcard (w_reserved ws)) + available \<le> ws_TotalSlots ws"
    using assms by (auto simp: offer_room_def)
  have "nextAttempt s |\<notin>| w_reserved ws"
    using inv_coreD(3) [OF assms(3) ws(1)] fresh_attempt [OF assms(3)] by (auto simp: worker_ok_def)
  then have card: "fcard (finsert (nextAttempt s) (w_reserved ws)) = Suc (fcard (w_reserved ws))"
    by (simp add: fcard_finsert_disjoint)
  have "unat (nextAttempt s) + nat available < 2 ^ 64" using assms(1) by (simp add: offer_room_def)
  then have "unat (nextAttempt s) \<noteq> 2 ^ 64 - 1" using assms(2) by arith
  then show wrap: "nextAttempt s \<noteq> - 1" by (auto simp: unsigned_minus_1_eq_mask mask_eq_exp_minus_1)
  show "offer_room wid (available - 1) (assigned wid key ts i s)"
    using assms(1,2) ws card unat_plus_one [OF wrap] by (auto simp: offer_room_def upd_simps)
qed

lemma offerTasks_inv:
  assumes "fifo_inv s" "offer_room wid available s" "\<not> set_terminal s key"
    "\<forall>i \<in> set is. \<exists>t. task_at s key i = Some t"
    "offerTasks wid key is (available, as, s) = (available', as', s')"
  shows "fifo_inv s' \<and> offer_room wid available' s' \<and> set_terminal s' = set_terminal s"
  using assms
proof (induction "is" arbitrary: available as s)
  case (Cons i rest)
  obtain ts where ts: "fmlookup (sets s) key = Some ts" "\<not> fs_terminal ts" "i < length (fs_tasks ts)"
    using Cons.prems by (auto simp: set_terminal_def task_at_def split: option.splits if_splits)
  show ?case
  proof (cases "0 < available \<and> lt_state (fs_tasks ts ! i) = TaskPending")
    case False
    with Cons ts show ?thesis by (auto split: if_splits)
  next
    case True
    let ?s = "assigned wid key ts i s"
    from Cons.prems(2) True obtain ws where ws: "fmlookup (registry s) wid = Some ws"
      "int (fcard (w_reserved ws)) < ws_TotalSlots ws" by (auto simp: offer_room_def)
    have inv: "base_inv s" "inv_sets s" "inv_core s" using Cons.prems(1) by (auto simp: fifo_inv_def base_inv_def)
    note room = offer_room_assign [OF Cons.prems(2) _ inv(3)]
    have "fifo_inv ?s" unfolding fifo_inv_def
      using base_inv_assign [OF inv(1) ts(1,3) _ _ ws room(2)] inv_sets_assign [OF inv(2) ts] True inv(2) ts
      by (auto simp: inv_sets_def)
    moreover have "\<forall>j \<in> set rest. \<exists>t. task_at ?s key j = Some t" using Cons.prems(4) by (auto simp: upd_simps)
    moreover have "offerTasks wid key rest (available - 1, as @ [fst (assignTask wid key ts i s)], ?s) = (available', as', s')"
      using Cons.prems(5) True ts by (simp split: prod.splits)
    ultimately show ?thesis
      using Cons.IH [of ?s "available - 1"] room(1) True Cons.prems(3) by (auto simp: upd_simps)
  qed
qed auto

lemma inv_sets_finish_Some: "inv_sets s \<Longrightarrow> inv_sets (finish k (Some e) s)"
  by (rule inv_sets_finish) simp_all

lemma offerSets_inv:
  assumes "fifo_inv s" "offer_room wid available s" "offerSets env wid ks (available, as, s) = (available', as', s')"
  shows "fifo_inv s' \<and> offer_room wid available' s'"
  using assms
proof (induction ks arbitrary: available as s)
  case (Cons key rest)
  show ?case
  proof (cases "fmlookup (sets s) key")
    case (Some ts)
    consider (t) "fs_terminal ts" | (c) e where "\<not> fs_terminal ts" "env (fs_ctx ts) = Some e"
      | (r) "\<not> fs_terminal ts" "env (fs_ctx ts) = None" by fastforce
    then show ?thesis
    proof cases
      case c
      have "fifo_inv (finish key (Some (ErrContext e)) s)"
        using Cons.prems(1) by (auto simp: fifo_inv_def intro: base_inv_finish inv_sets_finish_Some)
      moreover have "offer_room wid available (finish key (Some (ErrContext e)) s)"
        using Cons.prems(2) by (simp add: offer_room_def upd_simps)
      ultimately show ?thesis using Cons.IH Cons.prems(3) c Some by simp
    next
      case r
      obtain av as1 s1 where o: "offerTasks wid key [0..<length (fs_tasks ts)] (available, as, s) = (av, as1, s1)"
        by (metis prod_cases3)
      have "fifo_inv s1 \<and> offer_room wid av s1 \<and> set_terminal s1 = set_terminal s"
        by (rule offerTasks_inv [OF Cons.prems(1,2) _ _ o]) (use r Some in \<open>simp_all add: set_terminal_def task_at_def\<close>)
      with Cons.IH [of s1 av as1] Cons.prems(3) r Some o show ?thesis by simp
    qed (use Cons Some in simp)
  qed (use Cons in simp)
qed auto

lemma available_slots_room:
  assumes "fifo_inv s" "fmlookup (registry s) wid = Some ws" "unat (nextAttempt s) + nat free < 2 ^ 64"
    "w_reserved (f ws) = w_reserved ws" "ws_TotalSlots (f ws) = ws_TotalSlots ws"
  shows "offer_room wid (available_slots ws free seen) (upd_worker wid f s)"
proof -
  have "int (fcard (w_reserved ws)) \<le> ws_TotalSlots ws"
    using assms by (auto simp: fifo_inv_def base_inv_def worker_ok_def dest: inv_coreD(3))
  moreover have "nat (available_slots ws free seen) \<le> nat free" by (simp add: available_slots_def)
  ultimately show ?thesis using assms by (auto simp: offer_room_def upd_simps available_slots_def)
qed

lemma fifo_inv_offer:
  assumes "fifo_inv s" "unat (nextAttempt s) + nat free < 2 ^ 64"
  shows "fifo_inv (snd (OfferResources env now wid free running s))"
proof -
  let ?f = "\<lambda>w. w\<lparr>ws_ReportedFreeSlots := free, ws_RunningAttemptIDs := running, ws_LastHeartbeat := now\<rparr>"
  have s1: "fifo_inv (upd_worker wid ?f s)"
    using assms(1) by (auto simp: fifo_inv_def inv_sets_def upd_simps intro!: base_inv_upd_worker)
  have comp: "fifo_inv s' \<Longrightarrow> fifo_inv (compactQueue s')" for s'
    by (auto simp: fifo_inv_def inv_sets_def upd_simps intro: base_inv_compact)
  show ?thesis
  proof (cases "fmlookup (registry s) wid")
    case (Some ws)
    have room: "offer_room wid (available_slots ws free seen) (upd_worker wid ?f s)" for seen
      by (rule available_slots_room [OF assms(1) Some assms(2)]) simp_all
    show ?thesis
      using offerSets_inv [OF s1 room] assms(1) comp Some
      by (auto simp: OfferResources_def Let_def split: sum.split prod.split)
  qed (use assms in \<open>simp add: OfferResources_def\<close>)
qed

subsection \<open>Registration and submission\<close>

lemma fifo_inv_register:
  assumes "fifo_inv s"
  shows "fifo_inv (snd (RegisterWorker wid slots now s))"
proof -
  have "fifo_inv (s\<lparr>registry := fmupd wid (new_worker wid slots now) (registry s)\<rparr>)"
    if new: "fmlookup (registry s) wid = None" "0 < slots"
  proof -
    let ?s = "s\<lparr>registry := fmupd wid (new_worker wid slots now) (registry s)\<rparr>"
    have T: "task_at ?s = task_at s" by (rule task_at_cong) simp
    have inv: "inv_core s" "inv_budget s" "inv_queue s" "inv_assign s" "inv_sets s"
      using assms by (auto simp: fifo_inv_def base_inv_def)
    have none: "aa_worker att \<noteq> wid" if "fmlookup (attempts s) a = Some att" for a att
      using inv_coreD(1) [OF inv(1) that] new by (auto simp: attempt_ok_def fmdom_notI)
    have "inv_core ?s" unfolding inv_core_def
    proof (intro conjI allI impI)
      fix a att assume "fmlookup (attempts ?s) a = Some att"
      with inv_coreD(1) [OF inv(1)] show "attempt_ok ?s a att" by (simp add: attempt_ok_def T)
    next
      fix k i t assume "task_at ?s k i = Some t"
      with inv_coreD(2) [OF inv(1)] show "running_ok ?s k i t" by (simp add: running_ok_def T)
    next
      fix w ws assume "fmlookup (registry ?s) w = Some ws"
      with inv_coreD(3) [OF inv(1)] none new(2) show "worker_ok ?s w ws"
        by (auto simp: worker_ok_def new_worker_def fcard_fempty split: if_splits)
    qed
    moreover have "inv_budget ?s" by (rule inv_budget_cong [OF inv(2) T]) simp_all
    moreover have "inv_queue ?s" by (rule inv_queue_mono [OF inv(3)]) (simp_all add: set_terminal_def)
    moreover have "inv_assign ?s" by (rule inv_assign_cong [OF inv(4)]) simp_all
    ultimately show ?thesis using inv(5) by (simp add: fifo_inv_def base_inv_def inv_sets_def)
  qed
  with assms show ?thesis
    using register_InrD [of "registry s" wid slots now] by (auto simp: RegisterWorker_def split: sum.split)
qed

lemma prepareTasks_InrD:
  assumes "prepareTasks stage xs ids ps acc = Inr ys"
  shows "ys = acc @ map new_logical xs"
  using assms
proof (induction xs arbitrary: ids ps acc)
  case (Cons x xs)
  then show ?case using Cons.IH [of "task_ID x # ids" "task_PartitionID x # ps" "acc @ [new_logical x]"]
    by (simp split: if_splits)
qed simp

lemma prepareTaskSet_InrD:
  assumes "prepareTaskSet c input = Inr ts"
  shows "fs_key ts = set_key input" "fs_ctx ts = c" "fs_terminal ts = False" "fs_err ts = None" "fs_reports ts = []"
    "fs_remaining ts = int (length (fs_tasks ts))" "0 < length (fs_tasks ts)"
    "fs_tasks ts = sort_key (\<lambda>t. task_PartitionID (lt_task t)) (map new_logical (set_Tasks input))"
    "sorted (map (\<lambda>t. task_PartitionID (lt_task t)) (fs_tasks ts))" "fs_inputs ts = set_ShuffleInputs input"
proof -
  show tasks: "fs_tasks ts = sort_key (\<lambda>t. task_PartitionID (lt_task t)) (map new_logical (set_Tasks input))"
    using assms by (auto simp: prepareTaskSet_def split: if_splits option.splits sum.splits dest!: prepareTasks_InrD)
  show "fs_remaining ts = int (length (fs_tasks ts))" "0 < length (fs_tasks ts)"
    unfolding tasks length_sort length_map
    using assms by (auto simp: prepareTaskSet_def split: if_splits option.splits sum.splits)
  show "sorted (map (\<lambda>t. task_PartitionID (lt_task t)) (fs_tasks ts))"
    unfolding tasks by (rule sorted_sort_key)
qed (use assms in \<open>auto simp: prepareTaskSet_def split: if_splits option.splits sum.splits\<close>)

lemma prepared_pending:
  assumes "prepareTaskSet c input = Inr ts" "t \<in> set (fs_tasks ts)"
  shows "lt_state t = TaskPending \<and> lt_attempts t = 0"
proof -
  have "t \<in> set (map new_logical (set_Tasks input))"
    using assms(2) unfolding prepareTaskSet_InrD(8) [OF assms(1)] set_sort .
  then obtain task where "t = new_logical task" by auto
  then show ?thesis by (simp add: new_logical_def)
qed

lemma fifo_inv_new_set:
  assumes inv: "fifo_inv s" and prep: "prepareTaskSet c input = Inr ts" and new: "fs_key ts |\<notin>| fmdom (sets s)"
    and open': "\<not> closed s"
  shows "fifo_inv (s\<lparr>nextSequence := n, sets := fmupd (fs_key ts) (ts\<lparr>fs_sequence := q\<rparr>) (sets s),
      queue := queue s @ [fs_key ts], submissions := m\<rparr>)" (is "fifo_inv ?s")
proof -
  let ?k = "fs_key ts"
  note d = prepareTaskSet_InrD [OF prep]
  have T: "task_at ?s k i = (if k = ?k then (if i < length (fs_tasks ts) then Some (fs_tasks ts ! i) else None) else task_at s k i)" for k i
    by (simp add: task_at_def)
  have old: "task_at s ?k i = None" for i using new by (simp add: task_at_def fmdom_notD)
  have pend: "i < length (fs_tasks ts) \<Longrightarrow> lt_state (fs_tasks ts ! i) = TaskPending \<and> lt_attempts (fs_tasks ts ! i) = 0" for i
    using prepared_pending [OF prep] by simp
  have i: "inv_core s" "inv_budget s" "inv_queue s" "inv_assign s" "inv_sets s"
    using inv by (auto simp: fifo_inv_def base_inv_def)
  have ptr: "aa_set att \<noteq> ?k" if "fmlookup (attempts s) a = Some att" for a att
    using inv_coreD(1) [OF i(1) that] old by (auto simp: attempt_ok_def)
  have "inv_core ?s"
    using i(1) ptr pend unfolding inv_core_def
    by (auto simp: attempt_ok_def running_ok_def worker_ok_def T split: if_splits)
  moreover have "inv_budget ?s"
  proof -
    have "task_attempts ?s k j = task_attempts s k j" for k j by (simp add: task_attempts_def)
    moreover have "task_attempts s ?k j = {}" for j using ptr by (auto simp: task_attempts_def)
    ultimately show ?thesis using i(2) pend by (auto simp: inv_budget_def budget_ok_def T split: if_splits)
  qed
  moreover have "inv_queue ?s" using i(3) new open' d(3)
    by (auto simp: inv_queue_def set_terminal_def split: if_splits)
  moreover have "inv_assign ?s" using i(4) ptr unfolding inv_assign_def assignment_ok_def by fastforce
  moreover have "inv_sets ?s"
  proof -
    have "unfinished (fs_tasks ts) = fs_tasks ts" using prepared_pending [OF prep] by (auto simp: filter_id_conv)
    then have "set_ok (ts\<lparr>fs_sequence := q\<rparr>)" using d prepared_pending [OF prep] by (auto simp: set_ok_def)
    then show ?thesis using i(5) by (auto simp: inv_sets_def)
  qed
  ultimately show ?thesis by (simp add: fifo_inv_def base_inv_def)
qed

lemma fifo_inv_admit: "fifo_inv s \<Longrightarrow> fifo_inv (snd (ScheduleTaskSet_admit env c input n s))"
  using fifo_inv_new_set [of s c input]
  by (auto simp: ScheduleTaskSet_admit_def split: sum.split option.split)

subsection \<open>Waiting, expiry and closing\<close>

lemma fifo_inv_upd_set:
  assumes "fifo_inv s" "\<And>ts. fs_tasks (f ts) = fs_tasks ts \<and> fs_inputs (f ts) = fs_inputs ts \<and>
    fs_terminal (f ts) = fs_terminal ts \<and> fs_err (f ts) = fs_err ts \<and> fs_key (f ts) = fs_key ts \<and>
    fs_remaining (f ts) = fs_remaining ts"
  shows "fifo_inv (upd_set k f s)"
proof -
  have "base_inv (upd_set k f s)" using assms by (intro base_inv_upd_set) (auto simp: fifo_inv_def)
  moreover have "inv_sets (upd_set k f s)"
    using assms(1) by (intro inv_sets_upd_set) (auto simp: fifo_inv_def assms(2) set_ok_def)
  ultimately show ?thesis by (simp add: fifo_inv_def)
qed

lemma fifo_inv_finish: "fifo_inv s \<Longrightarrow> fifo_inv (finish k (Some e) s)"
  by (auto simp: fifo_inv_def intro: base_inv_finish inv_sets_finish_Some)

lemma fifo_inv_submissions: "fifo_inv s \<Longrightarrow> fifo_inv (s\<lparr>submissions := m\<rparr>)"
  by (simp add: fifo_inv_def base_inv_def inv_core_def attempt_ok_def running_ok_def worker_ok_def
      inv_budget_def budget_ok_def task_attempts_def inv_queue_def inv_assign_def assignment_ok_def inv_sets_def
      task_at_def set_terminal_def)

lemma fifo_inv_drain: "fifo_inv s \<Longrightarrow> fifo_inv (snd (snd (ScheduleTaskSet_drain env key s)))"
  unfolding ScheduleTaskSet_drain_def Let_def
  by (auto split: option.split intro!: fifo_inv_submissions fifo_inv_upd_set fifo_inv_finish)

lemma fifo_inv_await: "fifo_inv s \<Longrightarrow> ScheduleTaskSet_await env p key s = Some s' \<Longrightarrow> fifo_inv s'"
  unfolding ScheduleTaskSet_await_def
  by (auto split: option.splits if_splits intro!: fifo_inv_upd_set)

lemma failAttempt_fields [upd_simps]:
  "attempts (failAttempt env att r s) = attempts (release att TaskFailed s)"
  "registry (failAttempt env att r s) = registry (release att TaskFailed s)"
  "closed (failAttempt env att r s) = closed s" "nextAttempt (failAttempt env att r s) = nextAttempt s"
  "queue (failAttempt env att r s) = queue s" "maxTaskAttempts (failAttempt env att r s) = maxTaskAttempts s"
  "runID (failAttempt env att r s) = runID s"
  by (auto simp: failAttempt_def Let_def upd_simps split: option.split)

lemma succeedAttempt_fields [upd_simps]:
  "attempts (succeedAttempt env att r s) = attempts (release att TaskSucceeded s)"
  "registry (succeedAttempt env att r s) = registry (release att TaskSucceeded s)"
  "closed (succeedAttempt env att r s) = closed s" "nextAttempt (succeedAttempt env att r s) = nextAttempt s"
  "queue (succeedAttempt env att r s) = queue s" "maxTaskAttempts (succeedAttempt env att r s) = maxTaskAttempts s"
  "runID (succeedAttempt env att r s) = runID s"
  by (auto simp: succeedAttempt_def Let_def upd_simps split: option.split)

definition live_on :: "FIFO \<Rightarrow> WorkerID \<Rightarrow> TaskAttemptID \<Rightarrow> bool" where
  "live_on s w a \<longleftrightarrow> (\<exists>att. fmlookup (attempts s) a = Some att \<and> \<not> aa_terminal att \<and> aa_worker att = w)"

lemma reserved_live: "fifo_inv s \<Longrightarrow> fmlookup (registry s) w = Some ws \<Longrightarrow> a |\<in>| w_reserved ws \<longleftrightarrow> live_on s w a"
  using inv_coreD(3) [of s w ws] by (auto simp: fifo_inv_def base_inv_def worker_ok_def live_on_def)

lemma live_on_fail:
  assumes "fifo_inv s" "fmlookup (attempts s) a = Some att"
  shows "live_on (failAttempt env att r s) w b \<longleftrightarrow> b \<noteq> a \<and> live_on s w b"
proof -
  have "tai_ID (aa_identity att) = a"
    using assms inv_coreD(1) [of s a att] by (auto simp: fifo_inv_def base_inv_def attempt_ok_def)
  then show ?thesis by (auto simp: live_on_def upd_simps)
qed

text \<open>Only the workers of \<open>L\<close> were lost and only reservations have gone.\<close>

definition lose_if :: "WorkerID set \<Rightarrow> WorkerID \<Rightarrow> workerState \<Rightarrow> workerState" where
  "lose_if L v ws = (if v \<in> L then ws\<lparr>ws_Status := WorkerLost\<rparr> else ws)"

definition shrinks :: "WorkerID set \<Rightarrow> FIFO \<Rightarrow> FIFO \<Rightarrow> bool" where
  "shrinks L s s' \<longleftrightarrow>
     fmdom (registry s') = fmdom (registry s) \<and>
     (\<forall>v ws'. fmlookup (registry s') v = Some ws' \<longrightarrow>
       (\<exists>ws r. fmlookup (registry s) v = Some ws \<and> ws' = (lose_if L v ws)\<lparr>w_reserved := r\<rparr> \<and>
          r |\<subseteq>| w_reserved ws))"

lemma lose_if_simps [simp]:
  "lose_if {} v ws = ws" "w_reserved (lose_if L v ws) = w_reserved ws"
  "lose_if K v ((lose_if L v ws)\<lparr>w_reserved := r\<rparr>) = (lose_if (L \<union> K) v ws)\<lparr>w_reserved := r\<rparr>"
  "ws_Status (lose_if L v ws) = (if v \<in> L then WorkerLost else ws_Status ws)"
  "ws_LastHeartbeat (lose_if L v ws) = ws_LastHeartbeat ws" "ws_TotalSlots (lose_if L v ws) = ws_TotalSlots ws"
  by (auto simp: lose_if_def)

lemma same_reserved [intro]:
  "\<exists>r. ws = ws\<lparr>w_reserved := r\<rparr> \<and> r |\<subseteq>| w_reserved ws"
  "\<exists>r. ws\<lparr>ws_Status := x\<rparr> = ws\<lparr>ws_Status := x, w_reserved := r\<rparr> \<and> r |\<subseteq>| w_reserved ws"
  by (rule exI [where x = "w_reserved ws"], simp)+

lemma shrinks_refl [simp]: "shrinks {} s s"
  by (auto simp: shrinks_def)

lemma shrinks_trans:
  assumes "shrinks L s t" "shrinks K t u"
  shows "shrinks (L \<union> K) s u"
  unfolding shrinks_def
proof (intro conjI allI impI)
  show "fmdom (registry u) = fmdom (registry s)" using assms by (simp add: shrinks_def)
  fix v w3 assume "fmlookup (registry u) v = Some w3"
  then obtain w2 r3 where w2: "fmlookup (registry t) v = Some w2" "w3 = (lose_if K v w2)\<lparr>w_reserved := r3\<rparr>"
      "r3 |\<subseteq>| w_reserved w2" using assms(2) unfolding shrinks_def by blast
  then obtain w1 r2 where w1: "fmlookup (registry s) v = Some w1" "w2 = (lose_if L v w1)\<lparr>w_reserved := r2\<rparr>"
      "r2 |\<subseteq>| w_reserved w1" using assms(1) unfolding shrinks_def by blast
  have "w3 = (lose_if (L \<union> K) v w1)\<lparr>w_reserved := r3\<rparr>" "r3 |\<subseteq>| w_reserved w1"
    using w1 w2 by auto
  with w1(1) show "\<exists>ws r. fmlookup (registry s) v = Some ws \<and> w3 = (lose_if (L \<union> K) v ws)\<lparr>w_reserved := r\<rparr> \<and>
      r |\<subseteq>| w_reserved ws" by blast
qed

lemma shrinks_fail: "shrinks {} s (failAttempt env att r s)"
  unfolding shrinks_def upd_simps lose_if_simps by (auto split: if_splits)

lemma shrinks_lose: "shrinks {w} s (upd_worker w (\<lambda>w. w\<lparr>ws_Status := WorkerLost\<rparr>) s)"
proof -
  have "fmdom (registry (upd_worker w (\<lambda>w. w\<lparr>ws_Status := WorkerLost\<rparr>) s)) = fmdom (registry s)"
    by (simp add: upd_worker_def)
  then show ?thesis
    unfolding shrinks_def upd_simps by (auto simp: lose_if_def split: if_splits)
qed

lemma expireAttempts_inv:
  assumes "fifo_inv s" "distinct as" "\<forall>a \<in> set as. live_on s w a"
  shows "fifo_inv (expireAttempts env w as s) \<and>
    (\<forall>v b. live_on (expireAttempts env w as s) v b \<longleftrightarrow> b \<notin> set as \<and> live_on s v b) \<and>
    shrinks {} s (expireAttempts env w as s)"
  using assms
proof (induction as arbitrary: s)
  case (Cons a as)
  obtain att where att: "fmlookup (attempts s) a = Some att" "\<not> aa_terminal att"
    using Cons.prems(3) by (auto simp: live_on_def)
  let ?s = "failAttempt (env a) att (lost_report w (aa_assignment att)) s"
  note live = live_on_fail [OF Cons.prems(1) att(1), of "env a" "lost_report w (aa_assignment att)"]
  have inv: "fifo_inv ?s" by (rule fifo_inv_fail [OF Cons.prems(1) att])
  have "distinct as" "\<forall>b \<in> set as. live_on ?s w b" using Cons.prems live by auto
  from Cons.IH [OF inv this] show ?case
    using att(1) live shrinks_trans [OF shrinks_fail, of "{}"] by auto
qed auto

lemma expireAttempts_closed [upd_simps]:
  "closed (expireAttempts env w as s) = closed s" "nextAttempt (expireAttempts env w as s) = nextAttempt s"
  "maxTaskAttempts (expireAttempts env w as s) = maxTaskAttempts s"
  by (induction as arbitrary: s) (auto simp: upd_simps split: option.split)

text \<open>Losing a worker ends its live attempts, frees its slots and touches no other worker.\<close>

lemma live_on_upd_worker: "live_on (upd_worker w f s) = live_on s"
  by (simp add: live_on_def upd_simps fun_eq_iff)

lemma loseWorker_inv:
  assumes inv: "fifo_inv s" and w: "fmlookup (registry s) w = Some ws"
  shows "fifo_inv (loseWorker env w s) \<and>
    (\<forall>v b. live_on (loseWorker env w s) v b \<longleftrightarrow> v \<noteq> w \<and> live_on s v b) \<and>
    shrinks {w} s (loseWorker env w s)"
proof -
  let ?f = "\<lambda>w :: workerState. w\<lparr>ws_Status := WorkerLost\<rparr>" and ?as = "sorted_list_of_fset (w_reserved ws)"
  let ?s = "upd_worker w ?f s"
  have set: "a \<in> set ?as \<longleftrightarrow> live_on s w a" for a
    using reserved_live [OF inv w] by (simp add: sorted_list_of_fset.rep_eq)
  have inv1: "fifo_inv ?s"
    using inv by (auto simp: fifo_inv_def inv_sets_def upd_simps intro!: base_inv_upd_worker)
  have "distinct ?as" by (simp add: sorted_list_of_fset.rep_eq)
  moreover have "\<forall>a \<in> set ?as. live_on ?s w a" using set by (simp add: live_on_upd_worker)
  moreover have "live_on s v b \<Longrightarrow> live_on s w b \<Longrightarrow> v = w" for v b by (auto simp: live_on_def)
  ultimately show ?thesis
    using expireAttempts_inv [OF inv1, of ?as w env] w set shrinks_trans [OF shrinks_lose [of w s], of "{}"]
    by (auto simp: loseWorker_def live_on_upd_worker)
qed

lemma loseWorkers_inv:
  assumes "fifo_inv s" "set L \<subseteq> fset (fmdom (registry s))"
  shows "fifo_inv (fold (loseWorker env) L s) \<and>
    (\<forall>v b. live_on (fold (loseWorker env) L s) v b \<longleftrightarrow> v \<notin> set L \<and> live_on s v b) \<and>
    shrinks (set L) s (fold (loseWorker env) L s)"
  using assms
proof (induction L arbitrary: s)
  case (Cons w L)
  then obtain ws where w: "fmlookup (registry s) w = Some ws" by (auto simp: fmlookup_dom_iff)
  note lose = loseWorker_inv [OF Cons.prems(1) w, of env]
  then have "fmdom (registry (loseWorker env w s)) = fmdom (registry s)" by (simp add: shrinks_def)
  with Cons.IH [of "loseWorker env w s"] Cons.prems lose show ?case
    using shrinks_trans [of "{w}" s "loseWorker env w s" "set L"] by auto
qed auto

definition lost_workers :: "time \<Rightarrow> duration \<Rightarrow> FIFO \<Rightarrow> WorkerID fset" where
  "lost_workers now timeout s =
     ffilter (\<lambda>w. case fmlookup (registry s) w of None \<Rightarrow> False | Some ws \<Rightarrow> expired now timeout ws)
       (fmdom (registry s))"

lemma lost_workers_iff:
  "w |\<in>| lost_workers now timeout s \<longleftrightarrow> (\<exists>ws. fmlookup (registry s) w = Some ws \<and> expired now timeout ws)"
  by (auto simp: lost_workers_def fmlookup_dom_iff split: option.splits)

lemma fifo_inv_compact: "fifo_inv s \<Longrightarrow> fifo_inv (compactQueue s)"
  by (auto simp: fifo_inv_def inv_sets_def upd_simps intro: base_inv_compact)

definition lose_all :: "(TaskAttemptID \<Rightarrow> ctx_env) \<Rightarrow> time \<Rightarrow> duration \<Rightarrow> FIFO \<Rightarrow> FIFO" where
  "lose_all env now timeout s = fold (loseWorker env) (sorted_list_of_fset (lost_workers now timeout s)) s"

lemma ExpireWorkers_unfold:
  "0 < timeout \<Longrightarrow> \<not> closed s \<Longrightarrow>
   ExpireWorkers env now timeout s =
     (Inr (sorted_list_of_fset (lost_workers now timeout s)),
      compactQueue (lose_all env now timeout s))"
  by (simp add: ExpireWorkers_def lost_workers_def lose_all_def Let_def)

lemma expire_facts:
  assumes "fifo_inv s"
  shows "fifo_inv (lose_all env now timeout s) \<and>
    (\<forall>v b. live_on (lose_all env now timeout s) v b \<longleftrightarrow> v |\<notin>| lost_workers now timeout s \<and> live_on s v b) \<and>
    shrinks (fset (lost_workers now timeout s)) s (lose_all env now timeout s)"
proof -
  have set: "set (sorted_list_of_fset (lost_workers now timeout s)) = fset (lost_workers now timeout s)"
    by (simp add: sorted_list_of_fset.rep_eq)
  have "fset (lost_workers now timeout s) \<subseteq> fset (fmdom (registry s))" by (auto simp: lost_workers_def)
  then show ?thesis using loseWorkers_inv [OF assms(1), of "sorted_list_of_fset (lost_workers now timeout s)" env]
    unfolding lose_all_def set by auto
qed

lemma fifo_inv_expire: "fifo_inv s \<Longrightarrow> fifo_inv (snd (ExpireWorkers env now timeout s))"
  using expire_facts [of s env now timeout] fifo_inv_compact
  by (cases "0 < timeout \<and> \<not> closed s") (auto simp: ExpireWorkers_unfold, auto simp: ExpireWorkers_def)

lemma fifo_inv_close:
  assumes "fifo_inv s"
  shows "fifo_inv (Close s)"
proof -
  let ?f = "\<lambda>ts. if fs_terminal ts then ts
    else ts\<lparr>fs_terminal := True, fs_err := Some ErrTaskSchedulerClosed, fs_wake := True\<rparr>"
  have i: "inv_core s" "inv_budget s" "inv_queue s" "inv_assign s" "inv_sets s"
    using assms by (auto simp: fifo_inv_def base_inv_def)
  have look: "fmlookup (sets (Close s)) k = map_option ?f (fmlookup (sets s) k)" for k by (simp add: Close_def)
  have T: "task_at (Close s) = task_at s" by (auto simp: task_at_def look fun_eq_iff split: option.splits)
  have fin: "set_terminal (Close s) k" for k by (simp add: set_terminal_def look split: option.split)
  have "inv_core (Close s)" by (rule inv_core_cong [OF i(1) T]) (simp_all add: Close_def)
  moreover have "inv_budget (Close s)" by (rule inv_budget_cong [OF i(2) T]) (simp_all add: Close_def)
  moreover have "inv_queue (Close s)" using i(3) fin by (auto simp: inv_queue_def Close_def)
  moreover have "inv_assign (Close s)" by (rule inv_assign_cong [OF i(4)]) (auto simp: look, simp_all add: Close_def)
  moreover have "inv_sets (Close s)" using i(5) by (auto simp: inv_sets_def look intro: set_ok_err)
  ultimately show ?thesis by (simp add: fifo_inv_def base_inv_def)
qed

section \<open>Lost workers hold nothing\<close>

definition inv_lost :: "FIFO \<Rightarrow> bool" where
  "inv_lost s \<longleftrightarrow>
     (\<forall>w ws. fmlookup (registry s) w = Some ws \<longrightarrow> ws_Status ws = WorkerLost \<longrightarrow> w_reserved ws = {||})"

lemma inv_lost_shrinks:
  assumes "inv_lost s" "shrinks {} s s'"
  shows "inv_lost s'"
  using assms unfolding inv_lost_def shrinks_def by fastforce

lemma inv_lost_cong: "inv_lost s \<Longrightarrow> registry s' = registry s \<Longrightarrow> inv_lost s'"
  by (simp add: inv_lost_def)

lemma shrinks_cong: "registry s' = registry s \<Longrightarrow> shrinks {} s s'"
  by (auto simp: shrinks_def)

lemma shrinks_reports: "shrinks {} s (release att st s)" "shrinks {} s (succeedAttempt env att r s)"
  unfolding shrinks_def upd_simps lose_if_simps by (auto split: if_splits)

definition alive_on :: "WorkerID \<Rightarrow> FIFO \<Rightarrow> bool" where
  "alive_on w s \<longleftrightarrow> (\<forall>ws. fmlookup (registry s) w = Some ws \<longrightarrow> ws_Status ws \<noteq> WorkerLost)"

lemma inv_lost_assign: "inv_lost s \<Longrightarrow> alive_on w s \<Longrightarrow> inv_lost (assigned w key ts i s) \<and> alive_on w (assigned w key ts i s)"
  by (auto simp: inv_lost_def alive_on_def upd_simps split: if_splits)

lemma inv_lost_offerTasks:
  assumes "inv_lost s" "alive_on w s" "offerTasks w key is (av, as, s) = (av', as', s')"
  shows "inv_lost s' \<and> alive_on w s'"
  using assms
proof (induction "is" arbitrary: av as s)
  case (Cons i rest)
  then show ?case
    using inv_lost_assign [OF Cons.prems(1,2)]
    by (simp split: if_splits option.splits prod.splits) (metis Cons.IH snd_conv)+
qed auto

lemma inv_lost_offerSets:
  assumes "inv_lost s" "alive_on w s" "offerSets env w ks (av, as, s) = (av', as', s')"
  shows "inv_lost s' \<and> alive_on w s'"
  using assms
proof (induction ks arbitrary: av as s)
  case (Cons key rest)
  have fin: "inv_lost (finish key e s) \<and> alive_on w (finish key e s)" for e
    using Cons.prems(1,2) by (simp add: inv_lost_def alive_on_def upd_simps)
  show ?case
  proof (cases "fmlookup (sets s) key")
    case (Some ts)
    obtain av1 as1 s1 where o: "offerTasks w key [0..<length (fs_tasks ts)] (av, as, s) = (av1, as1, s1)"
      by (metis prod_cases3)
    show ?thesis
      using Cons.prems Cons.IH [of s] Cons.IH [OF conjunct1 conjunct2, OF fin fin]
        Cons.IH [of s1] inv_lost_offerTasks [OF Cons.prems(1,2) o] Some o
      by (auto split: if_splits option.splits)
  qed (use Cons in auto)
qed auto

lemma inv_lost_offer:
  assumes "inv_lost s"
  shows "inv_lost (snd (OfferResources env now wid free running s))"
proof (cases "fmlookup (registry s) wid")
  case (Some ws)
  let ?s1 = "upd_worker wid (\<lambda>w. w\<lparr>ws_ReportedFreeSlots := free, ws_RunningAttemptIDs := running, ws_LastHeartbeat := now\<rparr>) s"
  have "inv_lost ?s1" using assms by (auto simp: inv_lost_def upd_simps split: if_splits)
  moreover have "ws_Status ws \<noteq> WorkerLost \<Longrightarrow> alive_on wid ?s1" using Some by (simp add: alive_on_def upd_simps)
  ultimately show ?thesis
    using inv_lost_offerSets [of ?s1 wid env "queue ?s1"] assms Some
    by (auto simp: OfferResources_def Let_def inv_lost_cong [OF _ compactQueue_fields(3)]
        split: sum.split prod.split)
qed (use assms in \<open>simp add: OfferResources_def\<close>)

lemma inv_lost_register: "inv_lost s \<Longrightarrow> inv_lost (snd (RegisterWorker wid slots now s))"
  using register_InrD [of "registry s" wid slots now]
  by (auto simp: RegisterWorker_def inv_lost_def new_worker_def split: sum.split if_splits)

lemma inv_lost_expire:
  assumes "fifo_inv s" "inv_lost s"
  shows "inv_lost (snd (ExpireWorkers env now timeout s))"
proof (cases "0 < timeout \<and> \<not> closed s")
  case True
  let ?L = "lost_workers now timeout s" and ?s = "lose_all env now timeout s"
  note f = expire_facts [OF assms(1), of env now timeout]
  have "w_reserved ws' = {||}" if look: "fmlookup (registry ?s) w = Some ws'" and lost: "ws_Status ws' = WorkerLost" for w ws'
  proof (cases "w |\<in>| ?L")
    case True
    then have "\<not> live_on ?s w b" for b using f by simp
    with reserved_live [OF conjunct1 [OF f] look] show ?thesis by auto
  next
    case False
    from f look obtain ws r where "fmlookup (registry s) w = Some ws" "ws' = (lose_if (fset ?L) w ws)\<lparr>w_reserved := r\<rparr>"
      "r |\<subseteq>| w_reserved ws" unfolding shrinks_def by blast
    with assms(2) False lost show ?thesis by (auto simp: inv_lost_def)
  qed
  then show ?thesis using True by (auto simp: ExpireWorkers_unfold inv_lost_def upd_simps)
qed (use assms in \<open>auto simp: ExpireWorkers_def\<close>)

section \<open>Runs of the scheduler\<close>

text \<open>
  Every step is one critical section of one goroutine: a call of a worker-facing method, of
  \<open>ExpireWorkers\<close> or \<open>Close\<close>, the admission of a task set, or one \<open>drain\<close> or \<open>await\<close> of a
  submission. Any of them may come next, with any arguments, clock and contexts. The only limit is
  the 64-bit attempt counter, which an offer must not exhaust.
\<close>

inductive fifo_step :: "FIFO \<Rightarrow> FIFO \<Rightarrow> bool" where
  step_register: "fifo_step s (snd (RegisterWorker w slots now s))"
| step_admit: "fifo_step s (snd (ScheduleTaskSet_admit env c input observerNil s))"
| step_drain: "fifo_step s (snd (snd (ScheduleTaskSet_drain env key s)))"
| step_await: "ScheduleTaskSet_await env pick key s = Some s' \<Longrightarrow> fifo_step s s'"
| step_offer: "unat (nextAttempt s) + nat free < 2 ^ 64 \<Longrightarrow>
    fifo_step s (snd (OfferResources env now w free running s))"
| step_success: "fifo_step s (snd (ReportSuccess env success s))"
| step_failure: "fifo_step s (snd (ReportFailure env failure s))"
| step_expire: "fifo_step s (snd (ExpireWorkers envs now timeout s))"
| step_close: "fifo_step s (Close s)"

inductive_cases fifo_stepE: "fifo_step s s'"

definition fifo_init :: "FIFO \<Rightarrow> bool" where
  "fifo_init s \<longleftrightarrow> (\<exists>options rid. NewFIFOTaskScheduler options rid = Some s)"

definition fifo_ok :: "FIFO \<Rightarrow> bool" where
  "fifo_ok s \<longleftrightarrow> fifo_inv s \<and> inv_lost s"

lemma fifo_ok_init: "fifo_init s \<Longrightarrow> fifo_ok s"
  by (auto simp: fifo_init_def NewFIFOTaskScheduler_def fifo_ok_def fifo_inv_def base_inv_def inv_core_def
      inv_budget_def inv_queue_def inv_assign_def inv_sets_def inv_lost_def task_at_def set_terminal_def
      resolveSchedulerOptions_positive split: option.splits)

lemma validateReport_live:
  assumes "validateReport j st identity p w s = Inr (Some att)"
  shows "fmlookup (attempts s) (tai_ID identity) = Some att" "\<not> aa_terminal att"
  using assms by (auto simp: validateReport_def Let_def split: if_splits option.splits)

lemma fifo_ok_success: "fifo_ok s \<Longrightarrow> fifo_ok (snd (ReportSuccess env r s))"
  by (auto simp: ReportSuccess_def fifo_ok_def split: sum.split option.split
      intro: fifo_inv_succeed inv_lost_shrinks [OF _ shrinks_reports(2)] dest: validateReport_live)

lemma fifo_ok_failure: "fifo_ok s \<Longrightarrow> fifo_ok (snd (ReportFailure env r s))"
  by (auto simp: ReportFailure_def fifo_ok_def split: sum.split option.split
      intro: fifo_inv_fail inv_lost_shrinks [OF _ shrinks_fail] dest: validateReport_live)

lemma registry_waiting:
  "registry (snd (ScheduleTaskSet_admit env c input n s)) = registry s"
  "registry (snd (snd (ScheduleTaskSet_drain env key s))) = registry s"
  "ScheduleTaskSet_await env p key s = Some s' \<Longrightarrow> registry s' = registry s"
  "registry (Close s) = registry s"
  by (auto simp: ScheduleTaskSet_admit_def ScheduleTaskSet_drain_def ScheduleTaskSet_await_def Close_def Let_def
      upd_simps split: sum.split option.splits if_splits)

lemma fifo_ok_step: "fifo_ok s \<Longrightarrow> fifo_step s s' \<Longrightarrow> fifo_ok s'"
  by (erule fifo_stepE)
    (auto intro: fifo_ok_success fifo_ok_failure,
     auto simp: fifo_ok_def intro: fifo_inv_register fifo_inv_admit fifo_inv_drain fifo_inv_await fifo_inv_offer
       fifo_inv_expire fifo_inv_close inv_lost_register inv_lost_offer inv_lost_expire
       inv_lost_cong [OF _ registry_waiting(1)] inv_lost_cong [OF _ registry_waiting(2)]
       inv_lost_cong [OF _ registry_waiting(3)] inv_lost_cong [OF _ registry_waiting(4)])

interpretation fifo: invariant_system fifo_init fifo_step fifo_ok
  by unfold_locales (auto intro: fifo_ok_init fifo_ok_step)

end
