(* ===== verification/FIFO_Properties.thy ===== *)
theory FIFO_Properties
  imports FIFO_Invariant
begin

text \<open>
  The properties of the task scheduler, for every state a run can reach: slots, placement order,
  retry budget, reports, results, expiry, waking and closing.
\<close>

section \<open>A run to evaluate\<close>

definition ex_task :: "int \<Rightarrow> Task" where
  "ex_task p = \<lparr>task_ID = of_int p, task_StageID = 0, task_StageKind = StageResult, task_PartitionID = p,
     task_NumPartitions = 2, task_Operations = [], task_ShuffleWrite = None,
     task_FinalAction = Some \<lparr>act_Kind = ActionCount, act_TargetRDD = 0\<rparr>\<rparr>"

definition ex_set :: TaskSet where
  "ex_set = \<lparr>set_ShuffleInputs = None, set_JobID = 7, set_StageID = 0, set_StageAttemptID = 3,
     set_Tasks = [ex_task 1, ex_task 0]\<rparr>"

definition ex_key :: taskSetKey where
  "ex_key = \<lparr>k_job = 7, k_stage = 0, k_attempt = 3\<rparr>"

definition ex_s0 :: FIFO where
  "ex_s0 = the (NewFIFOTaskScheduler [WithMaxTaskAttempts 2] (replicate 32 CHR ''a''))"

definition ex_s1 :: FIFO where
  "ex_s1 = snd (RegisterWorker ''w1'' 1 0 ex_s0)"

definition ex_s2 :: FIFO where
  "ex_s2 = snd (ScheduleTaskSet_admit (\<lambda>_. None) 0 ex_set False ex_s1)"

definition ex_s3 :: FIFO where
  "ex_s3 = snd (OfferResources (\<lambda>_. None) 5 ''w1'' 1 [] ex_s2)"

definition ex_success :: TaskAttemptSuccess where
  "ex_success = \<lparr>ts_JobID = 7, ts_StageID = 0, ts_Attempt = \<lparr>tai_ID = 0, tai_TaskID = 0, tai_StageAttemptID = 3\<rparr>,
     ts_PartitionID = 0, ts_WorkerID = ''w1'', ts_Output = \<lparr>to_Records = None, to_Count = 4, to_ShuffleOutput = None\<rparr>\<rparr>"

lemmas reach_fifo = reach_step [of fifo_init fifo_step]

lemma ex_reach:
  "reach fifo_init fifo_step ex_s2" "reach fifo_init fifo_step ex_s3"
proof -
  have "NewFIFOTaskScheduler [WithMaxTaskAttempts 2] (replicate 32 CHR ''a'') \<noteq> None" by code_simp
  then have "fifo_init ex_s0" unfolding fifo_init_def ex_s0_def by (metis option.collapse)
  then have "reach fifo_init fifo_step ex_s0" by (rule reach_init)
  then have "reach fifo_init fifo_step ex_s1" unfolding ex_s1_def by (rule reach_fifo [OF _ step_register])
  then show r2: "reach fifo_init fifo_step ex_s2" unfolding ex_s2_def by (rule reach_fifo [OF _ step_admit])
  have "nextAttempt ex_s2 = 0" by code_simp
  then have "unat (nextAttempt ex_s2) + nat 1 < 2 ^ 64" by simp
  then show "reach fifo_init fifo_step ex_s3" unfolding ex_s3_def by (rule reach_fifo [OF r2 step_offer])
qed

section \<open>Slots\<close>

text \<open>
  C2: In every reachable state of the task scheduler a worker never holds more assignments than it
  has slots; the reservations of a worker are exactly the attempts assigned to it that have not
  ended; and a lost worker holds none.
\<close>
theorem slots_never_oversubscribed:
  assumes "reach fifo_init fifo_step s" "fmlookup (registry s) w = Some ws"
  shows "int (fcard (w_reserved ws)) \<le> ws_TotalSlots ws \<and>
    (\<forall>a. a |\<in>| w_reserved ws \<longleftrightarrow>
       (\<exists>att. fmlookup (attempts s) a = Some att \<and> \<not> aa_terminal att \<and> aa_worker att = w)) \<and>
    (ws_Status ws = WorkerLost \<longrightarrow> w_reserved ws = {||})"
  using fifo.reach_inv [OF assms(1)] assms(2)
  by (auto simp: fifo_ok_def fifo_inv_def base_inv_def worker_ok_def inv_lost_def dest: inv_coreD(3))

theorem slots_never_oversubscribed_witness:
  "\<exists>ws. fmlookup (registry ex_s3) ''w1'' = Some ws \<and> w_reserved ws = {|0|} \<and>
     int (fcard (w_reserved ws)) \<le> ws_TotalSlots ws"
proof -
  have "map_option w_reserved (fmlookup (registry ex_s3) ''w1'') = Some {|0|}" by code_simp
  then obtain ws where ws: "fmlookup (registry ex_s3) ''w1'' = Some ws" "w_reserved ws = {|0|}" by auto
  from slots_never_oversubscribed [OF ex_reach(2) ws(1)] ws show ?thesis by auto
qed

section \<open>Retry budget\<close>

text \<open>
  C4: In every reachable state each task has been assigned at most \<open>maxTaskAttempts\<close> times; a task is
  running exactly while one of its attempts has not ended, and then only one; a task waits for a
  retry only while attempts are left.
\<close>
theorem retry_budget:
  assumes "reach fifo_init fifo_step s" "task_at s k i = Some t"
  shows "int (card (task_attempts s k i)) \<le> maxTaskAttempts s \<and>
    int (card (task_attempts s k i)) = lt_attempts t \<and>
    (lt_state t = TaskPending \<longrightarrow> int (card (task_attempts s k i)) < maxTaskAttempts s) \<and>
    (lt_state t = TaskRunning \<longleftrightarrow>
       (\<exists>a \<in> task_attempts s k i. \<exists>att. fmlookup (attempts s) a = Some att \<and> \<not> aa_terminal att)) \<and>
    (\<forall>a att b att'. fmlookup (attempts s) a = Some att \<and> fmlookup (attempts s) b = Some att' \<and>
       a \<in> task_attempts s k i \<and> b \<in> task_attempts s k i \<and> \<not> aa_terminal att \<and> \<not> aa_terminal att' \<longrightarrow> a = b)"
proof -
  have inv: "inv_core s" "inv_budget s"
    using fifo.reach_inv [OF assms(1)] by (auto simp: fifo_ok_def fifo_inv_def base_inv_def)
  have b: "budget_ok s k i t" using inv(2) assms(2) by (simp add: inv_budget_def)
  have live: "lt_state t = TaskRunning \<and> lt_active t = a"
    if "fmlookup (attempts s) a = Some att" "a \<in> task_attempts s k i" "\<not> aa_terminal att" for a att
    using inv_coreD(1) [OF inv(1) that(1)] that assms(2) by (auto simp: attempt_ok_def task_attempts_def)
  have run: "lt_state t = TaskRunning \<Longrightarrow>
      \<exists>a \<in> task_attempts s k i. \<exists>att. fmlookup (attempts s) a = Some att \<and> \<not> aa_terminal att"
    using inv_coreD(2) [OF inv(1) assms(2)] by (auto simp: running_ok_def task_attempts_def)
  show ?thesis using b run live by (auto simp: budget_ok_def)
qed

theorem retry_budget_witness:
  "\<exists>t. task_at ex_s3 ex_key 0 = Some t \<and> lt_state t = TaskRunning \<and>
     int (card (task_attempts ex_s3 ex_key 0)) = 1 \<and> maxTaskAttempts ex_s3 = 2"
proof -
  have "map_option lt_state (task_at ex_s3 ex_key 0) = Some TaskRunning" "maxTaskAttempts ex_s3 = 2"
    "map_option lt_attempts (task_at ex_s3 ex_key 0) = Some 1" by code_simp+
  then obtain t where t: "task_at ex_s3 ex_key 0 = Some t" "lt_state t = TaskRunning" "lt_attempts t = 1" by auto
  from retry_budget [OF ex_reach(2) t(1)] t \<open>maxTaskAttempts ex_s3 = 2\<close> show ?thesis by auto
qed

section \<open>Placement order\<close>

text \<open>
  The specification of an offer: all pending tasks of the live sets whose context has not ended,
  by admission of the set and then by partition, are the candidates; the first ones get the
  available slots and consecutive attempt identifiers.
\<close>

definition candidates_in :: "fifoTaskSet \<Rightarrow> nat list" where
  "candidates_in ts = filter (\<lambda>i. lt_state (fs_tasks ts ! i) = TaskPending) [0..<length (fs_tasks ts)]"

definition candidates :: "ctx_env \<Rightarrow> FIFO \<Rightarrow> taskSetKey \<Rightarrow> (taskSetKey \<times> nat) list" where
  "candidates env s key =
     (case fmlookup (sets s) key of
        None \<Rightarrow> []
      | Some ts \<Rightarrow> if fs_terminal ts \<or> env (fs_ctx ts) \<noteq> None then [] else map (Pair key) (candidates_in ts))"

definition all_candidates :: "ctx_env \<Rightarrow> FIFO \<Rightarrow> (taskSetKey \<times> nat) list" where
  "all_candidates env s = concat (map (candidates env s) (queue s))"

definition placement :: "WorkerID \<Rightarrow> FIFO \<Rightarrow> nat \<times> taskSetKey \<times> nat \<Rightarrow> TaskAssignment" where
  "placement w s = (\<lambda>(j, key, i).
     (case fmlookup (sets s) key of
        Some ts \<Rightarrow> new_assignment w ts i (s\<lparr>nextAttempt := nextAttempt s + of_nat j\<rparr>)
      | None \<Rightarrow> undefined))"

definition same_sets :: "taskSetKey set \<Rightarrow> FIFO \<Rightarrow> FIFO \<Rightarrow> bool" where
  "same_sets K s s' \<longleftrightarrow> runID s' = runID s \<and> (\<forall>k. k \<notin> K \<longrightarrow> fmlookup (sets s') k = fmlookup (sets s) k)"

lemma new_assignment_eq:
  assumes "lt_task (fs_tasks ts' ! i) = lt_task (fs_tasks ts ! i)" "fs_inputs ts' = fs_inputs ts" "fs_key ts' = fs_key ts"
    "runID s' = runID s" "nextAttempt s' = nextAttempt s"
  shows "new_assignment w ts' i s' = new_assignment w ts i s"
  using assms by (simp add: new_assignment_def Let_def)

lemma enumerate_Suc_map: "map (\<lambda>(j, x). f j x) (enumerate (Suc n) xs) = map (\<lambda>(j, x). f (Suc j) x) (enumerate n xs)"
  by (induction xs arbitrary: n) auto

lemma in_set_enumerate_D: "(n, x) \<in> set (enumerate k xs) \<Longrightarrow> x \<in> set xs"
  by (simp only: in_set_enumerate_eq fst_conv snd_conv) (metis less_diff_conv2 add.commute nth_mem)

lemma offerTasks_spec:
  assumes "distinct is" "fmlookup (sets s) key = Some ts" "\<forall>i \<in> set is. i < length (fs_tasks ts)"
    "offerTasks w key is (av, as, s) = (av', as', s')"
  defines "ps \<equiv> take (nat av) (filter (\<lambda>i. lt_state (fs_tasks ts ! i) = TaskPending) is)"
  shows "max 0 av' = max 0 av - int (length ps) \<and>
    as' = as @ map (\<lambda>(j, i). new_assignment w ts i (s\<lparr>nextAttempt := nextAttempt s + of_nat j\<rparr>)) (enumerate 0 ps) \<and>
    nextAttempt s' = nextAttempt s + of_nat (length ps) \<and> same_sets {key} s s'"
  using assms(1-4) unfolding ps_def
proof (induction "is" arbitrary: av as s ts)
  case (Cons i rest)
  show ?case
  proof (cases "0 < av \<and> lt_state (fs_tasks ts ! i) = TaskPending")
    case False
    then show ?thesis using Cons by (cases "0 < av") (auto simp: same_sets_def)
  next
    case True
    let ?s = "assigned w key ts i s"
    let ?ts = "ts\<lparr>fs_tasks := (fs_tasks ts)[i := (fs_tasks ts ! i)\<lparr>lt_state := TaskRunning,
      lt_attempts := lt_attempts (fs_tasks ts ! i) + 1, lt_active := nextAttempt s\<rparr>]\<rparr>"
    let ?ps = "take (nat (av - 1)) (filter (\<lambda>j. lt_state (fs_tasks ts ! j) = TaskPending) rest)"
    let ?ps' = "take (nat (av - 1)) (filter (\<lambda>j. lt_state (fs_tasks ?ts ! j) = TaskPending) rest)"
    have i: "i < length (fs_tasks ts)" "i \<notin> set rest" using Cons.prems by auto
    have look: "fmlookup (sets ?s) key = Some ?ts" using Cons.prems(2) by (simp add: upd_simps)
    have "offerTasks w key rest (av - 1, as @ [fst (assignTask w key ts i s)], ?s) = (av', as', s')"
      using Cons.prems(2,4) True by (simp split: prod.splits)
    then have run: "offerTasks w key rest (av - 1, as @ [new_assignment w ts i s], ?s) = (av', as', s')"
      unfolding assignTask_fst .
    have "i \<noteq> x" if "x \<in> set rest" for x using i(2) that by blast
    then have ps: "?ps' = ?ps" by (intro arg_cong2 [where f = take] filter_cong) simp_all
    have rec: "max 0 av' = max 0 (av - 1) - int (length ?ps) \<and>
      as' = (as @ [new_assignment w ts i s]) @
        map (\<lambda>(j, i). new_assignment w ?ts i (?s\<lparr>nextAttempt := nextAttempt ?s + of_nat j\<rparr>)) (enumerate 0 ?ps) \<and>
      nextAttempt s' = nextAttempt ?s + of_nat (length ?ps) \<and> same_sets {key} ?s s'"
      using Cons.IH [OF _ look _ run] Cons.prems(1,3) unfolding ps by simp
    have new: "new_assignment w ?ts j (?s\<lparr>nextAttempt := nextAttempt ?s + of_nat n\<rparr>) =
      new_assignment w ts j (s\<lparr>nextAttempt := nextAttempt s + of_nat (Suc n)\<rparr>)" if "j \<noteq> i" for j n
      using that by (intro new_assignment_eq) (simp_all add: upd_simps algebra_simps)
    have mem: "j \<noteq> i" if "(n, j) \<in> set (enumerate 0 ?ps)" for n j
    proof -
      have "j \<in> set ?ps" using in_set_enumerate_D [OF that] .
      then show ?thesis using i(2) by (auto dest: in_set_takeD)
    qed
    have "map (\<lambda>(j, i). new_assignment w ?ts i (?s\<lparr>nextAttempt := nextAttempt ?s + of_nat j\<rparr>)) (enumerate 0 ?ps) =
      map (\<lambda>(j, i). new_assignment w ts i (s\<lparr>nextAttempt := nextAttempt s + of_nat (Suc j)\<rparr>)) (enumerate 0 ?ps)"
    proof (rule map_cong [OF refl])
      fix x assume x: "x \<in> set (enumerate 0 ?ps)"
      obtain n j where nj: "x = (n, j)" by (cases x)
      have "j \<noteq> i" using mem x nj by auto
      then show "(\<lambda>(j, i). new_assignment w ?ts i (?s\<lparr>nextAttempt := nextAttempt ?s + of_nat j\<rparr>)) x =
          (\<lambda>(j, i). new_assignment w ts i (s\<lparr>nextAttempt := nextAttempt s + of_nat (Suc j)\<rparr>)) x"
        unfolding nj split by (rule new)
    qed
    moreover have "same_sets {key} s s'" using rec by (auto simp: same_sets_def upd_simps)
    moreover have "nat av = Suc (nat (av - 1))" using conjunct1 [OF True] by arith
    ultimately show ?thesis
      using rec True enumerate_Suc_map [of "\<lambda>j i. new_assignment w ts i (s\<lparr>nextAttempt := nextAttempt s + of_nat j\<rparr>)" 0 ?ps]
      by (simp add: upd_simps algebra_simps)
  qed
qed (simp add: same_sets_def)

lemma candidates_same:
  assumes "same_sets {key} s s'" "key \<notin> set ks"
  shows "map (candidates env s') ks = map (candidates env s) ks"
  using assms by (intro map_cong refl) (auto simp: candidates_def same_sets_def)

lemma candidates_key: "x \<in> set (concat (map (candidates env s) ks)) \<Longrightarrow> fst x \<in> set ks"
  by (auto simp: candidates_def split: option.splits if_splits)

lemma placement_shift:
  assumes "same_sets {key} s s'" "nextAttempt s' = nextAttempt s + of_nat m" "\<forall>x \<in> set xs. fst x \<noteq> key"
  shows "map (placement w s') (enumerate n xs) = map (placement w s) (enumerate (n + m) xs)"
  using assms(3)
proof (induction xs arbitrary: n)
  case (Cons x xs)
  obtain k i where x: "x = (k, i)" "k \<noteq> key" using Cons.prems by (cases x) auto
  have "fmlookup (sets s') k = fmlookup (sets s) k" using assms(1) x by (simp add: same_sets_def)
  then have "placement w s' (n, x) = placement w s (n + m, x)"
    using assms(1,2) x by (auto simp: placement_def same_sets_def algebra_simps intro!: new_assignment_eq split: option.split)
  with Cons.IH [of "Suc n"] Cons.prems show ?case by simp
qed simp

lemma offerTasks_queue: "offerTasks w key is (av, as, s) = (av', as', s') \<Longrightarrow> queue s' = queue s"
proof (induction "is" arbitrary: av as s)
  case (Cons i rest)
  then show ?case
    by (auto split: if_splits option.splits prod.splits) (metis assignTask_lookups(3) snd_conv)
qed simp

lemma offerSets_queue: "offerSets env w ks (av, as, s) = (av', as', s') \<Longrightarrow> queue s' = queue s"
proof (induction ks arbitrary: av as s)
  case (Cons key rest)
  show ?case
  proof (cases "fmlookup (sets s) key")
    case (Some ts)
    obtain av1 as1 s1 where o: "offerTasks w key [0..<length (fs_tasks ts)] (av, as, s) = (av1, as1, s1)"
      by (metis prod_cases3)
    then show ?thesis using Cons Some offerTasks_queue [OF o]
      by (auto simp: upd_simps split: if_splits option.splits dest!: Cons.IH)
  qed (use Cons in auto)
qed simp

lemma offerSets_spec:
  assumes "distinct ks" "offerSets env w ks (av, as, s) = (av', as', s')"
  shows "as' = as @ map (placement w s) (enumerate 0 (take (nat av) (concat (map (candidates env s) ks)))) \<and>
    same_sets (set ks) s s'"
  using assms
proof (induction ks arbitrary: av as s)
  case (Cons key rest)
  have key: "key \<notin> set rest" "distinct rest" using Cons.prems(1) by auto
  have other: "\<forall>x \<in> set (take n (concat (map (candidates env t) rest))). fst x \<noteq> key" for n t
    using candidates_key [of _ env t rest] key(1) by (blast dest: in_set_takeD)
  show ?case
  proof (cases "fmlookup (sets s) key")
    case None
    then show ?thesis using Cons by (auto simp: candidates_def same_sets_def)
  next
    case (Some ts)
    consider (t) "fs_terminal ts" | (c) e where "\<not> fs_terminal ts" "env (fs_ctx ts) = Some e"
      | (r) "\<not> fs_terminal ts" "env (fs_ctx ts) = None" by fastforce
    then show ?thesis
    proof cases
      case t
      then show ?thesis using Cons Some by (auto simp: candidates_def same_sets_def)
    next
      case c
      let ?s = "finish key (Some (ErrContext e)) s"
      have same: "same_sets {key} s ?s" by (simp add: same_sets_def upd_simps)
      have "offerSets env w rest (av, as, ?s) = (av', as', s')" using Cons.prems(2) Some c by simp
      from Cons.IH [OF key(2) this] show ?thesis
        using Some c same placement_shift [OF same, of 0 _ w 0] other
        by (simp add: candidates_same [OF same key(1)] upd_simps) (auto simp: candidates_def same_sets_def)
    next
      case r
      obtain av1 as1 s1 where o: "offerTasks w key [0..<length (fs_tasks ts)] (av, as, s) = (av1, as1, s1)"
        by (metis prod_cases3)
      let ?c = "candidates_in ts"
      have one: "max 0 av1 = max 0 av - int (length (take (nat av) ?c)) \<and>
        as1 = as @ map (\<lambda>(j, i). new_assignment w ts i (s\<lparr>nextAttempt := nextAttempt s + of_nat j\<rparr>)) (enumerate 0 (take (nat av) ?c)) \<and>
        nextAttempt s1 = nextAttempt s + of_nat (length (take (nat av) ?c)) \<and> same_sets {key} s s1"
        using offerTasks_spec [OF _ Some _ o] by (simp add: candidates_in_def)
      then have same: "same_sets {key} s s1" and nxt: "nextAttempt s1 = nextAttempt s + of_nat (length (take (nat av) ?c))"
        by auto
      have run: "offerSets env w rest (av1, as1, s1) = (av', as', s')" using Cons.prems(2) Some r o by simp
      have cand: "candidates env s key = map (Pair key) ?c" using Some r by (simp add: candidates_def)
      have left: "nat av1 = nat av - length ?c" using one by auto
      have mine: "map (\<lambda>(j, i). new_assignment w ts i (s\<lparr>nextAttempt := nextAttempt s + of_nat j\<rparr>)) (enumerate n xs) =
          map (placement w s) (enumerate n (map (Pair key) xs))" for n xs
        by (induction xs arbitrary: n) (simp_all add: placement_def Some)
      let ?rest = "take (nat av - length ?c) (concat (map (candidates env s) rest))"
      have "as' = as1 @ map (placement w s1) (enumerate 0 ?rest) \<and> same_sets (set rest) s1 s'"
        using Cons.IH [OF key(2) run] unfolding left candidates_same [OF same key(1)] .
      then have "as' = as @ map (placement w s) (enumerate 0 (take (nat av) (map (Pair key) ?c))) @
          map (placement w s) (enumerate (length (take (nat av) ?c)) ?rest)" and "same_sets (set rest) s1 s'"
        using one mine [of 0 "take (nat av) ?c"] placement_shift [OF same nxt other, of w 0]
        by (simp_all add: take_map)
      then show ?thesis
        using same by (auto simp: cand enumerate_append_eq same_sets_def min_def)
    qed
  qed
qed (simp add: same_sets_def)

lemma checkRunning_seen: "checkRunning s w running seen = Inr seen' \<Longrightarrow> seen' = seen |\<union>| fset_of_list running"
  by (induction running arbitrary: seen) (auto split: option.splits if_splits)

lemma offer_placements:
  assumes "fifo_ok s" "OfferResources env now w free running s = (Inr assignments, s')"
  shows "\<exists>worker. fmlookup (registry s) w = Some worker \<and>
    assignments = map (placement w s) (enumerate 0
      (take (nat (available_slots worker free (fset_of_list running))) (all_candidates env s))) \<and>
    queue s' = filter (\<lambda>k. \<not> set_terminal s' k) (queue s)"
proof -
  let ?f = "\<lambda>w :: workerState. w\<lparr>ws_ReportedFreeSlots := free, ws_RunningAttemptIDs := running, ws_LastHeartbeat := now\<rparr>"
  let ?s1 = "upd_worker w ?f s"
  obtain worker where w: "fmlookup (registry s) w = Some worker" and
    seen: "checkRunning s w running {||} = Inr (fset_of_list running)"
    using assms(2) by (auto simp: OfferResources_def Let_def split: if_splits option.splits sum.splits dest: checkRunning_seen)
  let ?av = "available_slots worker free (fset_of_list running)"
  obtain av' as' s2 where o: "offerSets env w (queue ?s1) (?av, [], ?s1) = (av', as', s2)" by (metis prod_cases3)
  have res: "assignments = as'" "s' = compactQueue s2"
    using assms(2) w seen o by (auto simp: OfferResources_def Let_def split: if_splits)
  have "distinct (queue ?s1)"
    using assms(1) by (simp add: fifo_ok_def fifo_inv_def base_inv_def inv_queue_def upd_simps)
  note spec = offerSets_spec [OF this o]
  have cand: "candidates env ?s1 = candidates env s" "placement w ?s1 = placement w s"
    by (auto simp: candidates_def placement_def new_assignment_def Let_def upd_simps fun_eq_iff split: option.split)
  have "queue s2 = queue s"
    using offerSets_queue [OF o] by (simp add: upd_simps)
  then show ?thesis using spec w res unfolding cand all_candidates_def by (auto simp: upd_simps)
qed

text \<open>
  C24: In every reachable state, an accepted offer hands out tasks in FIFO order: of all pending
  tasks of the live sets, ordered by admission of their set and within a set by partition, exactly
  the first ones get the available slots, one each, with consecutive new attempt identifiers. A
  slot is available when it is neither reserved nor reported busy; reservations that this heartbeat
  does not mention yet consume reported free slots. Ended sets leave the queue, all other sets keep
  their place.
\<close>
theorem offer_is_FIFO:
  assumes "reach fifo_init fifo_step s" "OfferResources env now w free running s = (Inr assignments, s')"
  shows "\<exists>worker. fmlookup (registry s) w = Some worker \<and>
    assignments = map (placement w s) (enumerate 0
      (take (nat (available_slots worker free (fset_of_list running))) (all_candidates env s))) \<and>
    queue s' = filter (\<lambda>k. \<not> set_terminal s' k) (queue s)"
  by (rule offer_placements [OF fifo.reach_inv [OF assms(1)] assms(2)])

theorem offer_is_FIFO_witness:
  "\<exists>s'. OfferResources (\<lambda>_. None) 5 ''w1'' 1 [] ex_s2 =
     (Inr (map (placement ''w1'' ex_s2) [(0, ex_key, 0)]), s') \<and>
     all_candidates (\<lambda>_. None) ex_s2 = [(ex_key, 0), (ex_key, 1)]"
proof -
  have c: "all_candidates (\<lambda>_. None) ex_s2 = [(ex_key, 0), (ex_key, 1)]" by code_simp
  have "\<not> isl (fst (OfferResources (\<lambda>_. None) 5 ''w1'' 1 [] ex_s2))" by code_simp
  then obtain as s' where o: "OfferResources (\<lambda>_. None) 5 ''w1'' 1 [] ex_s2 = (Inr as, s')"
    by (metis prod.collapse sum.collapse(2))
  have "map_option (\<lambda>worker. available_slots worker 1 {||}) (fmlookup (registry ex_s2) ''w1'') = Some 1" by code_simp
  then show ?thesis using offer_is_FIFO [OF ex_reach(1) o] c o by auto
qed

section \<open>What no step undoes\<close>

text \<open>
  Attempts are never forgotten or reassigned and never come back to life; sets are never forgotten
  and the result of an ended set never changes; workers are never forgotten; closing is final.
\<close>

definition same_attempt :: "assignedAttempt \<Rightarrow> assignedAttempt \<Rightarrow> bool" where
  "same_attempt x y \<longleftrightarrow>
     as_JobID (aa_assignment y) = as_JobID (aa_assignment x) \<and>
     as_StageID (aa_assignment y) = as_StageID (aa_assignment x) \<and>
     aa_identity y = aa_identity x \<and> aa_Task y = aa_Task x \<and> aa_worker y = aa_worker x \<and>
     aa_set y = aa_set x \<and> aa_task y = aa_task x \<and> (aa_terminal x \<longrightarrow> aa_terminal y)"

definition same_set :: "fifoTaskSet \<Rightarrow> fifoTaskSet \<Rightarrow> bool" where
  "same_set x y \<longleftrightarrow> fs_ctx y = fs_ctx x \<and> (fs_terminal x \<longrightarrow> fs_terminal y \<and> fs_err y = fs_err x)"

definition grows :: "FIFO \<Rightarrow> FIFO \<Rightarrow> bool" where
  "grows s s' \<longleftrightarrow>
     (\<forall>a x. fmlookup (attempts s) a = Some x \<longrightarrow> (\<exists>y. fmlookup (attempts s') a = Some y \<and> same_attempt x y)) \<and>
     (\<forall>k x. fmlookup (sets s) k = Some x \<longrightarrow> (\<exists>y. fmlookup (sets s') k = Some y \<and> same_set x y)) \<and>
     fmdom (registry s) |\<subseteq>| fmdom (registry s') \<and> (closed s \<longrightarrow> closed s')"

named_theorems grows_intros \<open>steps that undo nothing\<close>

lemma grows_refl [simp, grows_intros]: "grows s s"
  by (simp add: grows_def same_attempt_def same_set_def)

lemma same_attempt_trans: "same_attempt x y \<Longrightarrow> same_attempt y z \<Longrightarrow> same_attempt x z"
  by (simp add: same_attempt_def)

lemma same_set_trans: "same_set x y \<Longrightarrow> same_set y z \<Longrightarrow> same_set x z"
  by (simp add: same_set_def)

lemma grows_trans:
  assumes "grows s t" "grows t u"
  shows "grows s u"
  unfolding grows_def
proof (intro conjI allI impI)
  fix a x assume "fmlookup (attempts s) a = Some x"
  then show "\<exists>y. fmlookup (attempts u) a = Some y \<and> same_attempt x y"
    using assms unfolding grows_def by (meson same_attempt_trans)
next
  fix k x assume "fmlookup (sets s) k = Some x"
  then show "\<exists>y. fmlookup (sets u) k = Some y \<and> same_set x y"
    using assms unfolding grows_def by (meson same_set_trans)
qed (use assms in \<open>auto simp: grows_def\<close>)

lemma grows_upd_set: "grows s t \<Longrightarrow> (\<And>x. same_set x (f x)) \<Longrightarrow> grows s (upd_set k f t)"
  by (erule grows_trans) (auto simp: grows_def upd_simps same_attempt_def same_set_def)

lemma grows_upd_task [grows_intros]: "grows s t \<Longrightarrow> grows s (upd_task k i f t)"
  unfolding upd_task_def by (erule grows_upd_set) (simp add: same_set_def)

lemma grows_finish [grows_intros]: "grows s t \<Longrightarrow> grows s (finish k e t)"
  by (erule grows_trans) (auto simp: grows_def upd_simps same_attempt_def same_set_def)

lemma grows_notify [grows_intros]: "grows s t \<Longrightarrow> grows s (notify k t)"
  by (erule grows_trans) (auto simp: grows_def upd_simps same_attempt_def same_set_def)

lemma grows_upd_worker [grows_intros]: "grows s t \<Longrightarrow> grows s (upd_worker w f t)"
  by (erule grows_trans) (auto simp: grows_def upd_simps same_attempt_def same_set_def upd_worker_def)

lemma grows_compact [grows_intros]: "grows s t \<Longrightarrow> grows s (compactQueue t)"
  by (erule grows_trans) (auto simp: grows_def upd_simps same_attempt_def same_set_def)

lemma grows_release [grows_intros]: "grows s t \<Longrightarrow> grows s (release att st t)"
  by (erule grows_trans) (auto simp: grows_def upd_simps same_attempt_def same_set_def)

lemma grows_assign: "inv_core s \<Longrightarrow> grows s (assigned w key ts i s)"
  using fresh_attempt [of s] by (auto simp: grows_def upd_simps same_attempt_def same_set_def)

lemma grows_succeed [grows_intros]: "grows s t \<Longrightarrow> grows s (succeedAttempt env att r t)"
  unfolding succeedAttempt_def Let_def
  by (auto split: option.split intro!: grows_intros grows_upd_set simp: same_set_def)

lemma grows_fail [grows_intros]: "grows s t \<Longrightarrow> grows s (failAttempt env att r t)"
  unfolding failAttempt_def Let_def
  by (auto split: option.split intro!: grows_intros grows_upd_set simp: same_set_def)

lemma grows_expireAttempts [grows_intros]: "grows s t \<Longrightarrow> grows s (expireAttempts env w as t)"
  by (induction as arbitrary: t) (auto split: option.split intro: grows_intros)

lemma grows_loseWorker [grows_intros]: "grows s t \<Longrightarrow> grows s (loseWorker env w t)"
  by (auto simp: loseWorker_def split: option.split intro: grows_intros)

lemma grows_loseWorkers: "grows s t \<Longrightarrow> grows s (fold (loseWorker env) L t)"
proof (induction L arbitrary: t)
  case (Cons w L)
  from Cons.IH [OF grows_loseWorker [OF Cons.prems]] show ?case by simp
qed simp

lemma grows_expire: "grows s (snd (ExpireWorkers env now timeout s))"
  by (auto simp: ExpireWorkers_def Let_def intro!: grows_compact grows_loseWorkers)

text \<open>
  Induction over an offer: what every single assignment keeps, and every end of a cancelled set,
  the whole offer keeps. \<open>P\<close> speaks of the assignments made so far and the state.
\<close>

lemma offerTasks_keeps:
  assumes assign: "\<And>as s ts i. fifo_inv s \<Longrightarrow> P as s \<Longrightarrow> P (as @ [fst (assignTask w key ts i s)]) (assigned w key ts i s)"
    and "fifo_inv s" "offer_room w av s" "\<not> set_terminal s key" "\<forall>i \<in> set is. \<exists>t. task_at s key i = Some t"
    "offerTasks w key is (av, as, s) = (av', as', s')" "P as s"
  shows "P as' s'"
  using assms(2-)
proof (induction "is" arbitrary: av as s)
  case (Cons i rest)
  obtain ts where ts: "fmlookup (sets s) key = Some ts" "\<not> fs_terminal ts" "i < length (fs_tasks ts)"
    using Cons.prems by (auto simp: set_terminal_def task_at_def split: option.splits if_splits)
  show ?case
  proof (cases "0 < av \<and> lt_state (fs_tasks ts ! i) = TaskPending")
    case False
    with Cons ts show ?thesis by (auto split: if_splits)
  next
    case True
    let ?s = "assigned w key ts i s" and ?as = "as @ [fst (assignTask w key ts i s)]"
    have one: "offerTasks w key [i] (av, as, s) = (av - 1, ?as, ?s)" using True ts by (simp split: prod.split)
    have "fifo_inv ?s \<and> offer_room w (av - 1) ?s \<and> set_terminal ?s = set_terminal s"
      by (rule offerTasks_inv [OF Cons.prems(1-3) _ one]) (use Cons.prems(4) in simp)
    moreover have "\<forall>j \<in> set rest. \<exists>t. task_at ?s key j = Some t" using Cons.prems(4) by (auto simp: upd_simps)
    moreover have "offerTasks w key rest (av - 1, ?as, ?s) = (av', as', s')"
      using Cons.prems(5) True ts by (simp split: prod.splits)
    ultimately show ?thesis
      using Cons.IH [of ?s "av - 1" ?as] Cons.prems(3) assign [OF Cons.prems(1,6)] by simp
  qed
qed auto

lemma offerSets_keeps:
  assumes assign: "\<And>as s key ts i. fifo_inv s \<Longrightarrow> P as s \<Longrightarrow> P (as @ [fst (assignTask w key ts i s)]) (assigned w key ts i s)"
    and ended: "\<And>as s key e. P as s \<Longrightarrow> P as (finish key e s)"
    and "fifo_inv s" "offer_room w av s" "offerSets env w ks (av, as, s) = (av', as', s')" "P as s"
  shows "P as' s'"
  using assms(3-)
proof (induction ks arbitrary: av as s)
  case (Cons key rest)
  show ?case
  proof (cases "fmlookup (sets s) key")
    case (Some ts)
    consider (t) "fs_terminal ts" | (c) e where "\<not> fs_terminal ts" "env (fs_ctx ts) = Some e"
      | (r) "\<not> fs_terminal ts" "env (fs_ctx ts) = None" by fastforce
    then show ?thesis
    proof cases
      case c
      let ?s = "finish key (Some (ErrContext e)) s"
      have "offer_room w av ?s" using Cons.prems(2) by (simp add: offer_room_def upd_simps)
      then show ?thesis using Cons.IH [of ?s av as] Cons.prems c Some ended by (simp add: fifo_inv_finish)
    next
      case r
      obtain av1 as1 s1 where o: "offerTasks w key [0..<length (fs_tasks ts)] (av, as, s) = (av1, as1, s1)"
        by (metis prod_cases3)
      have k: "\<not> set_terminal s key" "\<forall>i \<in> set [0..<length (fs_tasks ts)]. \<exists>t. task_at s key i = Some t"
        using r Some by (simp_all add: set_terminal_def task_at_def)
      have "P as1 s1" by (rule offerTasks_keeps [OF assign Cons.prems(1,2) k o Cons.prems(4)])
      then show ?thesis using Cons.IH [of s1 av1 as1] Cons.prems(3) offerTasks_inv [OF Cons.prems(1,2) k o] r Some o by simp
    qed (use Cons Some in simp)
  qed (use Cons in simp)
qed simp

lemma OfferResources_keeps:
  assumes "\<And>as s key ts i. fifo_inv s \<Longrightarrow> P as s \<Longrightarrow> P (as @ [fst (assignTask w key ts i s)]) (assigned w key ts i s)"
    and "\<And>as s key e. P as s \<Longrightarrow> P as (finish key e s)"
    and "\<And>as s f. P as s \<Longrightarrow> P as (upd_worker w f s)" "\<And>as s. P as s \<Longrightarrow> P as (compactQueue s)"
    and "fifo_inv s" "unat (nextAttempt s) + nat free < 2 ^ 64" "P [] s"
  shows "P (case_sum (\<lambda>_. []) (\<lambda>as. as) (fst (OfferResources env now w free running s)))
           (snd (OfferResources env now w free running s))"
proof (cases "fmlookup (registry s) w")
  case (Some ws)
  let ?f = "\<lambda>w :: workerState. w\<lparr>ws_ReportedFreeSlots := free, ws_RunningAttemptIDs := running, ws_LastHeartbeat := now\<rparr>"
  have s1: "fifo_inv (upd_worker w ?f s)"
    using assms(5) by (auto simp: fifo_inv_def inv_sets_def upd_simps intro!: base_inv_upd_worker)
  have room: "offer_room w (available_slots ws free seen) (upd_worker w ?f s)" for seen
    by (rule available_slots_room [OF assms(5) Some assms(6)]) simp_all
  have "P [] (upd_worker w ?f s)" using assms(3,7) by blast
  then show ?thesis
    using offerSets_keeps [where P = P, OF assms(1,2) s1 room] Some assms(4,7)
    by (auto simp: OfferResources_def Let_def split: sum.split prod.split)
qed (use assms(7) in \<open>simp add: OfferResources_def\<close>)

lemma grows_offer:
  assumes "fifo_inv s" "unat (nextAttempt s) + nat free < 2 ^ 64"
  shows "grows s (snd (OfferResources env now w free running s))"
proof -
  have "grows s (assigned w key ts i t)" if "fifo_inv t" "grows s t" for key ts i t
    using that grows_trans grows_assign [of t] by (auto simp: fifo_inv_def base_inv_def)
  then show ?thesis
    by (rule OfferResources_keeps [where P = "\<lambda>_. grows s", OF _ _ _ _ assms]) (simp_all add: grows_intros)
qed

lemma grows_admit: "grows s (snd (ScheduleTaskSet_admit env c input n s))"
  by (auto simp: ScheduleTaskSet_admit_def grows_def same_attempt_def same_set_def fmdom_notD
      split: sum.split option.split)

lemma grows_register: "grows s (snd (RegisterWorker w slots now s))"
  using register_InrD [of "registry s" w slots now]
  by (auto simp: RegisterWorker_def grows_def same_attempt_def same_set_def split: sum.split)

lemma grows_wait:
  "grows s (snd (snd (ScheduleTaskSet_drain env key s)))"
  "ScheduleTaskSet_await env p key s = Some s' \<Longrightarrow> grows s s'"
  "grows s (Close s)"
proof -
  have sub: "grows s t \<Longrightarrow> grows s (t\<lparr>submissions := m\<rparr>)" for t m
    by (erule grows_trans) (simp add: grows_def same_attempt_def same_set_def)
  show "grows s (snd (snd (ScheduleTaskSet_drain env key s)))"
    unfolding ScheduleTaskSet_drain_def Let_def
    by (auto split: option.split intro!: sub grows_upd_set grows_finish simp: same_set_def)
  show "ScheduleTaskSet_await env p key s = Some s' \<Longrightarrow> grows s s'"
    unfolding ScheduleTaskSet_await_def
    by (auto split: option.splits if_splits intro!: grows_upd_set simp: same_set_def)
  show "grows s (Close s)"
    by (auto simp: Close_def grows_def same_attempt_def same_set_def)
qed

lemma grows_step: "fifo_ok s \<Longrightarrow> fifo_step s s' \<Longrightarrow> grows s s'"
  by (erule fifo_stepE)
    (auto simp: ReportSuccess_def ReportFailure_def fifo_ok_def split: sum.split option.split
      intro: grows_register grows_admit grows_wait grows_offer grows_expire grows_succeed grows_fail)

lemma grows_run: "fifo_step\<^sup>*\<^sup>* s s' \<Longrightarrow> fifo_ok s \<Longrightarrow> grows s s'"
proof (induction rule: rtranclp_induct)
  case (step t u)
  then show ?case using fifo.rtranclp_inv grows_step grows_trans by blast
qed simp

section \<open>Reports\<close>

type_synonym report_id = "JobID \<times> StageID \<times> TaskAttemptIdentity \<times> PartitionID \<times> WorkerID"

definition success_id :: "TaskAttemptSuccess \<Rightarrow> report_id" where
  "success_id r = (ts_JobID r, ts_StageID r, ts_Attempt r, ts_PartitionID r, ts_WorkerID r)"

definition failure_id :: "TaskAttemptFailure \<Rightarrow> report_id" where
  "failure_id r = (tf_JobID r, tf_StageID r, tf_Attempt r, tf_PartitionID r, tf_WorkerID r)"

text \<open>The scheduler has assigned exactly the attempt that a report names.\<close>

definition recorded :: "FIFO \<Rightarrow> report_id \<Rightarrow> assignedAttempt \<Rightarrow> bool" where
  "recorded s = (\<lambda>(job, stage, identity, p, w) att.
     fmlookup (attempts s) (tai_ID identity) = Some att \<and> w |\<in>| fmdom (registry s) \<and>
     as_JobID (aa_assignment att) = job \<and> as_StageID (aa_assignment att) = stage \<and> aa_identity att = identity \<and>
     task_PartitionID (aa_Task att) = p \<and> aa_worker att = w)"

lemma validateReport_Inr:
  assumes "fifo_ok s"
  shows "validateReport j st identity p w s = Inr x \<longleftrightarrow>
    \<not> closed s \<and> (\<exists>att. recorded s (j, st, identity, p, w) att \<and> x = (if aa_terminal att then None else Some att))"
proof -
  have act: "map_option lt_active (task_at s (aa_set att) (aa_task att)) = Some (tai_ID identity)"
    if "fmlookup (attempts s) (tai_ID identity) = Some att" "\<not> aa_terminal att" for att
    using assms that inv_coreD(1) [of s _ att] by (auto simp: fifo_ok_def fifo_inv_def base_inv_def attempt_ok_def)
  show ?thesis
  proof (cases "fmlookup (attempts s) (tai_ID identity)")
    case (Some att)
    then show ?thesis using act [OF Some]
      by (cases "aa_terminal att") (auto simp: validateReport_def recorded_def Let_def)
  qed (auto simp: validateReport_def recorded_def)
qed

lemma recorded_grows:
  assumes "grows s s'" "recorded s x att"
  shows "\<exists>att'. recorded s' x att' \<and> (aa_terminal att \<longrightarrow> aa_terminal att')"
proof -
  obtain j st identity p w where x: "x = (j, st, identity, p, w)" by (metis prod_cases5)
  then have "fmlookup (attempts s) (tai_ID identity) = Some att" using assms(2) by (simp add: recorded_def)
  then obtain att' where a: "fmlookup (attempts s') (tai_ID identity) = Some att'" "same_attempt att att'"
    using assms(1) unfolding grows_def by blast
  moreover have "w |\<in>| fmdom (registry s')" using assms x unfolding grows_def recorded_def by auto
  ultimately have "recorded s' x att'" using assms(2) x by (simp add: recorded_def same_attempt_def)
  moreover have "aa_terminal att \<longrightarrow> aa_terminal att'" using a(2) by (simp add: same_attempt_def)
  ultimately show ?thesis by blast
qed

definition settled :: "FIFO \<Rightarrow> report_id \<Rightarrow> bool" where
  "settled s x \<longleftrightarrow> (\<exists>att. recorded s x att \<and> aa_terminal att)"

lemma settled_grows: "settled s x \<Longrightarrow> grows s s' \<Longrightarrow> settled s' x"
  unfolding settled_def using recorded_grows by blast

lemma settled_noop:
  assumes "fifo_ok s" "settled s x" "\<not> closed s"
  shows "success_id r = x \<Longrightarrow> ReportSuccess env r s = (None, s)"
    and "failure_id f = x \<Longrightarrow> tf_Error f \<noteq> Text [] \<Longrightarrow> ReportFailure env f s = (None, s)"
proof -
  have "validateReport j st identity p w s = Inr None" if "x = (j, st, identity, p, w)" for j st identity p w
    using assms that by (auto simp: validateReport_Inr settled_def)
  then show "success_id r = x \<Longrightarrow> ReportSuccess env r s = (None, s)"
    "failure_id f = x \<Longrightarrow> tf_Error f \<noteq> Text [] \<Longrightarrow> ReportFailure env f s = (None, s)"
    by (auto simp: ReportSuccess_def ReportFailure_def success_id_def failure_id_def)
qed

lemma recorded_release:
  assumes "recorded s x att" "attempts s' = attempts (release att st s)" "registry s' = registry (release att st s)"
  shows "settled s' x"
proof -
  obtain j stg identity p w where x: "x = (j, stg, identity, p, w)" by (metis prod_cases5)
  let ?att = "att\<lparr>aa_terminal := True,
    aa_assignment := (aa_assignment att)\<lparr>as_Attempt := (as_Attempt (aa_assignment att))\<lparr>ta_State := st\<rparr>\<rparr>\<rparr>"
  have rec: "fmlookup (attempts s) (tai_ID identity) = Some att" "aa_identity att = identity" "w |\<in>| fmdom (registry s)"
    using assms(1) x unfolding recorded_def by simp_all
  then have "fmlookup (attempts s') (tai_ID identity) = Some ?att" "w |\<in>| fmdom (registry s')"
    unfolding assms(2,3) release_lookups by simp_all
  then have "recorded s' x ?att" using assms(1) x unfolding recorded_def by simp
  then show ?thesis unfolding settled_def by (intro exI [of _ ?att]) simp
qed

lemma accepted_settles:
  assumes "fifo_ok s"
  shows "ReportSuccess env r s = (None, s1) \<Longrightarrow> settled s1 (success_id r)"
    and "ReportFailure env f s = (None, s1) \<Longrightarrow> settled s1 (failure_id f)"
proof -
  assume r: "ReportSuccess env r s = (None, s1)"
  then obtain x where v: "validateReport (ts_JobID r) (ts_StageID r) (ts_Attempt r) (ts_PartitionID r) (ts_WorkerID r) s = Inr x"
    by (auto simp: ReportSuccess_def split: sum.splits)
  then obtain att where att: "recorded s (success_id r) att" "x = (if aa_terminal att then None else Some att)"
    using validateReport_Inr [OF assms] by (auto simp: success_id_def)
  show "settled s1 (success_id r)"
  proof (cases "aa_terminal att")
    case False
    with r v att(2) have "s1 = succeedAttempt env att r s" by (auto simp: ReportSuccess_def split: option.splits)
    then show ?thesis using recorded_release [OF att(1) succeedAttempt_fields(1,2)] by simp
  qed (use r v att in \<open>auto simp: ReportSuccess_def settled_def\<close>)
next
  assume r: "ReportFailure env f s = (None, s1)"
  then obtain x where v: "validateReport (tf_JobID f) (tf_StageID f) (tf_Attempt f) (tf_PartitionID f) (tf_WorkerID f) s = Inr x"
    by (auto simp: ReportFailure_def split: sum.splits if_splits)
  then obtain att where att: "recorded s (failure_id f) att" "x = (if aa_terminal att then None else Some att)"
    using validateReport_Inr [OF assms] by (auto simp: failure_id_def)
  show "settled s1 (failure_id f)"
  proof (cases "aa_terminal att")
    case False
    with r v att(2) have "s1 = failAttempt env att f s" by (auto simp: ReportFailure_def split: option.splits if_splits)
    then show ?thesis using recorded_release [OF att(1) failAttempt_fields(1,2)] by simp
  qed (use r v att in \<open>auto simp: ReportFailure_def settled_def split: if_splits\<close>)
qed

text \<open>
  C16: A report takes effect at most once. After any success or failure report for an attempt has
  been accepted, every later report for the same attempt, of either kind, with any payload and
  after any further steps of a scheduler that is not closed, is accepted without an error and
  changes nothing.
\<close>
theorem reports_take_effect_once:
  assumes "reach fifo_init fifo_step s"
    and "(\<exists>env r. ReportSuccess env r s = (None, s1) \<and> success_id r = x) \<or>
         (\<exists>env f. ReportFailure env f s = (None, s1) \<and> failure_id f = x)"
    and "fifo_step\<^sup>*\<^sup>* s1 s2" "\<not> closed s2"
  shows "(\<forall>env r. success_id r = x \<longrightarrow> ReportSuccess env r s2 = (None, s2)) \<and>
    (\<forall>env f. failure_id f = x \<and> tf_Error f \<noteq> Text [] \<longrightarrow> ReportFailure env f s2 = (None, s2))"
proof -
  note ok = fifo.reach_inv [OF assms(1)]
  have "settled s1 x" using assms(2) accepted_settles [OF ok] by blast
  moreover have ok1: "fifo_ok s1"
    using assms(2) fifo_ok_success [OF ok] fifo_ok_failure [OF ok] by (metis snd_conv)
  ultimately have "settled s2 x" using grows_run [OF assms(3)] settled_grows by blast
  moreover have "fifo_ok s2" using fifo.rtranclp_inv [OF assms(3) ok1] .
  ultimately show ?thesis using settled_noop assms(4) by blast
qed

theorem reports_take_effect_once_witness:
  "\<exists>s1. ReportSuccess (\<lambda>_. None) ex_success ex_s3 = (None, s1) \<and> s1 \<noteq> ex_s3 \<and>
     ReportSuccess (\<lambda>_. None) ex_success s1 = (None, s1)"
proof -
  let ?r = "ReportSuccess (\<lambda>_. None) ex_success ex_s3"
  have "fst ?r = None" "\<not> closed (snd ?r)" "w_reserved (the (fmlookup (registry (snd ?r)) ''w1'')) = {||}"
    "w_reserved (the (fmlookup (registry ex_s3) ''w1'')) = {|0|}" by code_simp+
  then obtain s1 where s1: "?r = (None, s1)" "\<not> closed s1" "s1 \<noteq> ex_s3" by (cases ?r) auto
  then show ?thesis using reports_take_effect_once [OF ex_reach(2), of s1 "success_id ex_success" s1] by blast
qed

text \<open>What a state looks like around a live attempt of a live set.\<close>

definition in_flight :: "ctx_env \<Rightarrow> FIFO \<Rightarrow> report_id \<Rightarrow> assignedAttempt \<Rightarrow> fifoTaskSet \<Rightarrow> bool" where
  "in_flight env s x att ts \<longleftrightarrow>
     \<not> closed s \<and> recorded s x att \<and> \<not> aa_terminal att \<and> fmlookup (sets s) (aa_set att) = Some ts \<and>
     \<not> fs_terminal ts \<and> env (fs_ctx ts) = None"

lemma in_flight_facts:
  assumes "reach fifo_init fifo_step s" "in_flight env s x att ts"
  shows "aa_task att < length (fs_tasks ts)" "lt_state (fs_tasks ts ! aa_task att) = TaskRunning" "set_ok ts"
    "aa_Task att = lt_task (fs_tasks ts ! aa_task att)" "tai_ID (aa_identity att) = tai_ID (fst (snd (snd x)))"
    "fmlookup (attempts s) (tai_ID (aa_identity att)) = Some att"
proof -
  obtain j stg identity p w where x: "x = (j, stg, identity, p, w)" by (metis prod_cases5)
  have inv: "fifo_inv s" "inv_assign s" using fifo.reach_inv [OF assms(1)]
    by (simp_all add: fifo_ok_def fifo_inv_def base_inv_def)
  have a: "fmlookup (attempts s) (tai_ID identity) = Some att" "aa_identity att = identity"
    using assms(2) x unfolding in_flight_def recorded_def by simp_all
  then show "tai_ID (aa_identity att) = tai_ID (fst (snd (snd x)))"
    "fmlookup (attempts s) (tai_ID (aa_identity att)) = Some att" using x by simp_all
  have ts: "fmlookup (sets s) (aa_set att) = Some ts" "\<not> aa_terminal att" using assms(2) by (simp_all add: in_flight_def)
  from live_attempt [OF inv(1) a(1) ts(2)] ts(1)
  show "aa_task att < length (fs_tasks ts)" "lt_state (fs_tasks ts ! aa_task att) = TaskRunning" "set_ok ts"
    by (metis option.inject)+
  have "assignment_ok s att" using inv(2) a(1) by (simp add: inv_assign_def)
  with ts show "aa_Task att = lt_task (fs_tasks ts ! aa_task att)"
    unfolding assignment_ok_def by auto
qed

lemma te_Task_execution: "te_Task (attempt_execution a) = ta_Task (as_Attempt a)"
  by (simp add: attempt_execution_def)

text \<open>
  C25: What an accepted success does. When the named attempt is live in a live task set whose context
  has not ended, and the output is what the task must produce, the report is accepted: the task has succeeded with that output, one task less remains
  and one report more waits for the observer, the set ends without error exactly when it was the
  last task, its submission is woken, the worker gets the slot back, and no other task, set or
  worker changes.
\<close>
theorem ReportSuccess_effect:
  assumes "reach fifo_init fifo_step s" "in_flight env s (success_id r) att ts"
    and out: "task_StageKind (aa_Task att) = StageShuffleMap \<and> map_output_for (attempt_execution (aa_assignment att)) (ts_Output r) \<or>
         task_StageKind (aa_Task att) = StageResult \<and> action_output_for (attempt_execution (aa_assignment att)) (ts_Output r)"
  defines "s' \<equiv> snd (ReportSuccess env r s)"
    and "key \<equiv> aa_set att" and "i \<equiv> aa_task att"
  shows "fst (ReportSuccess env r s) = None \<and>
    (\<exists>ts' t'. fmlookup (sets s') key = Some ts' \<and> fs_tasks ts' = (fs_tasks ts)[i := t'] \<and>
       lt_state t' = TaskSucceeded \<and> lt_output t' = ts_Output r \<and> lt_task t' = lt_task (fs_tasks ts ! i) \<and>
       fs_remaining ts' = fs_remaining ts - 1 \<and>
       (\<exists>rep. fs_reports ts' = fs_reports ts @ [rep] \<and> tr_success rep = Some r) \<and>
       (fs_terminal ts' \<longleftrightarrow> fs_remaining ts = 1) \<and> fs_err ts' = None \<and> fs_wake ts') \<and>
    (\<forall>k. k \<noteq> key \<longrightarrow> fmlookup (sets s') k = fmlookup (sets s) k) \<and>
    (\<forall>w b. live_on s' w b \<longleftrightarrow> b \<noteq> tai_ID (ts_Attempt r) \<and> live_on s w b)"
proof -
  note f = in_flight_facts [OF assms(1,2)]
  have ok: "fifo_ok s" by (rule fifo.reach_inv [OF assms(1)])
  have ts: "fmlookup (sets s) key = Some ts" "\<not> fs_terminal ts" "env (fs_ctx ts) = None" "\<not> aa_terminal att" "\<not> closed s"
    and rec: "recorded s (success_id r) att" using assms(2) by (simp_all add: in_flight_def key_def)
  have "validateReport (ts_JobID r) (ts_StageID r) (ts_Attempt r) (ts_PartitionID r) (ts_WorkerID r) s = Inr (Some att)"
    using validateReport_Inr [OF ok] rec ts by (auto simp: success_id_def)
  moreover have "ValidateFor (ts_Output r) (attempt_execution (aa_assignment att)) = None"
    using out ValidateFor_map [of "attempt_execution (aa_assignment att)"]
      ValidateFor_result [of "attempt_execution (aa_assignment att)"]
    unfolding te_Task_execution by blast
  ultimately have run: "ReportSuccess env r s = (None, succeedAttempt env att r s)" by (simp add: ReportSuccess_def)
  let ?t = "(fs_tasks ts ! i)\<lparr>lt_state := TaskSucceeded, lt_output := ts_Output r\<rparr>"
  let ?rep = "\<lparr>tr_success = Some r, tr_failure = None, tr_requeued = False, tr_exhausted = False, tr_attempts = 0\<rparr>"
  have set': "fmlookup (sets s') key = Some (ts\<lparr>fs_tasks := (fs_tasks ts)[i := ?t], fs_remaining := fs_remaining ts - 1,
      fs_reports := fs_reports ts @ [?rep], fs_wake := True, fs_terminal := (fs_remaining ts - 1 = 0)\<rparr>)"
    using ts f(1,3) unfolding s'_def run key_def i_def
    by (simp add: succeedAttempt_def Let_def upd_simps set_terminal_def set_ctx_err_def set_ok_def)
  have "fs_err ts = None" using f(3) ts(2) by (simp add: set_ok_def)
  moreover have "\<forall>k. k \<noteq> key \<longrightarrow> fmlookup (sets s') k = fmlookup (sets s) k"
    by (auto simp: s'_def run key_def succeedAttempt_def Let_def upd_simps split: option.splits)
  moreover have "live_on s' w b \<longleftrightarrow> b \<noteq> tai_ID (ts_Attempt r) \<and> live_on s w b" for w b
  proof -
    have "tai_ID (aa_identity att) = tai_ID (ts_Attempt r)" using f(5) by (simp add: success_id_def)
    then show ?thesis unfolding s'_def run live_on_def snd_conv succeedAttempt_fields release_lookups by auto
  qed
  ultimately show ?thesis using set' run by auto
qed

definition ex_failure :: "FailureKind \<Rightarrow> TaskAttemptFailure" where
  "ex_failure kind = \<lparr>tf_Kind = kind, tf_ShuffleInput = None, tf_JobID = 7, tf_StageID = 0,
     tf_Attempt = \<lparr>tai_ID = 0, tai_TaskID = 0, tai_StageAttemptID = 3\<rparr>,
     tf_PartitionID = 0, tf_WorkerID = ''w1'', tf_Error = Text ''boom''\<rparr>"

definition ex_id :: report_id where
  "ex_id = (7, 0, \<lparr>tai_ID = 0, tai_TaskID = 0, tai_StageAttemptID = 3\<rparr>, 0, ''w1'')"

lemma ex_success_id: "success_id ex_success = ex_id" "failure_id (ex_failure kind) = ex_id"
  by (simp_all add: success_id_def failure_id_def ex_id_def ex_success_def ex_failure_def)

lemma ex_in_flight:
  "\<exists>att ts. in_flight (\<lambda>_. None) ex_s3 ex_id att ts \<and> fs_remaining ts = 2 \<and> aa_set att = ex_key \<and>
     task_StageKind (aa_Task att) = StageResult \<and> lt_attempts (fs_tasks ts ! aa_task att) < maxTaskAttempts ex_s3 \<and>
     action_output_for (attempt_execution (aa_assignment att)) (ts_Output ex_success)"
proof -
  let ?att = "the (fmlookup (attempts ex_s3) 0)" and ?ts = "the (fmlookup (sets ex_s3) ex_key)"
  have "recorded ex_s3 ex_id ?att" "\<not> closed ex_s3" "\<not> aa_terminal ?att" "aa_set ?att = ex_key"
    "\<not> fs_terminal ?ts" "fs_remaining ?ts = 2" "lt_attempts (fs_tasks ?ts ! aa_task ?att) < maxTaskAttempts ex_s3"
    "task_StageKind (aa_Task ?att) = StageResult" "fmlookup (sets ex_s3) ex_key \<noteq> None"
    by code_simp+
  moreover have "task_FinalAction (aa_Task ?att) = Some \<lparr>act_Kind = ActionCount, act_TargetRDD = 0\<rparr>" by code_simp
  then have "action_output_for (attempt_execution (aa_assignment ?att)) (ts_Output ex_success)"
    by (simp add: action_output_for_def attempt_execution_def ex_success_def)
  ultimately show ?thesis unfolding in_flight_def by (intro exI [of _ ?att] exI [of _ ?ts]) auto
qed

theorem ReportSuccess_effect_witness:
  "\<exists>ts'. fmlookup (sets (snd (ReportSuccess (\<lambda>_. None) ex_success ex_s3))) ex_key = Some ts' \<and>
     fs_remaining ts' = 1 \<and> \<not> fs_terminal ts' \<and> fs_wake ts'"
proof -
  obtain ts att where flight: "in_flight (\<lambda>_. None) ex_s3 (success_id ex_success) att ts" "fs_remaining ts = 2"
    "aa_set att = ex_key" "task_StageKind (aa_Task att) = StageResult"
    "action_output_for (attempt_execution (aa_assignment att)) (ts_Output ex_success)"
    using ex_in_flight unfolding ex_success_id by blast
  with ReportSuccess_effect [OF ex_reach(2) flight(1)] show ?thesis by auto
qed

text \<open>
  C26: What an accepted failure report does. When the named attempt is live in a live task set whose
  context has not ended, the worker gets the slot back and the failure is kept with the number of attempts
  made. An execution failure or the loss of the worker returns the task to the pending ones while
  attempts are left, without ending the set; every other failure, and the failure of the last
  attempt, ends the set with an error that names the task. Successes of other tasks stay.
\<close>
theorem ReportFailure_effect:
  assumes "reach fifo_init fifo_step s" "in_flight env s (failure_id r) att ts"
    and acc: "ReportFailure env r s = (None, s')"
  defines "key \<equiv> aa_set att" and "i \<equiv> aa_task att"
    and "again \<equiv> (tf_Kind r = FailureExecution \<or> tf_Kind r = FailureWorkerLost) \<and>
           lt_attempts (fs_tasks ts ! aa_task att) < maxTaskAttempts s"
  shows "(\<exists>ts' t' rep. fmlookup (sets s') key = Some ts' \<and> fs_tasks ts' = (fs_tasks ts)[i := t'] \<and>
       lt_state t' = (if again then TaskPending else TaskFailed) \<and> lt_attempts t' = lt_attempts (fs_tasks ts ! i) \<and>
       fs_terminal ts' = (\<not> again) \<and>
       fs_err ts' = (if again then None else Some (TaskSetFailed (tf_StageID r) (tai_TaskID (tf_Attempt r)) (tf_PartitionID r) (tf_Error r))) \<and>
       fs_reports ts' = fs_reports ts @ [rep] \<and> tr_success rep = None \<and> tr_failure rep = Some r \<and> tr_requeued rep = again \<and>
       fs_remaining ts' = fs_remaining ts \<and> fs_wake ts') \<and>
    (\<forall>k. k \<noteq> key \<longrightarrow> fmlookup (sets s') k = fmlookup (sets s) k) \<and>
    (\<forall>w b. live_on s' w b \<longleftrightarrow> b \<noteq> tai_ID (tf_Attempt r) \<and> live_on s w b)"
proof -
  note f = in_flight_facts [OF assms(1,2)]
  have "validateReport (tf_JobID r) (tf_StageID r) (tf_Attempt r) (tf_PartitionID r) (tf_WorkerID r) s = Inr (Some att)"
    using validateReport_Inr [OF fifo.reach_inv [OF assms(1)]] assms(2) by (auto simp: failure_id_def in_flight_def)
  then have s': "s' = failAttempt env att r s" using acc
    by (auto simp: ReportFailure_def split: if_splits option.splits)
  have ts: "fmlookup (sets s) key = Some ts" "\<not> fs_terminal ts" "env (fs_ctx ts) = None"
    using assms(2) by (simp_all add: in_flight_def key_def)
  have t: "task_at s key i = Some (fs_tasks ts ! i)" using f(1) ts by (simp add: task_at_def i_def)
  have again: "again \<longleftrightarrow> retryable (tf_Kind r) \<and> lt_attempts (fs_tasks ts ! i) < maxTaskAttempts s"
    by (auto simp: again_def retryable_def i_def)
  let ?t = "(fs_tasks ts ! i)\<lparr>lt_state := if again then TaskPending else TaskFailed\<rparr>"
  let ?rep = "\<lparr>tr_success = None, tr_failure = Some r, tr_requeued = again,
    tr_exhausted = (retryable (tf_Kind r) \<and> \<not> again), tr_attempts = lt_attempts (fs_tasks ts ! i)\<rparr>"
  have set': "fmlookup (sets s') key = Some (ts\<lparr>fs_tasks := (fs_tasks ts)[i := ?t],
      fs_reports := fs_reports ts @ [?rep], fs_wake := True, fs_terminal := \<not> again,
      fs_err := if again then None else Some (TaskSetFailed (tf_StageID r) (tai_TaskID (tf_Attempt r)) (tf_PartitionID r) (tf_Error r))\<rparr>)"
    using ts f(1,3) t unfolding s' again unfolding key_def i_def
    by (auto simp: failAttempt_def Let_def upd_simps set_terminal_def set_ctx_err_def set_ok_def)
  moreover have "\<forall>k. k \<noteq> key \<longrightarrow> fmlookup (sets s') k = fmlookup (sets s) k"
    by (auto simp: s' key_def failAttempt_def Let_def upd_simps split: option.splits)
  moreover have "live_on s' w b \<longleftrightarrow> b \<noteq> tai_ID (tf_Attempt r) \<and> live_on s w b" for w b
  proof -
    have "tai_ID (aa_identity att) = tai_ID (tf_Attempt r)" using f(5) by (simp add: failure_id_def)
    then show ?thesis unfolding s' live_on_def failAttempt_fields release_lookups by auto
  qed
  ultimately show ?thesis by auto
qed

theorem ReportFailure_effect_witness:
  "\<exists>s' ts'. ReportFailure (\<lambda>_. None) (ex_failure FailureExecution) ex_s3 = (None, s') \<and>
     fmlookup (sets s') ex_key = Some ts' \<and> \<not> fs_terminal ts' \<and> fs_remaining ts' = 2"
proof -
  have "fst (ReportFailure (\<lambda>_. None) (ex_failure FailureExecution) ex_s3) = None" by code_simp
  then obtain s' where acc: "ReportFailure (\<lambda>_. None) (ex_failure FailureExecution) ex_s3 = (None, s')"
    by (metis prod.collapse)
  obtain ts att where flight: "in_flight (\<lambda>_. None) ex_s3 (failure_id (ex_failure FailureExecution)) att ts"
    "fs_remaining ts = 2" "aa_set att = ex_key" "lt_attempts (fs_tasks ts ! aa_task att) < maxTaskAttempts ex_s3"
    using ex_in_flight unfolding ex_success_id by blast
  have "tf_Kind (ex_failure FailureExecution) = FailureExecution" by (simp add: ex_failure_def)
  with ReportFailure_effect [OF ex_reach(2) flight(1) acc] flight acc show ?thesis by auto
qed

section \<open>Results of task sets\<close>

lemma drain_result:
  assumes "ScheduleTaskSet_drain env key s = (calls, Some result, s')"
  shows "\<exists>ts. fmlookup (sets s') key = Some ts \<and> fs_terminal ts \<and> fs_err ts = result"
  using assms by (auto simp: ScheduleTaskSet_drain_def Let_def upd_simps split: option.splits if_splits)

text \<open>
  The result that a submission returns is final, in every later state the set has ended with
  that result; and when the result is no error, every task of the set has succeeded.
\<close>
theorem set_result_is_final:
  assumes "reach fifo_init fifo_step s" "ScheduleTaskSet_drain env key s = (calls, Some result, s')"
    and "fifo_step\<^sup>*\<^sup>* s' s2"
  shows "\<exists>ts. fmlookup (sets s2) key = Some ts \<and> fs_terminal ts \<and> fs_err ts = result \<and>
    (result = None \<longrightarrow> (\<forall>t \<in> set (fs_tasks ts). lt_state t = TaskSucceeded))"
proof -
  obtain ts where ts: "fmlookup (sets s') key = Some ts" "fs_terminal ts" "fs_err ts = result"
    using drain_result [OF assms(2)] by blast
  have "fifo_step s s'" using step_drain [of s env key] assms(2) by simp
  then have ok: "fifo_ok s'" using fifo.reach_inv [OF assms(1)] fifo_ok_step by blast
  then have ok2: "fifo_ok s2" using fifo.rtranclp_inv [OF assms(3)] by blast
  obtain ts2 where ts2: "fmlookup (sets s2) key = Some ts2" "same_set ts ts2"
    using grows_run [OF assms(3) ok] ts(1) unfolding grows_def by blast
  have "set_ok ts2" using ok2 ts2(1) by (auto simp: fifo_ok_def fifo_inv_def inv_sets_def)
  with ts ts2 show ?thesis by (auto simp: same_set_def set_ok_def)
qed

definition ex_s4 :: FIFO where
  "ex_s4 = snd (OfferResources (\<lambda>_. None) 6 ''w1'' 1 [] (snd (ReportSuccess (\<lambda>_. None) ex_success ex_s3)))"

definition ex_s5 :: FIFO where
  "ex_s5 = snd (ReportSuccess (\<lambda>_. None)
     (ex_success\<lparr>ts_Attempt := \<lparr>tai_ID = 1, tai_TaskID = 1, tai_StageAttemptID = 3\<rparr>, ts_PartitionID := 1\<rparr>) ex_s4)"

lemma ex_reach5: "reach fifo_init fifo_step ex_s5"
proof -
  have r: "reach fifo_init fifo_step (snd (ReportSuccess (\<lambda>_. None) ex_success ex_s3))"
    by (rule reach_fifo [OF ex_reach(2) step_success])
  have "nextAttempt (snd (ReportSuccess (\<lambda>_. None) ex_success ex_s3)) = 1" by code_simp
  then have "unat (nextAttempt (snd (ReportSuccess (\<lambda>_. None) ex_success ex_s3))) + nat 1 < 2 ^ 64" by simp
  then have "reach fifo_init fifo_step ex_s4" unfolding ex_s4_def by (rule reach_fifo [OF r step_offer])
  then show ?thesis unfolding ex_s5_def by (rule reach_fifo [OF _ step_success])
qed

theorem set_result_is_final_witness:
  "\<exists>calls s'. ScheduleTaskSet_drain (\<lambda>_. None) ex_key ex_s5 = (calls, Some None, s') \<and> length calls = 2 \<and>
     (\<exists>ts. fmlookup (sets (Close s')) ex_key = Some ts \<and> fs_err ts = None)"
proof -
  let ?d = "ScheduleTaskSet_drain (\<lambda>_. None) ex_key ex_s5"
  have "length (fst ?d) = 2" "fst (snd ?d) = Some None" by code_simp+
  then obtain calls s' where d: "?d = (calls, Some None, s')" "length calls = 2" by (metis prod.collapse)
  have "fifo_step\<^sup>*\<^sup>* s' (Close s')" by (rule r_into_rtranclp [of fifo_step, OF step_close])
  from set_result_is_final [OF ex_reach5 d(1) this] d show ?thesis by blast
qed

section \<open>Expiry\<close>

lemma lose_all_closed: "closed (lose_all env now timeout s) = closed s"
proof -
  have "closed (fold (loseWorker env) L s) = closed s" for L
    by (induction L arbitrary: s) (simp_all add: loseWorker_def upd_simps split: option.split)
  then show ?thesis by (simp add: lose_all_def)
qed

text \<open>
  C27: Expiry. The workers it reports are, in ascending order, exactly the living ones that have been
  silent for at least the timeout. Each of them is lost: it holds no slot, none of its attempts is
  live, and registration and offers under its identifier are refused. No other worker and no attempt
  on another worker changes.
\<close>
theorem ExpireWorkers_fences:
  assumes "reach fifo_init fifo_step s" "ExpireWorkers env now timeout s = (Inr lost, s')"
  shows "sorted lost \<and> distinct lost \<and>
    (\<forall>w. w \<in> set lost \<longleftrightarrow> (\<exists>ws. fmlookup (registry s) w = Some ws \<and> ws_Status ws = WorkerAlive \<and>
        timeout \<le> time_Sub now (ws_LastHeartbeat ws))) \<and>
    (\<forall>w \<in> set lost. (\<exists>ws. fmlookup (registry s') w = Some ws \<and> ws_Status ws = WorkerLost \<and> w_reserved ws = {||}) \<and>
        (\<forall>a. \<not> live_on s' w a) \<and>
        (\<forall>slots t. fst (RegisterWorker w slots t s') \<noteq> None) \<and>
        (\<forall>env t free running. fst (OfferResources env t w free running s') = Inl (ErrWorker (ErrWorkerLost w)))) \<and>
    (\<forall>w. w \<notin> set lost \<longrightarrow> fmlookup (registry s') w = fmlookup (registry s) w \<and> (\<forall>a. live_on s' w a \<longleftrightarrow> live_on s w a))"
proof -
  have ok: "fifo_inv s" using fifo.reach_inv [OF assms(1)] by (simp add: fifo_ok_def)
  have g: "0 < timeout" "\<not> closed s" using assms(2) by (auto simp: ExpireWorkers_def split: if_splits)
  let ?L = "lost_workers now timeout s" and ?s = "lose_all env now timeout s"
  have res: "lost = sorted_list_of_fset ?L" "s' = compactQueue ?s"
    using assms(2) ExpireWorkers_unfold [OF g] by auto
  have set: "set lost = fset ?L" unfolding res by (simp add: sorted_list_of_fset.rep_eq)
  note f = expire_facts [OF ok, of env now timeout]
  have live: "live_on s' v b \<longleftrightarrow> v \<notin> set lost \<and> live_on s v b" for v b
    using f by (simp add: res set live_on_def upd_simps)
  have inv: "fifo_inv s'" using f fifo_inv_compact by (simp add: res)
  have shr: "shrinks (set lost) s s'" using f unfolding set by (simp add: res shrinks_def upd_simps)
  have closed: "\<not> closed s'" using g by (simp add: res upd_simps lose_all_closed)
  have iff: "w \<in> set lost \<longleftrightarrow> (\<exists>ws. fmlookup (registry s) w = Some ws \<and> ws_Status ws = WorkerAlive \<and>
      timeout \<le> time_Sub now (ws_LastHeartbeat ws))" for w
    unfolding set by (auto simp: lost_workers_iff expired_def)
  have look: "\<exists>ws r. fmlookup (registry s) w = Some ws \<and> fmlookup (registry s') w = Some ((lose_if (set lost) w ws)\<lparr>w_reserved := r\<rparr>)"
    if "w |\<in>| fmdom (registry s)" for w
  proof -
    have "w |\<in>| fmdom (registry s')" using shr that by (simp add: shrinks_def)
    then obtain ws' where "fmlookup (registry s') w = Some ws'" by (auto simp: fmlookup_dom_iff)
    with shr show ?thesis unfolding shrinks_def by blast
  qed
  have lost: "\<exists>ws. fmlookup (registry s') w = Some ws \<and> ws_Status ws = WorkerLost \<and> w_reserved ws = {||}"
    if w: "w \<in> set lost" for w
  proof -
    have "w |\<in>| fmdom (registry s)" using w iff by (auto simp: fmlookup_dom_iff)
    with look [of w] w obtain ws' where ws': "fmlookup (registry s') w = Some ws'" "ws_Status ws' = WorkerLost" by auto
    with reserved_live [OF inv ws'(1)] live w have "w_reserved ws' = {||}" by auto
    with ws' show ?thesis by blast
  qed
  have refused: "fst (RegisterWorker w slots t s') \<noteq> None"
    "fst (OfferResources env' t w free running s') = Inl (ErrWorker (ErrWorkerLost w))"
    if "w \<in> set lost" for w slots t env' free running
    using lost [OF that] closed by (auto simp: RegisterWorker_def register_def OfferResources_def)
  have other: "fmlookup (registry s') w = fmlookup (registry s) w" if "w \<notin> set lost" for w
  proof (cases "w |\<in>| fmdom (registry s)")
    case True
    with look [of w] that obtain ws r where ws: "fmlookup (registry s) w = Some ws"
      "fmlookup (registry s') w = Some (ws\<lparr>w_reserved := r\<rparr>)" by (auto simp: lose_if_def)
    have "r = w_reserved ws" using reserved_live [OF inv ws(2)] reserved_live [OF ok ws(1)] live that by auto
    with ws show ?thesis by simp
  next
    case False
    moreover have "w |\<notin>| fmdom (registry s')" using shr False by (simp add: shrinks_def)
    ultimately show ?thesis by (simp add: fmdom_notD)
  qed
  have "sorted lost" "distinct lost" unfolding res by (simp_all add: sorted_list_of_fset.rep_eq)
  then show ?thesis using iff lost refused other live by blast
qed

theorem ExpireWorkers_fences_witness:
  "\<exists>s'. ExpireWorkers (\<lambda>_ _. None) 100 10 ex_s3 = (Inr [''w1''], s') \<and>
     fst (RegisterWorker ''w1'' 1 101 s') \<noteq> None"
proof -
  let ?e = "ExpireWorkers (\<lambda>_ _. None) 100 10 ex_s3"
  have "fst ?e = Inr [''w1'']" by code_simp
  then obtain s' where e: "?e = (Inr [''w1''], s')" by (metis prod.collapse)
  from ExpireWorkers_fences [OF ex_reach(2) e] e show ?thesis by auto
qed

section \<open>Waking\<close>

text \<open>Steps that the goroutine waiting in \<open>ScheduleTaskSet\<close> for \<open>key\<close> does not take itself.\<close>

inductive other_step :: "taskSetKey \<Rightarrow> FIFO \<Rightarrow> FIFO \<Rightarrow> bool" for key :: taskSetKey where
  other_register: "other_step key s (snd (RegisterWorker w slots now s))"
| other_admit: "other_step key s (snd (ScheduleTaskSet_admit env c input observerNil s))"
| other_drain: "k \<noteq> key \<Longrightarrow> other_step key s (snd (snd (ScheduleTaskSet_drain env k s)))"
| other_await: "k \<noteq> key \<Longrightarrow> ScheduleTaskSet_await env pick k s = Some s' \<Longrightarrow> other_step key s s'"
| other_offer: "other_step key s (snd (OfferResources env now w free running s))"
| other_success: "other_step key s (snd (ReportSuccess env success s))"
| other_failure: "other_step key s (snd (ReportFailure env failure s))"
| other_expire: "other_step key s (snd (ExpireWorkers envs now timeout s))"
| other_close: "other_step key s (Close s)"

inductive_cases other_stepE: "other_step key s s'"

definition signalled :: "taskSetKey \<Rightarrow> FIFO \<Rightarrow> bool" where
  "signalled key s \<longleftrightarrow>
     (case fmlookup (sets s) key of
        None \<Rightarrow> False
      | Some ts \<Rightarrow> fs_reports ts \<noteq> [] \<or> fs_terminal ts \<longrightarrow> fs_wake ts)"

named_theorems signal_intros \<open>steps that leave no report or end without a signal\<close>

lemma signalled_finish [signal_intros]: "signalled key s \<Longrightarrow> signalled key (finish k e s)"
  by (auto simp: signalled_def upd_simps split: option.splits)

lemma signalled_notify [signal_intros]:
  "fmlookup (sets s) key \<noteq> None \<Longrightarrow> k = key \<or> signalled key s \<Longrightarrow> signalled key (notify k s)"
  by (auto simp: signalled_def upd_simps split: option.splits)

lemma signalled_cong: "sets s' = sets s \<Longrightarrow> signalled key s \<Longrightarrow> signalled key s'"
  by (simp add: signalled_def)

lemma signalled_upd [signal_intros]:
  "signalled key s \<Longrightarrow> signalled key (upd_worker w f s)" "signalled key s \<Longrightarrow> signalled key (compactQueue s)"
  "signalled key s \<Longrightarrow> signalled key (upd_task k i g s)" "signalled key s \<Longrightarrow> signalled key (release att st s)"
  "signalled key s \<Longrightarrow> signalled key (assigned w k ts i s)"
  by (auto simp: signalled_def upd_simps split: option.splits)

lemma signalled_other_set: "k \<noteq> key \<Longrightarrow> signalled key s \<Longrightarrow> signalled key (upd_set k f s)"
  by (auto simp: signalled_def upd_simps split: option.splits)

lemma signalled_succeed [signal_intros]:
  assumes "signalled key s"
  shows "signalled key (succeedAttempt env att r s)"
  using assms by (auto simp: succeedAttempt_def Let_def signalled_def upd_simps split: option.splits)

lemma signalled_fail [signal_intros]:
  assumes "signalled key s"
  shows "signalled key (failAttempt env att r s)"
  using assms by (auto simp: failAttempt_def Let_def signalled_def upd_simps split: option.splits)

lemma signalled_offerTasks:
  "signalled key s \<Longrightarrow> offerTasks w k is (av, as, s) = (av', as', s') \<Longrightarrow> signalled key s'"
proof (induction "is" arbitrary: av as s)
  case (Cons i rest)
  show ?case
  proof (cases "0 < av \<and> (\<exists>ts. fmlookup (sets s) k = Some ts \<and> lt_state (fs_tasks ts ! i) = TaskPending)")
    case True
    then obtain ts where ts: "fmlookup (sets s) k = Some ts" "lt_state (fs_tasks ts ! i) = TaskPending" by blast
    have "offerTasks w k rest (av - 1, as @ [fst (assignTask w k ts i s)], assigned w k ts i s) = (av', as', s')"
      using Cons.prems(2) True ts by (simp split: prod.splits)
    then show ?thesis using Cons.IH [OF signalled_upd(5) [OF Cons.prems(1)]] by blast
  next
    case False
    then show ?thesis using Cons by (auto split: if_splits option.splits)
  qed
qed simp

lemma signalled_offerSets:
  "signalled key s \<Longrightarrow> offerSets env w ks (av, as, s) = (av', as', s') \<Longrightarrow> signalled key s'"
proof (induction ks arbitrary: av as s)
  case (Cons k rest)
  show ?case
  proof (cases "fmlookup (sets s) k")
    case (Some ts)
    obtain av1 as1 s1 where o: "offerTasks w k [0..<length (fs_tasks ts)] (av, as, s) = (av1, as1, s1)"
      by (metis prod_cases3)
    have "signalled key s1" by (rule signalled_offerTasks [OF Cons.prems(1) o])
    then show ?thesis
      using Cons.prems Some o Cons.IH [of s] Cons.IH [of s1] Cons.IH [OF signalled_finish [OF Cons.prems(1)]]
      by (auto split: if_splits option.splits)
  qed (use Cons in auto)
qed simp

lemma signalled_expire: "signalled key s \<Longrightarrow> signalled key (snd (ExpireWorkers envs now timeout s))"
proof -
  have att: "signalled key s \<Longrightarrow> signalled key (expireAttempts envs w as s)" for w as s
    by (induction as arbitrary: s) (auto split: option.split intro: signal_intros)
  have "signalled key s \<Longrightarrow> signalled key (fold (loseWorker envs) L s)" for L s
  proof (induction L arbitrary: s)
    case (Cons w L)
    have "signalled key (loseWorker envs w s)"
      using Cons.prems by (auto simp: loseWorker_def split: option.split intro: att signal_intros)
    from Cons.IH [OF this] show ?case by simp
  qed simp
  then show "signalled key s \<Longrightarrow> ?thesis"
    by (auto simp: ExpireWorkers_def Let_def intro: signalled_upd(2))
qed

lemma signalled_offer: "signalled key s \<Longrightarrow> signalled key (snd (OfferResources env now w free running s))"
  using signalled_offerSets
  by (auto simp: OfferResources_def Let_def split: option.split sum.split prod.split intro!: signalled_upd(2))
    (blast intro: signalled_upd(1))+

lemma signalled_drain: "k \<noteq> key \<Longrightarrow> signalled key s \<Longrightarrow> signalled key (snd (snd (ScheduleTaskSet_drain env k s)))"
  by (cases "fmlookup (sets s) key")
    (simp_all add: ScheduleTaskSet_drain_def Let_def signalled_def upd_simps split: option.split)

lemma signalled_admit: "signalled key s \<Longrightarrow> signalled key (snd (ScheduleTaskSet_admit env c input n s))"
  by (auto simp: ScheduleTaskSet_admit_def signalled_def fmdom_notD split: sum.split option.splits)

lemma signalled_close: "signalled key s \<Longrightarrow> signalled key (Close s)"
  by (auto simp: signalled_def Close_def split: option.splits)

lemma signalled_reports:
  assumes "signalled key s"
  shows "signalled key (snd (ReportSuccess env r s))" "signalled key (snd (ReportFailure env f s))"
    "signalled key (snd (RegisterWorker w slots now s))"
  using assms signalled_succeed [OF assms] signalled_fail [OF assms]
  by (auto simp: ReportSuccess_def ReportFailure_def RegisterWorker_def split: sum.split option.split)
    (simp add: signalled_def)

lemma signalled_step: "other_step key s s' \<Longrightarrow> signalled key s \<Longrightarrow> signalled key s'"
  by (erule other_stepE)
    (auto simp: signalled_reports signalled_offer signalled_expire signalled_close signalled_admit signalled_drain
      ScheduleTaskSet_await_def split: option.splits if_splits intro: signalled_other_set)

text \<open>
  C18: No wake-up is lost. After a submission has drained its set and not returned, and whatever the
  other goroutines do before it waits or while it waits: whenever there is a report to deliver or the
  set has ended, the \<open>select\<close> of the submission can proceed.
\<close>
theorem no_lost_wakeup:
  assumes "ScheduleTaskSet_drain env key s = (calls, None, s1)" "fmlookup (sets s) key \<noteq> None"
    and "(other_step key)\<^sup>*\<^sup>* s1 s2"
  shows "\<exists>ts. fmlookup (sets s2) key = Some ts \<and>
    (fs_reports ts \<noteq> [] \<or> fs_terminal ts \<longrightarrow> ScheduleTaskSet_await env' True key s2 \<noteq> None)"
proof -
  have "signalled key s1"
    using assms(1,2) by (auto simp: ScheduleTaskSet_drain_def Let_def signalled_def upd_simps split: option.splits if_splits)
  with assms(3) have "signalled key s2"
    by (induction rule: rtranclp_induct) (auto intro: signalled_step)
  then show ?thesis by (auto simp: signalled_def ScheduleTaskSet_await_def split: option.splits)
qed

theorem no_lost_wakeup_witness:
  "\<exists>ts. fmlookup (sets (snd (ReportSuccess (\<lambda>_. None) ex_success (snd (snd (ScheduleTaskSet_drain (\<lambda>_. None) ex_key ex_s3)))))) ex_key = Some ts \<and>
     (fs_reports ts \<noteq> [] \<or> fs_terminal ts \<longrightarrow>
        ScheduleTaskSet_await (\<lambda>_. None) True ex_key
          (snd (ReportSuccess (\<lambda>_. None) ex_success (snd (snd (ScheduleTaskSet_drain (\<lambda>_. None) ex_key ex_s3))))) \<noteq> None)"
proof -
  let ?d = "ScheduleTaskSet_drain (\<lambda>_. None) ex_key ex_s3"
  have "fst (snd ?d) = None" "fmlookup (sets ex_s3) ex_key \<noteq> None" by code_simp+
  then have d: "?d = (fst ?d, None, snd (snd ?d))" "fmlookup (sets ex_s3) ex_key \<noteq> None" by (metis prod.collapse)+
  have "(other_step ex_key)\<^sup>*\<^sup>* (snd (snd ?d)) (snd (ReportSuccess (\<lambda>_. None) ex_success (snd (snd ?d))))"
    by (rule r_into_rtranclp [of "other_step ex_key", OF other_success])
  from no_lost_wakeup [OF d this] show ?thesis .
qed

section \<open>Closing\<close>

text \<open>
  Closing. Every set that had not ended ends with \<open>ErrTaskSchedulerClosed\<close>, sets that had ended
  keep their result; and in every later state registration, offers, submission of a well-formed set,
  expiry with a positive timeout and reports with a message are all refused with that error and
  change nothing.
\<close>
theorem Close_is_final:
  assumes "reach fifo_init fifo_step s" "fifo_step\<^sup>*\<^sup>* (Close s) s2"
  shows "(\<forall>k ts. fmlookup (sets s) k = Some ts \<longrightarrow>
       (\<exists>ts2. fmlookup (sets s2) k = Some ts2 \<and> fs_terminal ts2 \<and>
          fs_err ts2 = (if fs_terminal ts then fs_err ts else Some ErrTaskSchedulerClosed))) \<and>
    (\<forall>w slots t. RegisterWorker w slots t s2 = (Some ErrTaskSchedulerClosed, s2)) \<and>
    (\<forall>env t w free running. OfferResources env t w free running s2 = (Inl ErrTaskSchedulerClosed, s2)) \<and>
    (\<forall>env c input ts. prepareTaskSet c input = Inr ts \<longrightarrow>
       ScheduleTaskSet_admit env c input False s2 = (Inl ErrTaskSchedulerClosed, s2)) \<and>
    (\<forall>env t timeout. 0 < timeout \<longrightarrow> ExpireWorkers env t timeout s2 = (Inl ErrTaskSchedulerClosed, s2)) \<and>
    (\<forall>env r. ReportSuccess env r s2 = (Some ErrTaskSchedulerClosed, s2)) \<and>
    (\<forall>env r. tf_Error r \<noteq> Text [] \<longrightarrow> ReportFailure env r s2 = (Some ErrTaskSchedulerClosed, s2))"
proof -
  have ok: "fifo_ok (Close s)" using fifo.reach_inv [OF assms(1)] fifo_ok_step step_close by blast
  have g: "grows (Close s) s2" by (rule grows_run [OF assms(2) ok])
  have c: "closed s2" using g by (simp add: grows_def Close_def)
  have "\<exists>ts2. fmlookup (sets s2) k = Some ts2 \<and> fs_terminal ts2 \<and>
      fs_err ts2 = (if fs_terminal ts then fs_err ts else Some ErrTaskSchedulerClosed)"
    if k: "fmlookup (sets s) k = Some ts" for k ts
  proof -
    have "\<exists>x. fmlookup (sets (Close s)) k = Some x \<and> fs_terminal x \<and>
        fs_err x = (if fs_terminal ts then fs_err ts else Some ErrTaskSchedulerClosed)"
      using k by (simp add: Close_def)
    with g show ?thesis unfolding grows_def same_set_def by metis
  qed
  then show ?thesis using c
    by (simp add: RegisterWorker_def OfferResources_def ScheduleTaskSet_admit_def ExpireWorkers_def
        ReportSuccess_def ReportFailure_def validateReport_def)
qed

theorem Close_is_final_witness:
  "\<exists>ts. fmlookup (sets (Close ex_s3)) ex_key = Some ts \<and> fs_err ts = Some ErrTaskSchedulerClosed \<and>
     RegisterWorker ''w2'' 1 0 (Close ex_s3) = (Some ErrTaskSchedulerClosed, Close ex_s3)"
proof -
  have "map_option fs_terminal (fmlookup (sets ex_s3) ex_key) = Some False" by code_simp
  then obtain ts where ts: "fmlookup (sets ex_s3) ex_key = Some ts" "\<not> fs_terminal ts" by auto
  note c = Close_is_final [OF ex_reach(2) rtranclp.rtrancl_refl]
  from c [THEN conjunct1] ts have "\<exists>ts. fmlookup (sets (Close ex_s3)) ex_key = Some ts \<and> fs_err ts = Some ErrTaskSchedulerClosed"
    by metis
  moreover from c [THEN conjunct2, THEN conjunct1]
  have "RegisterWorker ''w2'' 1 0 (Close ex_s3) = (Some ErrTaskSchedulerClosed, Close ex_s3)" by blast
  ultimately show ?thesis by blast
qed

section \<open>Submission\<close>

lemma distinct_step:
  "(P x \<and> f x \<notin> I \<and> g x \<notin> J) \<and> (\<forall>t \<in> set xs. P t \<and> f t \<notin> insert (f x) I \<and> g t \<notin> insert (g x) J) \<and>
     distinct (map f xs) \<and> distinct (map g xs) \<longleftrightarrow>
   (\<forall>t \<in> set (x # xs). P t \<and> f t \<notin> I \<and> g t \<notin> J) \<and> distinct (map f (x # xs)) \<and> distinct (map g (x # xs))"
  by (induction xs) auto

lemma prepareTasks_iff:
  "(\<exists>ys. prepareTasks stage xs ids ps acc = Inr ys) \<longleftrightarrow>
     (\<forall>t \<in> set xs. task_StageID t = stage \<and> 0 \<le> task_PartitionID t \<and> task_ID t \<notin> set ids \<and> task_PartitionID t \<notin> set ps) \<and>
     distinct (map task_ID xs) \<and> distinct (map task_PartitionID xs)"
proof (induction xs arbitrary: ids ps acc)
  case (Cons x xs)
  let ?ok = "task_StageID x = stage \<and> 0 \<le> task_PartitionID x \<and> task_ID x \<notin> set ids \<and> task_PartitionID x \<notin> set ps"
  have bad: "(task_StageID x \<noteq> stage \<or> task_PartitionID x < 0 \<or> task_ID x \<in> set ids \<or> task_PartitionID x \<in> set ps) = (\<not> ?ok)"
    by (simp only: not_le de_Morgan_conj not_not)
  have guard: "(\<exists>y. (if \<not> P then Inl e else r) = Inr y) \<longleftrightarrow> P \<and> (\<exists>y. r = Inr y)" for P and e :: fifoError and r :: "fifoError + logicalTaskState list"
    by simp
  have "(\<exists>ys. prepareTasks stage (x # xs) ids ps acc = Inr ys) \<longleftrightarrow>
      ?ok \<and> (\<exists>ys. prepareTasks stage xs (task_ID x # ids) (task_PartitionID x # ps) (acc @ [new_logical x]) = Inr ys)"
    unfolding prepareTasks.simps bad guard ..
  also have "\<dots> \<longleftrightarrow> ?ok \<and> (\<forall>t \<in> set xs. task_StageID t = stage \<and> 0 \<le> task_PartitionID t \<and>
      task_ID t \<notin> set (task_ID x # ids) \<and> task_PartitionID t \<notin> set (task_PartitionID x # ps)) \<and>
      distinct (map task_ID xs) \<and> distinct (map task_PartitionID xs)"
    unfolding Cons.IH ..
  finally show ?case
    using distinct_step [of "\<lambda>t. task_StageID t = stage \<and> 0 \<le> task_PartitionID t" x task_ID "set ids" task_PartitionID "set ps" xs]
    by (simp only: list.set conj_assoc)
qed simp

text \<open>
  C28: Submission. A task set is queued exactly when it has tasks, its shuffle inputs are valid if it
  has any, all tasks belong to its stage with different identifiers and different non-negative
  partitions, the scheduler is open, the context has not ended and the set was never submitted
  before. It is queued last, with every task pending and unassigned, ordered by partition, and
  nothing else changes; a refused submission changes nothing.
\<close>
theorem submission_correct:
  defines "well_formed \<equiv> \<lambda>input. set_Tasks input \<noteq> [] \<and>
      (\<forall>snap. set_ShuffleInputs input = Some snap \<longrightarrow> snapshot_ok snap) \<and>
      (\<forall>t \<in> set (set_Tasks input). task_StageID t = set_StageID input \<and> 0 \<le> task_PartitionID t) \<and>
      distinct (map task_ID (set_Tasks input)) \<and> distinct (map task_PartitionID (set_Tasks input))"
  shows "((\<exists>key s'. ScheduleTaskSet_admit env c input observerNil s = (Inr key, s')) \<longleftrightarrow>
       \<not> observerNil \<and> well_formed input \<and> \<not> closed s \<and> env c = None \<and> set_key input |\<notin>| fmdom (sets s)) \<and>
    (\<forall>e s'. ScheduleTaskSet_admit env c input observerNil s = (Inl e, s') \<longrightarrow> s' = s) \<and>
    (\<forall>key s'. ScheduleTaskSet_admit env c input observerNil s = (Inr key, s') \<longrightarrow>
       key = set_key input \<and> queue s' = queue s @ [key] \<and>
       (\<forall>k. k \<noteq> key \<longrightarrow> fmlookup (sets s') k = fmlookup (sets s) k) \<and>
       (\<exists>ts. fmlookup (sets s') key = Some ts \<and> fs_ctx ts = c \<and> \<not> fs_terminal ts \<and> fs_reports ts = [] \<and>
          fs_remaining ts = int (length (fs_tasks ts)) \<and>
          fs_tasks ts = sort_key (\<lambda>t. task_PartitionID (lt_task t)) (map new_logical (set_Tasks input))))"
proof -
  have prep: "(\<exists>ts. prepareTaskSet c input = Inr ts) \<longleftrightarrow> well_formed input"
  proof -
    have "Option.bind (set_ShuffleInputs input) InputSnapshot_Validate = None \<longleftrightarrow>
        (\<forall>snap. set_ShuffleInputs input = Some snap \<longrightarrow> snapshot_ok snap)"
      by (cases "set_ShuffleInputs input") (simp_all add: InputSnapshot_Validate_iff)
    then show ?thesis
      using prepareTasks_iff [of "set_StageID input" "set_Tasks input" "[]" "[]" "[]"]
      by (auto simp: prepareTaskSet_def well_formed_def split: option.splits sum.splits)
  qed
  show ?thesis
  proof (intro conjI allI impI)
    show "(\<exists>key s'. ScheduleTaskSet_admit env c input observerNil s = (Inr key, s')) \<longleftrightarrow>
       \<not> observerNil \<and> well_formed input \<and> \<not> closed s \<and> env c = None \<and> set_key input |\<notin>| fmdom (sets s)"
      using prep prepareTaskSet_InrD(1) [of c input]
      by (auto simp: ScheduleTaskSet_admit_def split: sum.splits option.splits)
    show "s' = s" if "ScheduleTaskSet_admit env c input observerNil s = (Inl e, s')" for e s'
      using that by (auto simp: ScheduleTaskSet_admit_def split: if_splits sum.splits option.splits)
    fix key s' assume "ScheduleTaskSet_admit env c input observerNil s = (Inr key, s')"
    then obtain ts where ts: "prepareTaskSet c input = Inr ts" "key = fs_key ts"
        "s' = s\<lparr>nextSequence := nextSequence s + 1, sets := fmupd (fs_key ts) (ts\<lparr>fs_sequence := nextSequence s\<rparr>) (sets s),
          queue := queue s @ [fs_key ts], submissions := submissions s + 1\<rparr>"
      by (auto simp: ScheduleTaskSet_admit_def split: if_splits sum.splits option.splits)
    note d = prepareTaskSet_InrD [OF ts(1)]
    show "key = set_key input" using ts d by simp
    show "queue s' = queue s @ [key]" using ts by simp
    show "fmlookup (sets s') k = fmlookup (sets s) k" if "k \<noteq> key" for k using ts that by simp
    show "\<exists>ts. fmlookup (sets s') key = Some ts \<and> fs_ctx ts = c \<and> \<not> fs_terminal ts \<and> fs_reports ts = [] \<and>
        fs_remaining ts = int (length (fs_tasks ts)) \<and>
        fs_tasks ts = sort_key (\<lambda>t. task_PartitionID (lt_task t)) (map new_logical (set_Tasks input))"
    proof (intro exI [of _ "ts\<lparr>fs_sequence := nextSequence s\<rparr>"] conjI)
      have "fs_tasks (ts\<lparr>fs_sequence := nextSequence s\<rparr>) = fs_tasks ts" by simp
      then show "fs_tasks (ts\<lparr>fs_sequence := nextSequence s\<rparr>) =
          sort_key (\<lambda>t. task_PartitionID (lt_task t)) (map new_logical (set_Tasks input))"
        using d(8) by (rule trans)
    qed (use ts d(2,3,5,6) in simp_all)
  qed
qed

theorem submission_correct_witness:
  "\<exists>s'. ScheduleTaskSet_admit (\<lambda>_. None) 0 ex_set False ex_s1 = (Inr ex_key, s') \<and> queue s' = [ex_key]"
proof -
  have "\<not> closed ex_s1" "queue ex_s1 = []" "set_key ex_set |\<notin>| fmdom (sets ex_s1)" "set_key ex_set = ex_key" by code_simp+
  moreover have "set_Tasks ex_set \<noteq> []" "set_ShuffleInputs ex_set = None" "set_StageID ex_set = 0"
    "\<forall>t \<in> set (set_Tasks ex_set). task_StageID t = 0 \<and> 0 \<le> task_PartitionID t"
    "distinct (map task_ID (set_Tasks ex_set))" "distinct (map task_PartitionID (set_Tasks ex_set))"
    by (simp_all add: ex_set_def ex_task_def)
  ultimately show ?thesis using submission_correct [of "\<lambda>_. None" 0 ex_set False ex_s1] by auto
qed

end
