(* ===== verification/Coordinator.thy ===== *)
theory Coordinator
  imports Wire_Protocol Job_Spec FIFO_Properties
begin

text \<open>
  The coordinator's HTTP surface over the task scheduler: \<open>src/coordinator/server.go\<close>,
  \<open>src/coordinator/worker.go\<close>, \<open>src/coordinator/task_report.go\<close>, \<open>src/coordinator/job.go\<close>
  and \<open>src/coordinator/worker_monitor.go\<close>.

  A handler is a function of the request's body and the scheduler's state. The strict JSON decoding
  of a body is an argument for each message type; limits, validation and everything the handlers do with a decoded message are
  written out. Texts of error responses and response headers are not modelled.
\<close>

section \<open>Requests and responses\<close>

datatype response =
    RegisterReply RegisterWorkerResponse
  | HeartbeatReply HeartbeatResponse
  | ReportReply TaskReportResponse
  | JobReply JobResultResponse
  | ErrorReply int ErrorCode
  | NoReply

record codec =
  dec_Register :: "string \<Rightarrow> RegisterWorkerRequest option"
  dec_Heartbeat :: "string \<Rightarrow> HeartbeatRequest option"
  dec_Success :: "string \<Rightarrow> TaskSuccessRequest option"
  dec_Failure :: "string \<Rightarrow> TaskFailureRequest option"
  dec_Job :: "string \<Rightarrow> Spec option"
  dec_URL :: "string \<Rightarrow> URL option"

definition decodeRequest ::
  "(string \<Rightarrow> 'm option) \<Rightarrow> ('m \<Rightarrow> 'e option) \<Rightarrow> string \<times> bool \<Rightarrow> int \<Rightarrow> response + 'm"
where
  "decodeRequest decode validate body maxBytes =
     (case DecodeAndValidate decode validate (Some body) maxBytes of
        Inr m \<Rightarrow> Inr m
      | Inl err \<Rightarrow>
          if err = ErrMessageTooLarge then Inl (ErrorReply 413 CodeRequestTooLarge)
          else Inl (ErrorReply 400 CodeInvalidRequest))"

text \<open>\<open>errors.Is\<close> sees the sentinel that each constructor of \<open>fifoError\<close> wraps.\<close>

definition writeSchedulerError :: "fifoError \<Rightarrow> response" where
  "writeSchedulerError err =
     (case err of
        ErrWorker (ErrUnknownWorker _) \<Rightarrow> ErrorReply 404 CodeNotFound
      | ErrUnknownAttempt _ \<Rightarrow> ErrorReply 404 CodeNotFound
      | ErrWorker (ErrWorkerConflict _ _) \<Rightarrow> ErrorReply 409 CodeConflict
      | ErrWorker (ErrWorkerLost _) \<Rightarrow> ErrorReply 409 CodeConflict
      | ErrMismatchedReport _ \<Rightarrow> ErrorReply 409 CodeConflict
      | ErrWorker ErrInvalidWorker \<Rightarrow> ErrorReply 400 CodeInvalidRequest
      | ErrWorker (ErrInvalidCapacity _) \<Rightarrow> ErrorReply 400 CodeInvalidRequest
      | ErrWorker (ErrInvalidRunningAttempt _ _) \<Rightarrow> ErrorReply 400 CodeInvalidRequest
      | ErrInvalidTaskReport _ \<Rightarrow> ErrorReply 400 CodeInvalidRequest
      | ErrTaskSchedulerClosed \<Rightarrow> ErrorReply 503 CodeUnavailable
      | _ \<Rightarrow> ErrorReply 500 CodeInternal)"

section \<open>Handlers\<close>

definition registerWorker :: "time \<Rightarrow> RegisterWorkerRequest \<Rightarrow> FIFO \<Rightarrow> response \<times> FIFO" where
  "registerWorker now request s =
     (case RegisterWorker (rw_WorkerID request) (rw_TotalSlots request) now s of
        (Some err, s') \<Rightarrow> (writeSchedulerError err, s')
      | (None, s') \<Rightarrow>
          (RegisterReply \<lparr>rr_WorkerID = rw_WorkerID request, rr_TotalSlots = rw_TotalSlots request\<rparr>, s'))"

definition wire_assignment :: "TaskAssignment \<Rightarrow> protocol_TaskAssignment" where
  "wire_assignment a =
     \<lparr>pa_ShuffleInputs = CloneInput (as_ShuffleInputs a), pa_RunID = as_RunID a, pa_JobID = as_JobID a,
      pa_StageID = as_StageID a, pa_WorkerID = ta_WorkerID (as_Attempt a), pa_Attempt = ta_Identity (as_Attempt a),
      pa_Task = ta_Task (as_Attempt a)\<rparr>"

text \<open>A message that passed validation has a running list; the model reads a missing one as empty.\<close>

definition heartbeat :: "ctx_env \<Rightarrow> time \<Rightarrow> HeartbeatRequest \<Rightarrow> FIFO \<Rightarrow> response \<times> FIFO" where
  "heartbeat env now request s =
     (case Worker (hb_WorkerID request) s of
        Inl err \<Rightarrow> (writeSchedulerError (ErrWorker err), s)
      | Inr worker \<Rightarrow>
          if ValidateCapacity request (ws_TotalSlots worker) \<noteq> None then (ErrorReply 400 CodeInvalidRequest, s)
          else (case OfferResources env now (hb_WorkerID request) (hb_FreeSlots request)
                       (case hb_RunningAttemptIDs request of None \<Rightarrow> [] | Some ids \<Rightarrow> ids) s of
                  (Inl err, s') \<Rightarrow> (writeSchedulerError err, s')
                | (Inr assignments, s') \<Rightarrow>
                    (HeartbeatReply \<lparr>hr_Assignments = Some (map wire_assignment assignments)\<rparr>, s')))"

definition wire_output :: "protocol_TaskOutput \<Rightarrow> TaskOutput" where
  "wire_output o1 =
     (TaskOutput_Clone \<lparr>to_Records = None, to_Count = po_Count o1, to_ShuffleOutput = po_ShuffleOutput o1\<rparr>)
       \<lparr>to_Records := map_option (map RawMessageV) (po_Records o1)\<rparr>"

definition taskSuccess :: "ctx_env \<Rightarrow> TaskSuccessRequest \<Rightarrow> FIFO \<Rightarrow> response \<times> FIFO" where
  "taskSuccess env request s =
     (case ReportSuccess env
             \<lparr>ts_JobID = tsr_JobID request, ts_StageID = tsr_StageID request, ts_Attempt = tsr_Attempt request,
              ts_PartitionID = tsr_PartitionID request, ts_WorkerID = tsr_WorkerID request,
              ts_Output = wire_output (tsr_Output request)\<rparr> s of
        (Some err, s') \<Rightarrow> (writeSchedulerError err, s')
      | (None, s') \<Rightarrow> (ReportReply \<lparr>tr_Acknowledged = True\<rparr>, s'))"

definition taskFailure :: "ctx_env \<Rightarrow> TaskFailureRequest \<Rightarrow> FIFO \<Rightarrow> response \<times> FIFO" where
  "taskFailure env request s =
     (case ReportFailure env
             \<lparr>tf_Kind = tfr_Kind request, tf_ShuffleInput = tfr_ShuffleInput request, tf_JobID = tfr_JobID request,
              tf_StageID = tfr_StageID request, tf_Attempt = tfr_Attempt request,
              tf_PartitionID = tfr_PartitionID request, tf_WorkerID = tfr_WorkerID request,
              tf_Error = Text (tfr_Error request)\<rparr> s of
        (Some err, s') \<Rightarrow> (writeSchedulerError err, s')
      | (None, s') \<Rightarrow> (ReportReply \<lparr>tr_Acknowledged = True\<rparr>, s'))"

section \<open>Job submission\<close>

datatype jobError = JobDeadline | JobSchedulingClosed | ErrJobFailed | JobErrorOther

definition writeJobError :: "jobError \<Rightarrow> response" where
  "writeJobError err =
     (case err of
        JobDeadline \<Rightarrow> ErrorReply 504 CodeJobFailed
      | JobSchedulingClosed \<Rightarrow> ErrorReply 503 CodeUnavailable
      | ErrJobFailed \<Rightarrow> ErrorReply 422 CodeJobFailed
      | JobErrorOther \<Rightarrow> ErrorReply 500 CodeInternal)"

text \<open>
  \<open>submit\<close> is the blocking wait for the job. \<open>deadlines\<close> tells whether the two write deadlines can be set,
  \<open>gone\<close> whether the client has left, and \<open>ctxErr\<close> is the reading of the job's context after the wait.
\<close>

definition submitJob ::
  "(Spec \<Rightarrow> jobError + JobResultResponse) \<Rightarrow> bool \<times> bool \<Rightarrow> bool \<Rightarrow> ctx_err option \<Rightarrow> Spec \<Rightarrow> response"
where
  "submitJob submit deadlines gone ctxErr spec =
     (if \<not> fst deadlines then ErrorReply 500 CodeInternal
      else
        let result = submit spec in
        if gone then NoReply
        else if \<not> snd deadlines then ErrorReply 500 CodeInternal
        else (case (case ctxErr of
                      Some DeadlineExceeded \<Rightarrow> Inl JobDeadline
                    | Some Canceled \<Rightarrow> Inl JobErrorOther
                    | None \<Rightarrow> result) of
                Inl err \<Rightarrow> writeJobError err
              | Inr r \<Rightarrow>
                  if jr_Action r \<noteq> spec_Action spec \<or> JobResultResponse_Validate r \<noteq> None
                  then ErrorReply 500 CodeInternal else JobReply r))"

section \<open>Routing\<close>

definition with_request :: "response + 'm \<Rightarrow> ('m \<Rightarrow> FIFO \<Rightarrow> response \<times> FIFO) \<Rightarrow> FIFO \<Rightarrow> response \<times> FIFO" where
  "with_request decoded serve s = (case decoded of Inl reply \<Rightarrow> (reply, s) | Inr m \<Rightarrow> serve m s)"

definition ServeHTTP ::
  "codec \<Rightarrow> int \<Rightarrow> ctx_env \<Rightarrow> time \<Rightarrow> (Spec \<Rightarrow> jobError + JobResultResponse) option \<Rightarrow>
   (bool \<times> bool) \<times> bool \<times> ctx_err option \<Rightarrow> string \<Rightarrow> string \<Rightarrow> string \<times> bool \<Rightarrow> FIFO \<Rightarrow> response \<times> FIFO"
where
  "ServeHTTP c maxBytes env now jobs job path verb body s =
     (if path \<notin> set [RegisterWorkerPath, HeartbeatPath, TaskSuccessPath, TaskFailurePath, SubmitJobPath]
      then (ErrorReply 404 CodeNotFound, s)
      else if verb \<noteq> ''POST'' then (ErrorReply 405 CodeMethodNotAllowed, s)
      else if path = RegisterWorkerPath then
        with_request (decodeRequest (dec_Register c) (RegisterWorkerRequest_Validate (dec_URL c)) body maxBytes)
          (registerWorker now) s
      else if path = HeartbeatPath then
        with_request (decodeRequest (dec_Heartbeat c) HeartbeatRequest_Validate body maxBytes) (heartbeat env now) s
      else if path = TaskSuccessPath then
        with_request (decodeRequest (dec_Success c) TaskSuccessRequest_Validate body maxBytes) (taskSuccess env) s
      else if path = TaskFailurePath then
        with_request (decodeRequest (dec_Failure c) TaskFailureRequest_Validate body maxBytes) (taskFailure env) s
      else case jobs of
        None \<Rightarrow> (ErrorReply 503 CodeUnavailable, s)
      | Some submit \<Rightarrow>
          with_request (decodeRequest (dec_Job c) Spec_Validate body maxBytes)
            (\<lambda>spec s. (submitJob submit (fst job) (fst (snd job)) (snd (snd job)) spec, s)) s)"

section \<open>Configuration\<close>

record ServerConfig =
  sc_Addr :: string
  sc_MaxRequestBytes :: int
  sc_ReadHeaderTimeout :: int
  sc_ReadTimeout :: int
  sc_WriteTimeout :: int
  sc_IdleTimeout :: int
  sc_JobTimeout :: int

datatype ServerError = TaskSchedulerNil | MaxRequestBytesInvalid | TimeoutNegative

definition default :: "int \<Rightarrow> int \<Rightarrow> int" where
  "default d x = (if x = 0 then d else x)"

definition NewServer :: "bool \<Rightarrow> ServerConfig \<Rightarrow> ServerError + ServerConfig" where
  "NewServer tasksNil c =
     (if tasksNil then Inl TaskSchedulerNil
      else if sc_MaxRequestBytes c < 0 \<or> sc_MaxRequestBytes c = 2 ^ 63 - 1 then Inl MaxRequestBytesInvalid
      else if sc_ReadHeaderTimeout c < 0 \<or> sc_ReadTimeout c < 0 \<or> sc_WriteTimeout c < 0 \<or> sc_IdleTimeout c < 0 \<or>
              sc_JobTimeout c < 0
      then Inl TimeoutNegative
      else Inr \<lparr>sc_Addr = (if sc_Addr c = [] then ''127.0.0.1:8080'' else sc_Addr c),
        sc_MaxRequestBytes = default (2 ^ 20) (sc_MaxRequestBytes c),
        sc_ReadHeaderTimeout = default (5 * 10 ^ 9) (sc_ReadHeaderTimeout c),
        sc_ReadTimeout = default (10 * 10 ^ 9) (sc_ReadTimeout c),
        sc_WriteTimeout = default (10 * 10 ^ 9) (sc_WriteTimeout c),
        sc_IdleTimeout = default (60 * 10 ^ 9) (sc_IdleTimeout c),
        sc_JobTimeout = default (300 * 10 ^ 9) (sc_JobTimeout c)\<rparr>)"

record WorkerMonitorConfig =
  wm_WorkerTimeout :: int
  wm_CheckInterval :: int

datatype MonitorError = ExpirerNil | MonitorDurationNegative | CheckIntervalTooLong

definition NewWorkerMonitor :: "bool \<Rightarrow> WorkerMonitorConfig \<Rightarrow> MonitorError + WorkerMonitorConfig" where
  "NewWorkerMonitor tasksNil c =
     (if tasksNil then Inl ExpirerNil
      else if wm_WorkerTimeout c < 0 \<or> wm_CheckInterval c < 0 then Inl MonitorDurationNegative
      else
        let timeout = default (10 * 10 ^ 9) (wm_WorkerTimeout c); interval = default (10 ^ 9) (wm_CheckInterval c) in
        if interval > timeout then Inl CheckIntervalTooLong
        else Inr \<lparr>wm_WorkerTimeout = timeout, wm_CheckInterval = interval\<rparr>)"

text \<open>
  The monitor's loop over what its \<open>select\<close> receives: \<open>None\<close> is the end of the context, a tick is its time with the
  reading of the context at that moment and those of the task sets during the call.
\<close>

fun monitor_run ::
  "WorkerMonitorConfig \<Rightarrow> (time \<times> bool \<times> (TaskAttemptID \<Rightarrow> ctx_env)) option list \<Rightarrow> FIFO \<Rightarrow> fifoError option option \<times> FIFO"
where
  "monitor_run c [] s = (None, s)"
| "monitor_run c (None # rest) s = (Some None, s)"
| "monitor_run c (Some (now, ended, envs) # rest) s =
     (if ended then (Some None, s)
      else case ExpireWorkers envs now (wm_WorkerTimeout c) s of
        (Inl err, s') \<Rightarrow> (Some (Some err), s')
      | (Inr _, s') \<Rightarrow> monitor_run c rest s')"

end
