(* ===== verification/Worker_Runtime.thy ===== *)
theory Worker_Runtime
  imports Wire_Protocol
begin

text \<open>
  The worker process: \<open>src/worker/runtime.go\<close>, \<open>src/worker/task.go\<close> and the calls of \<open>src/worker/client.go\<close>.

  The event loop alone changes the maps; each task runs in a goroutine of its own, which reports to the
  coordinator and then sends the attempt on the channel \<open>completed\<close>, whose buffer has one place per
  slot. A run is a sequence of steps: the loop receives a completed attempt, or its timer fires and it
  polls the coordinator, or a goroutine delivers its attempt, or the context ends. What crosses
  the network is an argument: \<open>exchange\<close> encodes a request and performs it. The coordinator may answer
  anything. Loggers and timers are not modelled.
\<close>

section \<open>The client\<close>

record ClientConfig =
  cc_RequestTimeout :: int
  cc_MaxResponseBytes :: int

record Client =
  cl_baseURL :: string
  cl_timeout :: int
  cl_maxResponseBytes :: int

text \<open>The parts of the coordinator's URL, as \<open>url.Parse\<close> and \<open>String\<close> give them.\<close>

record originURL = URL +
  url_Path :: string
  url_RawPath :: string
  url_RawFragment :: string
  url_String :: string

datatype NewClientError = BadOrigin | BadClientLimits

definition trimSlash :: "string \<Rightarrow> string" where
  "trimSlash s = (if s \<noteq> [] \<and> List.last s = CHR ''/'' then butlast s else s)"

definition NewClient :: "(string \<Rightarrow> originURL option) \<Rightarrow> string \<Rightarrow> ClientConfig \<Rightarrow> NewClientError + Client" where
  "NewClient parse baseURL config =
     (case parse baseURL of
        None \<Rightarrow> Inl BadOrigin
      | Some u \<Rightarrow>
          if (url_Scheme u \<noteq> ''http'' \<and> url_Scheme u \<noteq> ''https'') \<or> url_Hostname u = [] \<or> url_HasUser u \<or>
             (url_Path u \<noteq> [] \<and> url_Path u \<noteq> ''/'') \<or> url_RawPath u \<noteq> [] \<or> url_RawQuery u \<noteq> [] \<or> url_ForceQuery u \<or>
             url_Fragment u \<noteq> [] \<or> url_RawFragment u \<noteq> []
          then Inl BadOrigin
          else if cc_RequestTimeout config < 0 \<or> cc_MaxResponseBytes config < 0 \<or> cc_MaxResponseBytes config = 2 ^ 63 - 1
          then Inl BadClientLimits
          else Inr
            \<lparr>cl_baseURL = trimSlash (url_String u),
             cl_timeout = (if cc_RequestTimeout config = 0 then 10 * 10 ^ 9 else cc_RequestTimeout config),
             cl_maxResponseBytes = (if cc_MaxResponseBytes config = 0 then 2 ^ 20 else cc_MaxResponseBytes config)\<rparr>)"

text \<open>An HTTP response: its status, whether its media type is JSON, and its body as a reader.\<close>

record httpResponse =
  resp_Status :: int
  resp_JSON :: bool
  resp_Body :: "string \<times> bool"

datatype ClientError =
    RequestInvalid ProtocolError
  | ExchangeFailed go_error
  | NotJSON int
  | UnexpectedStatus int
  | RejectionInvalid int decodeError
  | HTTPError int ErrorCode string
  | ResponseInvalid decodeError
  | ResponseMismatch

text \<open>
  \<open>exchange\<close> encodes the message and performs the HTTP request to a URL; the two decoders are those
  of error responses and of the answer's type.
\<close>

definition post ::
  "Client \<Rightarrow> (string \<Rightarrow> ErrorResponse option) \<Rightarrow> (string \<Rightarrow> 'm \<Rightarrow> go_error + httpResponse) \<Rightarrow> string \<Rightarrow>
   ('m \<Rightarrow> ProtocolError option) \<Rightarrow> (string \<Rightarrow> 'r option) \<Rightarrow> ('r \<Rightarrow> 'e option) \<Rightarrow> 'm \<Rightarrow> ClientError + 'r"
where
  "post c decodeRejection exchange path validateRequest decode validateResponse message =
     (case validateRequest message of
        Some err \<Rightarrow> Inl (RequestInvalid err)
      | None \<Rightarrow>
          (case exchange (cl_baseURL c @ path) message of
             Inl err \<Rightarrow> Inl (ExchangeFailed err)
           | Inr r \<Rightarrow>
               if \<not> resp_JSON r then Inl (NotJSON (resp_Status r))
               else if resp_Status r \<noteq> 200 then
                 if resp_Status r < 400 \<or> resp_Status r > 599 then Inl (UnexpectedStatus (resp_Status r))
                 else (case DecodeAndValidate decodeRejection ErrorResponse_Validate (Some (resp_Body r)) (cl_maxResponseBytes c) of
                         Inl err \<Rightarrow> Inl (RejectionInvalid (resp_Status r) err)
                       | Inr rejection \<Rightarrow> Inl (HTTPError (resp_Status r) (er_Code rejection) (er_Message rejection)))
               else (case DecodeAndValidate decode validateResponse (Some (resp_Body r)) (cl_maxResponseBytes c) of
                       Inl err \<Rightarrow> Inl (ResponseInvalid err)
                     | Inr answer \<Rightarrow> Inr answer)))"

definition Client_RegisterWorker ::
  "Client \<Rightarrow> (string \<Rightarrow> URL option) \<Rightarrow> (string \<Rightarrow> ErrorResponse option) \<Rightarrow> (string \<Rightarrow> RegisterWorkerResponse option) \<Rightarrow>
   (string \<Rightarrow> RegisterWorkerRequest \<Rightarrow> go_error + httpResponse) \<Rightarrow> RegisterWorkerRequest \<Rightarrow>
   ClientError + RegisterWorkerResponse"
where
  "Client_RegisterWorker c parse decodeRejection decode exchange request =
     (case post c decodeRejection exchange RegisterWorkerPath (RegisterWorkerRequest_Validate parse) decode
             (RegisterWorkerResponse_Validate parse) request of
        Inl err \<Rightarrow> Inl err
      | Inr response \<Rightarrow>
          if rr_WorkerID response \<noteq> rw_WorkerID request \<or> rr_TotalSlots response \<noteq> rw_TotalSlots request
          then Inl ResponseMismatch else Inr response)"

definition request_running :: "HeartbeatRequest \<Rightarrow> TaskAttemptID list" where
  "request_running request = (case hb_RunningAttemptIDs request of None \<Rightarrow> [] | Some ids \<Rightarrow> ids)"

definition response_assignments :: "HeartbeatResponse \<Rightarrow> protocol_TaskAssignment list" where
  "response_assignments response = (case hr_Assignments response of None \<Rightarrow> [] | Some as \<Rightarrow> as)"

definition Client_Heartbeat ::
  "Client \<Rightarrow> (string \<Rightarrow> ErrorResponse option) \<Rightarrow> (string \<Rightarrow> HeartbeatResponse option) \<Rightarrow>
   (string \<Rightarrow> HeartbeatRequest \<Rightarrow> go_error + httpResponse) \<Rightarrow> HeartbeatRequest \<Rightarrow> ClientError + HeartbeatResponse"
where
  "Client_Heartbeat c decodeRejection decode exchange request =
     (case post c decodeRejection exchange HeartbeatPath HeartbeatRequest_Validate decode HeartbeatResponse_Validate request of
        Inl err \<Rightarrow> Inl err
      | Inr response \<Rightarrow>
          if int (length (response_assignments response)) > hb_FreeSlots request then Inl ResponseMismatch
          else if list_ex (\<lambda>a. pa_WorkerID a \<noteq> hb_WorkerID request \<or>
                    tai_ID (pa_Attempt a) \<in> set (request_running request)) (response_assignments response)
          then Inl ResponseMismatch else Inr response)"

section \<open>Configuration and registration\<close>

record RuntimeConfig =
  cfg_WorkerID :: WorkerID
  cfg_Slots :: int
  cfg_HeartbeatInterval :: int
  cfg_RequestTimeout :: int

datatype RuntimeError =
    ClientNil
  | ConfigInvalid ProtocolError
  | NegativeTimeouts
  | RegisterFunctions go_error
  | RegisterFailed ClientError
  | RegistrationMismatch

text \<open>\<open>functions\<close> is the result of the caller's \<open>RegisterFunctions\<close>; durations are nanoseconds.\<close>

definition NewRuntime ::
  "(string \<Rightarrow> URL option) \<Rightarrow> bool \<Rightarrow> go_error option \<Rightarrow> RuntimeConfig \<Rightarrow> RuntimeError + RuntimeConfig"
where
  "NewRuntime parse clientNil functions config =
     (if clientNil then Inl ClientNil
      else case RegisterWorkerRequest_Validate parse
                  \<lparr>rw_WorkerID = cfg_WorkerID config, rw_TotalSlots = cfg_Slots config, rw_BaseURL = []\<rparr> of
        Some err \<Rightarrow> Inl (ConfigInvalid err)
      | None \<Rightarrow>
          if cfg_HeartbeatInterval config < 0 \<or> cfg_RequestTimeout config < 0 then Inl NegativeTimeouts
          else (case functions of
                  Some err \<Rightarrow> Inl (RegisterFunctions err)
                | None \<Rightarrow>
                    Inr (config\<lparr>cfg_HeartbeatInterval :=
                           (if cfg_HeartbeatInterval config = 0 then 100 * 10 ^ 6 else cfg_HeartbeatInterval config),
                         cfg_RequestTimeout :=
                           (if cfg_RequestTimeout config = 0 then 10 * 10 ^ 9 else cfg_RequestTimeout config)\<rparr>)))"

definition Runtime_register ::
  "(string \<Rightarrow> URL option) \<Rightarrow> RuntimeConfig \<Rightarrow>
   (RegisterWorkerRequest \<Rightarrow> ClientError + RegisterWorkerResponse) \<Rightarrow> RuntimeError option"
where
  "Runtime_register parse config client =
     (let request = \<lparr>rw_WorkerID = cfg_WorkerID config, rw_TotalSlots = cfg_Slots config, rw_BaseURL = []\<rparr> in
      case client request of
        Inl err \<Rightarrow> Some (RegisterFailed err)
      | Inr registration \<Rightarrow>
          if RegisterWorkerResponse_Validate parse registration \<noteq> None \<or>
             rr_WorkerID registration \<noteq> rw_WorkerID request \<or> rr_TotalSlots registration \<noteq> rw_TotalSlots request
          then Some RegistrationMismatch else None)"

section \<open>The event loop\<close>

record runtimeState =
  rs_active :: "(TaskAttemptID, protocol_TaskAssignment) fmap"
  rs_seen :: "TaskAttemptID fset"
  rs_completed :: "TaskAttemptID list"

datatype PollError =
    PollContext go_error
  | PollHeartbeat ClientError
  | PollResponse ResponseError
  | ExceedsFreeSlots
  | ForeignOrReused TaskAttemptID

definition drainCompleted :: "runtimeState \<Rightarrow> runtimeState" where
  "drainCompleted s = s\<lparr>rs_active := fold fmdrop (rs_completed s) (rs_active s), rs_completed := []\<rparr>"

definition resourceOffer :: "RuntimeConfig \<Rightarrow> (TaskAttemptID, protocol_TaskAssignment) fmap \<Rightarrow> HeartbeatRequest" where
  "resourceOffer config active =
     \<lparr>hb_WorkerID = cfg_WorkerID config, hb_FreeSlots = cfg_Slots config - int (fcard (fmdom active)),
      hb_RunningAttemptIDs = Some (sorted_list_of_fset (fmdom active))\<rparr>"

definition validateAssignments :: "HeartbeatResponse \<Rightarrow> HeartbeatRequest \<Rightarrow> TaskAttemptID fset \<Rightarrow> PollError option" where
  "validateAssignments response offer seen =
     (case HeartbeatResponse_Validate response of
        Some err \<Rightarrow> Some (PollResponse err)
      | None \<Rightarrow>
          if int (length (response_assignments response)) > hb_FreeSlots offer then Some ExceedsFreeSlots
          else first_error (\<lambda>a. if pa_WorkerID a \<noteq> hb_WorkerID offer \<or> tai_ID (pa_Attempt a) |\<in>| seen
                 then Some (ForeignOrReused (tai_ID (pa_Attempt a))) else None)
               (response_assignments response))"

text \<open>\<open>cause\<close> is the cause of the loop's context, if it has ended when the call returns.\<close>

definition poll ::
  "RuntimeConfig \<Rightarrow> (HeartbeatRequest \<Rightarrow> ClientError + HeartbeatResponse) \<Rightarrow>
   go_error option \<Rightarrow> runtimeState \<Rightarrow> PollError + protocol_TaskAssignment list"
where
  "poll config client cause s =
     (let offer = resourceOffer config (rs_active s) in
      case (client offer, cause) of
        (_, Some err) \<Rightarrow> Inl (PollContext err)
      | (Inl err, None) \<Rightarrow> Inl (PollHeartbeat err)
      | (Inr response, None) \<Rightarrow>
          (case validateAssignments response offer (rs_seen s) of
             Some err \<Rightarrow> Inl err
           | None \<Rightarrow> Inr (response_assignments response)))"

definition dispatchOne :: "protocol_TaskAssignment \<Rightarrow> runtimeState \<Rightarrow> runtimeState" where
  "dispatchOne a s =
     s\<lparr>rs_active := fmupd (tai_ID (pa_Attempt a)) a (rs_active s),
       rs_seen := finsert (tai_ID (pa_Attempt a)) (rs_seen s)\<rparr>"

definition dispatch :: "protocol_TaskAssignment list \<Rightarrow> runtimeState \<Rightarrow> runtimeState" where
  "dispatch assignments s = fold dispatchOne assignments s"

text \<open>
  The process: the state of the loop, the attempts whose goroutine has not delivered yet, and the
  assignments started so far, in order. \<open>wk_stopped\<close> says that \<open>Run\<close> has returned.
\<close>

record workerProcess =
  wk_state :: runtimeState
  wk_running :: "TaskAttemptID list"
  wk_started :: "protocol_TaskAssignment list"
  wk_stopped :: bool

definition newProcess :: workerProcess where
  "newProcess =
     \<lparr>wk_state = \<lparr>rs_active = fmempty, rs_seen = {||}, rs_completed = []\<rparr>, wk_running = [], wk_started = [], wk_stopped = False\<rparr>"

definition loop_completed :: "workerProcess \<Rightarrow> workerProcess" where
  "loop_completed w =
     (case rs_completed (wk_state w) of
        [] \<Rightarrow> w
      | a # rest \<Rightarrow> w\<lparr>wk_state := (wk_state w)\<lparr>rs_active := fmdrop a (rs_active (wk_state w)), rs_completed := rest\<rparr>\<rparr>)"

definition loop_tick ::
  "RuntimeConfig \<Rightarrow> (HeartbeatRequest \<Rightarrow> ClientError + HeartbeatResponse) \<Rightarrow>
   go_error option \<Rightarrow> workerProcess \<Rightarrow> workerProcess"
where
  "loop_tick config client cause w =
     (let s = drainCompleted (wk_state w) in
      case poll config client cause s of
        Inl _ \<Rightarrow> w\<lparr>wk_state := s, wk_stopped := True\<rparr>
      | Inr assignments \<Rightarrow>
          w\<lparr>wk_state := dispatch assignments s,
            wk_running := wk_running w @ map (\<lambda>a. tai_ID (pa_Attempt a)) assignments,
            wk_started := wk_started w @ assignments\<rparr>)"

text \<open>A goroutine whose report has been handled sends its attempt; \<open>None\<close> while the buffer is full.\<close>

definition task_deliver :: "RuntimeConfig \<Rightarrow> TaskAttemptID \<Rightarrow> workerProcess \<Rightarrow> workerProcess option" where
  "task_deliver config a w =
     (if int (length (rs_completed (wk_state w))) < cfg_Slots config
      then Some (w\<lparr>wk_state := (wk_state w)\<lparr>rs_completed := rs_completed (wk_state w) @ [a]\<rparr>,
                   wk_running := remove1 a (wk_running w)\<rparr>)
      else None)"

inductive worker_step :: "RuntimeConfig \<Rightarrow> workerProcess \<Rightarrow> workerProcess \<Rightarrow> bool" for config :: RuntimeConfig where
  worker_completed: "\<not> wk_stopped w \<Longrightarrow> rs_completed (wk_state w) \<noteq> [] \<Longrightarrow> worker_step config w (loop_completed w)"
| worker_tick: "\<not> wk_stopped w \<Longrightarrow> worker_step config w (loop_tick config client cause w)"
| worker_deliver: "a \<in> set (wk_running w) \<Longrightarrow> task_deliver config a w = Some w' \<Longrightarrow> worker_step config w w'"
| worker_cancel: "worker_step config w (w\<lparr>wk_stopped := True\<rparr>)"

section \<open>The invariant of the process\<close>

definition config_ok :: "RuntimeConfig \<Rightarrow> bool" where
  "config_ok config \<longleftrightarrow> 0 < cfg_Slots config \<and> \<not> blank (cfg_WorkerID config)"

abbreviation attempt_id :: "protocol_TaskAssignment \<Rightarrow> TaskAttemptID" where
  "attempt_id a \<equiv> tai_ID (pa_Attempt a)"

definition state_inv :: "RuntimeConfig \<Rightarrow> TaskAttemptID list \<Rightarrow> protocol_TaskAssignment list \<Rightarrow> runtimeState \<Rightarrow> bool" where
  "state_inv config running started s \<longleftrightarrow>
     distinct (running @ rs_completed s) \<and> fset (fmdom (rs_active s)) = set (running @ rs_completed s) \<and>
     int (length (running @ rs_completed s)) \<le> cfg_Slots config \<and>
     fmdom (rs_active s) |\<subseteq>| rs_seen s \<and> fset (rs_seen s) = attempt_id ` set started \<and>
     distinct (map attempt_id started) \<and>
     (\<forall>a \<in> set started. TaskAssignment_Validate a = None \<and> pa_WorkerID a = cfg_WorkerID config)"

definition worker_inv :: "RuntimeConfig \<Rightarrow> workerProcess \<Rightarrow> bool" where
  "worker_inv config w \<longleftrightarrow> config_ok config \<and> state_inv config (wk_running w) (wk_started w) (wk_state w)"

definition worker_init :: "RuntimeConfig \<Rightarrow> workerProcess \<Rightarrow> bool" where
  "worker_init config w \<longleftrightarrow> config_ok config \<and> w = newProcess"

lemma fmdom_fold_fmdrop: "fset (fmdom (fold fmdrop xs m)) = fset (fmdom m) - set xs"
  by (induction xs arbitrary: m) auto

lemma state_inv_drain:
  assumes "state_inv config running started s"
  shows "state_inv config running started (drainCompleted s)"
  using assms by (auto simp: state_inv_def drainCompleted_def fmdom_fold_fmdrop less_eq_fset.rep_eq)

lemma state_inv_deliver:
  assumes "state_inv config running started s" "a \<in> set running"
  shows "state_inv config (remove1 a running) started (s\<lparr>rs_completed := rs_completed s @ [a]\<rparr>)"
proof -
  have "length (remove1 a running @ rs_completed s @ [a]) = length (running @ rs_completed s)"
    using length_pos_if_in_set[OF assms(2)] assms(2) by (simp add: length_remove1)
  then have "int (length (remove1 a running @ rs_completed s @ [a])) \<le> cfg_Slots config"
    using assms(1) unfolding state_inv_def by simp
  then show ?thesis using assms by (auto simp: state_inv_def)
qed

lemma state_inv_receive:
  assumes "state_inv config running started s" "rs_completed s = a # rest"
  shows "state_inv config running started (s\<lparr>rs_active := fmdrop a (rs_active s), rs_completed := rest\<rparr>)"
  using assms by (auto simp: state_inv_def less_eq_fset.rep_eq)

lemma dispatch_fields:
  "rs_completed (dispatch as s) = rs_completed s"
  "fset (fmdom (rs_active (dispatch as s))) = fset (fmdom (rs_active s)) \<union> attempt_id ` set as"
  "fset (rs_seen (dispatch as s)) = fset (rs_seen s) \<union> attempt_id ` set as"
  by (induction as arbitrary: s) (auto simp: dispatch_def dispatchOne_def)

lemma state_inv_card:
  assumes "state_inv config running started s"
  shows "fcard (fmdom (rs_active s)) = length (running @ rs_completed s)"
  using assms distinct_card[of "running @ rs_completed s"] by (simp add: state_inv_def fcard.rep_eq)

lemma validateAssignments_None:
  "validateAssignments response offer seen = None \<longleftrightarrow>
     HeartbeatResponse_Validate response = None \<and>
     int (length (response_assignments response)) \<le> hb_FreeSlots offer \<and>
     (\<forall>a \<in> set (response_assignments response). pa_WorkerID a = hb_WorkerID offer \<and> attempt_id a |\<notin>| seen)"
  by (auto simp: validateAssignments_def split: option.splits)

lemma poll_InrD:
  assumes "poll config client cause s = Inr as"
  shows "int (length as) \<le> cfg_Slots config - int (fcard (fmdom (rs_active s)))"
    "\<forall>a \<in> set as. TaskAssignment_Validate a = None \<and> pa_WorkerID a = cfg_WorkerID config \<and> attempt_id a |\<notin>| rs_seen s"
    "distinct (map attempt_id as)"
  using assms
  by (auto simp: poll_def Let_def validateAssignments_None HeartbeatResponse_Validate_None resourceOffer_def
      response_assignments_def split: sum.splits option.splits)

lemma state_inv_dispatch:
  assumes "state_inv config running started s" "rs_completed s = []" "poll config client cause s = Inr as"
  shows "state_inv config (running @ map attempt_id as) (started @ as) (dispatch as s)"
proof -
  note p = poll_InrD[OF assms(3)]
  have new: "attempt_id ` set as \<inter> attempt_id ` set started = {}"
    using p(2) assms(1) by (auto simp: state_inv_def)
  have sub: "set running \<subseteq> attempt_id ` set started"
    using assms(1) by (auto simp: state_inv_def less_eq_fset.rep_eq)
  have "int (length running) + int (length as) \<le> cfg_Slots config"
    using p(1) state_inv_card[OF assms(1)] assms(2) by simp
  with assms(1,2) p(2,3) new sub show ?thesis
    by (auto simp: state_inv_def dispatch_fields less_eq_fset.rep_eq)
qed

lemma worker_inv_step:
  assumes "worker_inv config w" "worker_step config w w'"
  shows "worker_inv config w'"
  using assms(2)
proof (cases rule: worker_step.cases)
  case worker_completed
  then obtain a rest where c: "rs_completed (wk_state w) = a # rest" by (auto simp: neq_Nil_conv)
  with worker_completed assms(1) state_inv_receive[OF _ c] show ?thesis
    by (simp add: worker_inv_def loop_completed_def)
next
  case (worker_tick client cause)
  note drained = state_inv_drain[OF conjunct2[OF assms(1)[unfolded worker_inv_def]]]
  show ?thesis
  proof (cases "poll config client cause (drainCompleted (wk_state w))")
    case (Inl e)
    then show ?thesis using worker_tick assms(1) drained by (simp add: worker_inv_def loop_tick_def)
  next
    case (Inr as)
    then show ?thesis using worker_tick assms(1) state_inv_dispatch[OF drained _ Inr]
      by (simp add: worker_inv_def loop_tick_def drainCompleted_def)
  qed
next
  case (worker_deliver a)
  then show ?thesis using assms(1) state_inv_deliver
    by (auto simp: worker_inv_def task_deliver_def split: if_splits)
next
  case worker_cancel
  then show ?thesis using assms(1) by (simp add: worker_inv_def)
qed

lemma worker_inv_init: "worker_init config w \<Longrightarrow> worker_inv config w"
  by (simp add: worker_init_def worker_inv_def newProcess_def state_inv_def config_ok_def)

interpretation worker: invariant_system "worker_init config" "worker_step config" "worker_inv config" for config
  by unfold_locales (auto intro: worker_inv_init worker_inv_step)

lemma NewRuntime_config_ok:
  assumes "NewRuntime parse n f config0 = Inr config"
  shows "config_ok config"
  using assms by (auto simp: NewRuntime_def RegisterWorkerRequest_Validate_def validateWorker_def config_ok_def
      split: if_splits option.splits)

lemma offer_capacity:
  assumes "config_ok config" "state_inv config running started s"
  shows "ValidateCapacity (resourceOffer config (rs_active s)) (cfg_Slots config) = None"
proof -
  have "length (sorted_list_of_fset (fmdom (rs_active s))) = fcard (fmdom (rs_active s))"
    by (simp add: sorted_list_of_fset.rep_eq fcard.rep_eq)
  then show ?thesis
    using assms state_inv_card[OF assms(2)]
    by (simp add: ValidateCapacity_None resourceOffer_def config_ok_def state_inv_def sorted_list_of_fset.rep_eq)
qed

text \<open>
  C10: whatever the coordinator answers, a worker never runs more tasks than it has slots, never starts
  an attempt twice, and starts only assignments that are valid and addressed to it. The
  offer it sends always passes the coordinator's capacity check, and a goroutine that has finished
  never blocks on the channel: its buffer always has room for every running attempt.
\<close>

theorem worker_never_overcommits:
  assumes "NewRuntime parse clientNil functions config0 = Inr config"
    and "reach (worker_init config) (worker_step config) w"
  shows "int (length (wk_running w)) \<le> cfg_Slots config \<and>
     distinct (map (\<lambda>a. tai_ID (pa_Attempt a)) (wk_started w)) \<and>
     set (wk_running w) \<subseteq> (\<lambda>a. tai_ID (pa_Attempt a)) ` set (wk_started w) \<and>
     (\<forall>a \<in> set (wk_started w). TaskAssignment_Validate a = None \<and> pa_WorkerID a = cfg_WorkerID config) \<and>
     ValidateCapacity (resourceOffer config (rs_active (wk_state w))) (cfg_Slots config) = None \<and>
     (\<forall>a \<in> set (wk_running w). task_deliver config a w \<noteq> None)"
proof -
  have inv: "worker_inv config w" using worker.reach_inv[OF assms(2)] .
  then have s: "config_ok config" "state_inv config (wk_running w) (wk_started w) (wk_state w)"
    by (simp_all add: worker_inv_def)
  have room: "task_deliver config a w \<noteq> None" if "a \<in> set (wk_running w)" for a
  proof -
    have "int (length (rs_completed (wk_state w))) < cfg_Slots config"
    proof -
      have "int (length (wk_running w)) + int (length (rs_completed (wk_state w))) \<le> cfg_Slots config"
        using s(2) by (simp add: state_inv_def)
      then show ?thesis using length_pos_if_in_set[OF that] by linarith
    qed
    then show ?thesis by (simp add: task_deliver_def)
  qed
  have "set (wk_running w) \<subseteq> (\<lambda>a. tai_ID (pa_Attempt a)) ` set (wk_started w)"
    using s(2) by (auto simp: state_inv_def less_eq_fset.rep_eq)
  with s(2) room offer_capacity[OF s] show ?thesis by (simp add: state_inv_def)
qed

section \<open>Running a task and reporting it\<close>

fun encodeRecords :: "(any \<Rightarrow> go_error + string) \<Rightarrow> any list \<Rightarrow> go_error + string list" where
  "encodeRecords marshal [] = Inr []"
| "encodeRecords marshal (record1 # rest) =
     (case marshal record1 of
        Inl err \<Rightarrow> Inl (WrapError [err])
      | Inr data \<Rightarrow> map_sum id (\<lambda>ds. data # ds) (encodeRecords marshal rest))"

text \<open>
  \<open>marshal\<close> is \<open>json.Marshal\<close> on the records of the job, whose types may bring their own encoding. Texts
  of the program's own errors are shortened.
\<close>

definition encodeOutput :: "(any \<Rightarrow> go_error + string) \<Rightarrow> ActionKind \<Rightarrow> TaskOutput \<Rightarrow> go_error + protocol_TaskOutput" where
  "encodeOutput marshal action result =
     (case (case action of
              ActionCount \<Rightarrow> Inr \<lparr>po_ShuffleOutput = None, po_Records = None, po_Count = to_Count result\<rparr>
            | ActionCollect \<Rightarrow>
                map_sum id (\<lambda>rs. \<lparr>po_ShuffleOutput = None, po_Records = Some rs, po_Count = 0\<rparr>)
                  (encodeRecords marshal (case to_Records result of None \<Rightarrow> [] | Some rs \<Rightarrow> rs))
            | _ \<Rightarrow> Inl (ErrorText ''unsupported task action''))
      of Inl err \<Rightarrow> Inl err
       | Inr out1 \<Rightarrow>
           (case protocol_TaskOutput_Validate out1 of
              Some _ \<Rightarrow> Inl (ErrorText ''invalid task output'')
            | None \<Rightarrow> Inr out1))"

text \<open>
  What is to be reported of the runner's result. The final action of a task that is not a map task is
  set when its output has passed \<open>ValidateFor\<close>, so the last branch is not taken.
\<close>

definition task_outcome ::
  "(any \<Rightarrow> go_error + string) \<Rightarrow> protocol_TaskAssignment \<Rightarrow> go_error + TaskOutput \<Rightarrow> go_error + protocol_TaskOutput"
where
  "task_outcome marshal a result =
     (case result of
        Inl err \<Rightarrow> Inl err
      | Inr out1 \<Rightarrow>
          (case ValidateFor out1 (Execution a) of
             Some _ \<Rightarrow> Inl (ErrorText ''invalid task output'')
           | None \<Rightarrow>
               if task_StageKind (pa_Task a) = StageShuffleMap
               then Inr \<lparr>po_ShuffleOutput = to_ShuffleOutput (TaskOutput_Clone out1), po_Records = None, po_Count = 0\<rparr>
               else (case task_FinalAction (pa_Task a) of
                       Some action \<Rightarrow> encodeOutput marshal (act_Kind action) out1
                     | None \<Rightarrow> Inl (ErrorText ''result task without action''))))"

datatype taskReport = SuccessReport TaskSuccessRequest | FailureReport TaskFailureRequest

text \<open>
  \<open>ctx1\<close> and \<open>ctx2\<close> are the two readings of the context: after a success, and when a failure is
  classified. \<open>message\<close> is the text of an error.
\<close>

definition failure_report ::
  "(go_error \<Rightarrow> string) \<Rightarrow> ctx_err option \<Rightarrow> bool \<Rightarrow> protocol_TaskAssignment \<Rightarrow> go_error \<Rightarrow> TaskFailureRequest"
where
  "failure_report message ctx2 ranSuccessfully a err =
     (let (kind, input) = (case ClassifyFailure ctx2 err of (kind, input) \<Rightarrow>
            if ranSuccessfully \<and> kind \<noteq> FailureCanceled then (FailurePermanent, None) else (kind, input))
      in \<lparr>tfr_Kind = kind, tfr_ShuffleInput = input, tfr_JobID = pa_JobID a, tfr_StageID = pa_StageID a,
          tfr_Attempt = pa_Attempt a, tfr_PartitionID = task_PartitionID (pa_Task a), tfr_WorkerID = pa_WorkerID a,
          tfr_Error = message err\<rparr>)"

definition success_report :: "protocol_TaskAssignment \<Rightarrow> protocol_TaskOutput \<Rightarrow> TaskSuccessRequest" where
  "success_report a out1 =
     \<lparr>tsr_JobID = pa_JobID a, tsr_StageID = pa_StageID a, tsr_Attempt = pa_Attempt a,
      tsr_PartitionID = task_PartitionID (pa_Task a), tsr_WorkerID = pa_WorkerID a, tsr_Output = out1\<rparr>"

definition task_report ::
  "(any \<Rightarrow> go_error + string) \<Rightarrow> (go_error \<Rightarrow> string) \<Rightarrow> ctx_err option \<Rightarrow> ctx_err option \<Rightarrow>
   protocol_TaskAssignment \<Rightarrow> go_error + TaskOutput \<Rightarrow> taskReport"
where
  "task_report marshal message ctx1 ctx2 a result =
     (case (task_outcome marshal a result, ctx1) of
        (Inl err, _) \<Rightarrow> FailureReport (failure_report message ctx2 (\<not> isl result) a err)
      | (Inr _, Some err) \<Rightarrow> FailureReport (failure_report message ctx2 (\<not> isl result) a (ContextError err))
      | (Inr out1, None) \<Rightarrow> SuccessReport (success_report a out1))"

datatype ReportError = ReportClient ClientError | ReportNotAcknowledged

definition executeAndReport ::
  "(any \<Rightarrow> go_error + string) \<Rightarrow> (go_error \<Rightarrow> string) \<Rightarrow> ctx_err option \<Rightarrow> ctx_err option \<Rightarrow>
   (TaskSuccessRequest \<Rightarrow> ClientError + TaskReportResponse) \<Rightarrow>
   (TaskFailureRequest \<Rightarrow> ClientError + TaskReportResponse) \<Rightarrow>
   (TaskExecution \<Rightarrow> go_error + TaskOutput) \<Rightarrow> protocol_TaskAssignment \<Rightarrow> ReportError option"
where
  "executeAndReport marshal message ctx1 ctx2 reportSuccess reportFailure run a =
     (case (case task_report marshal message ctx1 ctx2 a (run (Execution a)) of
              SuccessReport request \<Rightarrow> reportSuccess request
            | FailureReport request \<Rightarrow> reportFailure request) of
        Inl err \<Rightarrow> Some (ReportClient err)
      | Inr ack \<Rightarrow> if TaskReportResponse_Validate ack \<noteq> None then Some ReportNotAcknowledged else None)"

definition Client_ReportSuccess ::
  "Client \<Rightarrow> (string \<Rightarrow> ErrorResponse option) \<Rightarrow> (string \<Rightarrow> TaskReportResponse option) \<Rightarrow>
   (string \<Rightarrow> TaskSuccessRequest \<Rightarrow> go_error + httpResponse) \<Rightarrow> TaskSuccessRequest \<Rightarrow> ClientError + TaskReportResponse"
where
  "Client_ReportSuccess c decodeRejection decode exchange request =
     post c decodeRejection exchange TaskSuccessPath TaskSuccessRequest_Validate decode TaskReportResponse_Validate request"

definition Client_ReportFailure ::
  "Client \<Rightarrow> (string \<Rightarrow> ErrorResponse option) \<Rightarrow> (string \<Rightarrow> TaskReportResponse option) \<Rightarrow>
   (string \<Rightarrow> TaskFailureRequest \<Rightarrow> go_error + httpResponse) \<Rightarrow> TaskFailureRequest \<Rightarrow> ClientError + TaskReportResponse"
where
  "Client_ReportFailure c decodeRejection decode exchange request =
     post c decodeRejection exchange TaskFailurePath TaskFailureRequest_Validate decode TaskReportResponse_Validate request"

section \<open>Reports are well formed\<close>

text \<open>An input error of the runner names one of the assigned inputs and the task's own partition.\<close>

definition input_error_fits :: "protocol_TaskAssignment \<Rightarrow> go_error \<Rightarrow> bool" where
  "input_error_fits a err \<longleftrightarrow>
     (case errors_As_InputError err of
        None \<Rightarrow> True
      | Some (attempt, part) \<Rightarrow>
          (case pa_ShuffleInputs a of None \<Rightarrow> False | Some snap \<Rightarrow> attempt \<in> set (map mo_Attempt (is_Outputs snap))) \<and>
          part = task_PartitionID (pa_Task a))"

fun report_valid :: "taskReport \<Rightarrow> bool" where
  "report_valid (SuccessReport r) \<longleftrightarrow> TaskSuccessRequest_Validate r = None"
| "report_valid (FailureReport r) \<longleftrightarrow> TaskFailureRequest_Validate r = None"

lemma valid_assignment_facts:
  assumes "TaskAssignment_Validate a = None"
  shows "\<not> blank (pa_WorkerID a)" "0 \<le> task_PartitionID (pa_Task a)" "tai_TaskID (pa_Attempt a) = task_ID (pa_Task a)"
    "pa_StageID a = task_StageID (pa_Task a)"
  using assms
  by (auto simp: TaskAssignment_Validate_def TaskExecution_Validate_def Execution_def Let_def split: if_splits option.splits)

lemma encodeOutput_Inr:
  assumes "encodeOutput marshal kind res = Inr out1"
  shows "protocol_TaskOutput_Validate out1 = None \<and> po_ShuffleOutput out1 = None"
  using assms
  by (cases "encodeRecords marshal (case to_Records res of None \<Rightarrow> [] | Some rs \<Rightarrow> rs)"; cases kind)
    (auto simp: encodeOutput_def split: option.splits)

lemma task_outcome_valid:
  assumes a: "TaskAssignment_Validate a = None" and out: "task_outcome marshal a result = Inr out1"
  shows "TaskSuccessRequest_Validate (success_report a out1) = None"
proof -
  note f = valid_assignment_facts[OF a]
  from out obtain res where res: "result = Inr res" "ValidateFor res (Execution a) = None"
    by (auto simp: task_outcome_def split: sum.splits option.splits)
  show ?thesis
  proof (cases "task_StageKind (pa_Task a) = StageShuffleMap")
    case True
    then have "map_output_for (Execution a) res"
      using ValidateFor_map[of "Execution a" res] res(2) by (simp add: Execution_def)
    then obtain w m where m: "res = \<lparr>to_Records = None, to_Count = 0, to_ShuffleOutput = Some m\<rparr>"
      "MapOutput_Validate m = None" "mo_Attempt m = map_identity (Execution a) w"
      by (auto simp: map_output_for_def MapOutput_Validate_iff)
    with out res True f show ?thesis
      by (auto simp: task_outcome_def success_report_def TaskSuccessRequest_Validate_def protocol_validateReport_def
          validateWorker_def protocol_TaskOutput_Validate_def map_identity_def Execution_def Let_def)
  next
    case False
    with out res have "protocol_TaskOutput_Validate out1 = None \<and> po_ShuffleOutput out1 = None"
      by (auto simp: task_outcome_def split: option.splits dest: encodeOutput_Inr)
    with f show ?thesis
      by (simp add: success_report_def TaskSuccessRequest_Validate_def protocol_validateReport_def validateWorker_def)
  qed
qed

lemma ClassifyFailure_valid:
  assumes "ClassifyFailure ctx err = (kind, input)"
  shows "input = None \<and> kind \<in> {FailureExecution, FailurePermanent, FailureCanceled} \<or>
     kind = FailureShuffleInput \<and> (\<exists>attempt part. errors_As_InputError err = Some (attempt, part) \<and>
       input = Some \<lparr>ir_Attempt = attempt, ir_PartitionID = part\<rparr>)"
  using assms by (auto simp: ClassifyFailure_def split: if_splits option.splits prod.splits)

lemma input_error_identity:
  assumes "TaskAssignment_Validate a = None" "input_error_fits a err" "errors_As_InputError err = Some (attempt, part)"
  shows "identity_ok attempt" "ai_JobID attempt = pa_JobID a" "part = task_PartitionID (pa_Task a)"
    "\<exists>snap. pa_ShuffleInputs a = Some snap \<and> 0 \<le> ai_MapPartitionID attempt \<and>
       ai_MapPartitionID attempt < int (length (is_Outputs snap)) \<and>
       mo_Attempt (is_Outputs snap ! nat (ai_MapPartitionID attempt)) = attempt"
proof -
  from assms(2,3) obtain snap i where snap: "pa_ShuffleInputs a = Some snap" "i < length (is_Outputs snap)"
    "attempt = mo_Attempt (is_Outputs snap ! i)" and part: "part = task_PartitionID (pa_Task a)"
    by (auto simp: input_error_fits_def in_set_conv_nth split: option.splits)
  have ok: "snapshot_ok snap" "is_JobID snap = pa_JobID a"
    using assigned_snapshot[OF assms(1) snap(1)] by (simp_all add: InputSnapshot_Validate_iff)
  then show "identity_ok attempt" "ai_JobID attempt = pa_JobID a" "part = task_PartitionID (pa_Task a)"
    "\<exists>snap. pa_ShuffleInputs a = Some snap \<and> 0 \<le> ai_MapPartitionID attempt \<and>
       ai_MapPartitionID attempt < int (length (is_Outputs snap)) \<and>
       mo_Attempt (is_Outputs snap ! nat (ai_MapPartitionID attempt)) = attempt"
    using snap part by (auto simp: snapshot_ok_def snapshot_member_def output_ok_def identity_ok_def)
qed

lemma failure_report_valid:
  assumes a: "TaskAssignment_Validate a = None" and fits: "\<not> ran1 \<Longrightarrow> input_error_fits a err"
  shows "TaskFailureRequest_Validate (failure_report message ctx2 ran1 a err) = None \<longleftrightarrow> \<not> blank (message err)"
proof -
  note f = valid_assignment_facts[OF a]
  obtain kind input where c: "ClassifyFailure ctx2 err = (kind, input)" by fastforce
  define p where "p = (if ran1 \<and> kind \<noteq> FailureCanceled then (FailurePermanent, None) else (kind, input))"
  have "ValidateFailure (fst p) (snd p) = None \<and> (\<forall>ref. snd p = Some ref \<longrightarrow>
      ai_JobID (ir_Attempt ref) = pa_JobID a \<and> ir_PartitionID ref = task_PartitionID (pa_Task a))"
    using ClassifyFailure_valid[OF c] f(2) input_error_identity[OF a fits]
    by (auto simp: p_def ValidateFailure_iff)
  with f c show ?thesis
    by (auto simp: failure_report_def p_def[symmetric] TaskFailureRequest_Validate_def protocol_validateReport_def
        validateWorker_def split: option.splits prod.splits)
qed

text \<open>
  Every report that a worker sends for a valid assignment passes the validation that its own client
  and the coordinator apply: a success carries either the map output of exactly this attempt or a count
  or records in valid JSON, and a failure carries a category with a matching input reference. The one
  exception is the text of a failure: a report is refused exactly when the error that the task returned has a
  blank message. (Input errors of the runner must name an input of the job and the task's partition.)
\<close>

theorem worker_reports_valid:
  assumes "TaskAssignment_Validate a = None"
    and "\<forall>err. run (Execution a) = Inl err \<longrightarrow> input_error_fits a err"
  shows "report_valid (task_report marshal message ctx1 ctx2 a (run (Execution a))) \<longleftrightarrow>
     (\<forall>r. task_report marshal message ctx1 ctx2 a (run (Execution a)) = FailureReport r \<longrightarrow> \<not> blank (tfr_Error r))"
proof -
  let ?res = "run (Execution a)"
  have err_text: "tfr_Error (failure_report message ctx2 ran1 a err) = message err" for ran1 err
    by (simp add: failure_report_def split: prod.split)
  show ?thesis
  proof (cases "task_outcome marshal a ?res")
    case (Inl err)
    have "\<not> \<not> isl ?res \<Longrightarrow> input_error_fits a err"
      using Inl assms(2) by (auto simp: task_outcome_def isl_def)
    with Inl failure_report_valid[OF assms(1), of "\<not> isl ?res" err] show ?thesis
      by (simp add: task_report_def err_text)
  next
    case (Inr out1)
    then have ran1: "\<not> isl ?res" by (auto simp: task_outcome_def isl_def)
    with Inr failure_report_valid[OF assms(1), of "\<not> isl ?res"] task_outcome_valid[OF assms(1) Inr] show ?thesis
      by (cases ctx1) (simp_all add: task_report_def err_text)
  qed
qed

section \<open>A concrete worker\<close>

definition ex_config :: RuntimeConfig where
  "ex_config = \<lparr>cfg_WorkerID = ''w1'', cfg_Slots = 1, cfg_HeartbeatInterval = 100 * 10 ^ 6, cfg_RequestTimeout = 10 * 10 ^ 9\<rparr>"

definition ex_count_task :: Task where
  "ex_count_task = \<lparr>task_ID = 0, task_StageID = 0, task_StageKind = StageResult, task_PartitionID = 0, task_NumPartitions = 1,
     task_Operations = [\<lparr>so_Kind = StageOperationRDD, so_RDD = Some \<lparr>ro_RDDID = 0, ro_Operator =
       \<lparr>op_Kind = OpSource, op_FunctionID = [], op_SourcePath = ''in.txt''\<rparr>\<rparr>, so_ShuffleRead = None\<rparr>],
     task_ShuffleWrite = None, task_FinalAction = Some \<lparr>act_Kind = ActionCount, act_TargetRDD = 0\<rparr>\<rparr>"

definition ex_count_assignment :: protocol_TaskAssignment where
  "ex_count_assignment = \<lparr>pa_ShuffleInputs = None, pa_RunID = replicate 32 (CHR ''a''), pa_JobID = 7, pa_StageID = 0,
     pa_WorkerID = ''w1'', pa_Attempt = \<lparr>tai_ID = 0, tai_TaskID = 0, tai_StageAttemptID = 3\<rparr>, pa_Task = ex_count_task\<rparr>"

definition ex_polled :: workerProcess where
  "ex_polled = loop_tick ex_config (\<lambda>_. Inr \<lparr>hr_Assignments = Some [ex_count_assignment]\<rparr>) None newProcess"

lemma ex_count_assignment_valid: "TaskAssignment_Validate ex_count_assignment = None"
  by code_simp

theorem worker_never_overcommits_witness:
  "wk_running ex_polled = [0] \<and> wk_started ex_polled = [ex_count_assignment] \<and>
   ValidateCapacity (resourceOffer ex_config (rs_active (wk_state ex_polled))) (cfg_Slots ex_config) = None \<and>
   task_deliver ex_config 0 ex_polled \<noteq> None"
proof -
  have new: "NewRuntime (\<lambda>_. None) False None (ex_config\<lparr>cfg_HeartbeatInterval := 0\<rparr>) = Inr ex_config" by code_simp
  have "worker_init ex_config newProcess" using NewRuntime_config_ok[OF new] by (simp add: worker_init_def)
  then have "reach (worker_init ex_config) (worker_step ex_config) newProcess" by (rule reach_init)
  moreover have "worker_step ex_config newProcess ex_polled"
    unfolding ex_polled_def by (rule worker_tick) (simp add: newProcess_def)
  ultimately have "reach (worker_init ex_config) (worker_step ex_config) ex_polled" by (rule reach_step)
  note sound = worker_never_overcommits[OF new this]
  have run: "wk_running ex_polled = [0]" "wk_started ex_polled = [ex_count_assignment]" by code_simp+
  with sound show ?thesis by simp
qed

definition ex_run :: "TaskExecution \<Rightarrow> go_error + TaskOutput" where
  "ex_run e = Inr \<lparr>to_Records = None, to_Count = 4, to_ShuffleOutput = None\<rparr>"

theorem worker_reports_valid_witness:
  "report_valid (task_report (\<lambda>_. Inl ErrEOF) (\<lambda>_. ''failed'') None None ex_count_assignment (ex_run (Execution ex_count_assignment)))"
proof -
  have fits: "\<forall>err. ex_run (Execution ex_count_assignment) = Inl err \<longrightarrow> input_error_fits ex_count_assignment err"
    by (simp add: ex_run_def)
  note iff = worker_reports_valid[of ex_count_assignment ex_run "\<lambda>_. Inl ErrEOF" "\<lambda>_. ''failed''" None None,
      OF ex_count_assignment_valid fits]
  have "\<not> blank ''failed''" by code_simp
  then show ?thesis
    unfolding iff by (auto simp: task_report_def failure_report_def split: sum.splits prod.splits)
qed

definition ex_client :: Client where
  "ex_client = \<lparr>cl_baseURL = ''http://c'', cl_timeout = 10 * 10 ^ 9, cl_maxResponseBytes = 16\<rparr>"

definition ex_exchange :: "string \<Rightarrow> 'm \<Rightarrow> go_error + httpResponse" where
  "ex_exchange url m = Inr \<lparr>resp_Status = 200, resp_JSON = True, resp_Body = (''{}'', False)\<rparr>"

text \<open>
  A function that fails with a blank message ends the whole worker: the report of the failure does not
  pass the client's own validation, and \<open>executeAndReport\<close> returns an error that stops the runtime.
\<close>

theorem blank_error_stops_worker:
  "executeAndReport (\<lambda>_. Inl ErrEOF) (\<lambda>_. '' '') None None
     (Client_ReportSuccess ex_client (\<lambda>_. None) (\<lambda>_. Some \<lparr>tr_Acknowledged = True\<rparr>) ex_exchange)
     (Client_ReportFailure ex_client (\<lambda>_. None) (\<lambda>_. Some \<lparr>tr_Acknowledged = True\<rparr>) ex_exchange)
     (\<lambda>_. Inl (ErrorText '' '')) ex_count_assignment
   = Some (ReportClient (RequestInvalid ErrorMessageEmpty))"
  by code_simp

end
