(* ===== verification/Cluster.thy ===== *)
theory Cluster
  imports Coordinator Worker_Runtime
begin

text \<open>
  The coordinator and a worker together. The contract between them is the locale \<open>heartbeat_server\<close>:
  what the server must answer for the worker's \<open>poll\<close> to accept it. The task scheduler behind the
  HTTP handler meets it in every state that the two reach together, with any other workers, reports,
  expiries and cancellations in between, as long as the submitted task sets are made of tasks that pass the validation of the
  protocol (which \<open>Planned_Assignments\<close> shows of planned tasks).
\<close>

section \<open>What a task set asks for never changes\<close>

type_synonym setPlan = "InputSnapshot option \<times> taskSetKey \<times> Task list"

definition set_plan :: "fifoTaskSet \<Rightarrow> setPlan" where
  "set_plan ts = (fs_inputs ts, fs_key ts, map lt_task (fs_tasks ts))"

definition plan_at :: "FIFO \<Rightarrow> taskSetKey \<Rightarrow> setPlan option" where
  "plan_at s k = map_option set_plan (fmlookup (sets s) k)"

lemma plan_at_upd_set: "(\<And>ts. set_plan (f ts) = set_plan ts) \<Longrightarrow> plan_at (upd_set k f s) = plan_at s"
  by (rule ext) (simp add: plan_at_def upd_simps option.map_comp o_def)

lemma plan_at_cong: "sets s' = sets s \<Longrightarrow> plan_at s' = plan_at s"
  by (rule ext) (simp add: plan_at_def)

lemma plan_at_upd_task: "(\<And>t. lt_task (f t) = lt_task t) \<Longrightarrow> plan_at (upd_task k i f s) = plan_at s"
  unfolding upd_task_def by (rule plan_at_upd_set) (simp add: set_plan_def map_lt_task_update)

named_theorems plan_simps \<open>operations that keep the plans of task sets\<close>

lemma plan_at_basic [plan_simps]:
  "plan_at (upd_attempt a f s) = plan_at s" "plan_at (upd_worker w g s) = plan_at s"
  "plan_at (compactQueue s) = plan_at s" "plan_at (notify k s) = plan_at s" "plan_at (finish k e s) = plan_at s"
  "plan_at (release att st s) = plan_at s" "plan_at (assigned wid k ts i s) = plan_at s"
proof -
  show a: "plan_at (upd_attempt a f s) = plan_at s" "plan_at (upd_worker w g s) = plan_at s"
    "plan_at (compactQueue s) = plan_at s" for s a f w g
    by (rule plan_at_cong; simp add: upd_simps)+
  show n: "plan_at (notify k s) = plan_at s" for s k
    unfolding notify_def by (rule plan_at_upd_set) (simp add: set_plan_def)
  show "plan_at (finish k e s) = plan_at s"
    unfolding finish_def by (simp add: n plan_at_upd_set set_plan_def)
  show "plan_at (release att st s) = plan_at s"
    unfolding release_def by (simp add: a plan_at_upd_task)
  show "plan_at (assigned wid k ts i s) = plan_at s"
    unfolding plan_at_cong[OF assignTask_lookups(9)] by (rule plan_at_upd_task) simp
qed

lemma plan_at_reports [plan_simps]:
  "plan_at (succeedAttempt env att r s) = plan_at s" "plan_at (failAttempt env att f s) = plan_at s"
  by (auto simp: succeedAttempt_def failAttempt_def Let_def plan_simps plan_at_upd_set plan_at_upd_task set_plan_def
      split: option.splits)

text \<open>Together with the run identifier, this is all that assignments take from the state.\<close>

definition same_plans :: "FIFO \<Rightarrow> FIFO \<Rightarrow> bool" where
  "same_plans s s' \<longleftrightarrow> plan_at s' = plan_at s \<and> runID s' = runID s"

lemma same_plans_basic [plan_simps]:
  "same_plans s s" "same_plans s (finish k e t) = same_plans s t" "same_plans s (assigned wid k ts i t) = same_plans s t"
  "same_plans s (compactQueue t) = same_plans s t" "same_plans s (upd_worker w f t) = same_plans s t"
  "same_plans s (failAttempt env att r t) = same_plans s t"
  by (simp_all add: same_plans_def plan_simps upd_simps)

lemma same_plans_offerTasks: "offerTasks w k is (av, as, t) = (av', as', t') \<Longrightarrow> same_plans s t \<Longrightarrow> same_plans s t'"
proof (induction "is" arbitrary: av as t)
  case (Cons i rest)
  show ?case
  proof (cases "fmlookup (sets t) k")
    case (Some ts)
    obtain a t1 where at: "assignTask w k ts i t = (a, t1)" by fastforce
    have "same_plans s t1" using Cons.prems(2) same_plans_basic(3)[of s w k ts i t] at by simp
    with Cons Some at show ?thesis by (auto split: if_splits)
  qed (use Cons.prems in \<open>auto split: if_splits\<close>)
qed simp

lemma same_plans_offerSets: "offerSets env w ks (av, as, t) = (av', as', t') \<Longrightarrow> same_plans s t \<Longrightarrow> same_plans s t'"
proof (induction ks arbitrary: av as t)
  case (Cons k rest)
  show ?case
  proof (cases "fmlookup (sets t) k")
    case (Some ts)
    obtain av1 as1 t1 where o: "offerTasks w k [0..<length (fs_tasks ts)] (av, as, t) = (av1, as1, t1)"
      by (metis prod_cases3)
    show ?thesis
      using Cons Some same_plans_offerTasks[OF o Cons.prems(2)] o
      by (auto simp: plan_simps split: if_splits option.splits)
  qed (use Cons in auto)
qed simp

lemma same_plans_offer: "same_plans s (snd (OfferResources env now w free running s))"
  by (auto simp: OfferResources_def Let_def plan_simps dest!: same_plans_offerSets[where s = s]
      split: option.splits sum.splits prod.splits)

lemma same_plans_expireAttempts: "same_plans s t \<Longrightarrow> same_plans s (expireAttempts env w as t)"
  by (induction env w as t rule: expireAttempts.induct) (simp_all add: plan_simps split: option.splits)

lemma same_plans_loseWorkers: "same_plans s t \<Longrightarrow> same_plans s (fold (loseWorker env) ws t)"
  by (induction ws arbitrary: t) (simp_all add: loseWorker_def same_plans_expireAttempts plan_simps split: option.splits)

lemma same_plans_close: "same_plans s (Close s)"
proof -
  have "plan_at (Close s) k = plan_at s k" for k
    by (cases "fmlookup (sets s) k") (simp_all add: plan_at_def Close_def set_plan_def)
  then show ?thesis by (simp add: same_plans_def fun_eq_iff) (simp add: Close_def)
qed

text \<open>Every step keeps the run identifier and the plans of the sets it finds.\<close>

lemma plans_step:
  assumes "fifo_step s s'"
  shows "runID s' = runID s \<and> (\<forall>k p. plan_at s k = Some p \<longrightarrow> plan_at s' k = Some p)"
  using assms
proof (cases rule: fifo_step.cases)
  case (step_admit env c input observerNil)
  then show ?thesis
    by (auto simp: ScheduleTaskSet_admit_def plan_at_def fmdom_notD split: sum.splits option.splits if_splits)
next
  case (step_drain env key)
  have "plan_at (upd_set key (\<lambda>ts. ts\<lparr>fs_reports := []\<rparr>) s) = plan_at s" for s key
    by (rule plan_at_upd_set) (simp add: set_plan_def)
  moreover have "plan_at (s\<lparr>submissions := n\<rparr>) = plan_at s" for s n by (rule plan_at_cong) simp
  ultimately show ?thesis using step_drain
    by (auto simp: ScheduleTaskSet_drain_def Let_def plan_simps upd_simps split: option.splits if_splits)
next
  case (step_await env pick key)
  have "plan_at (upd_set key (\<lambda>ts. ts\<lparr>fs_wake := False\<rparr>) s) = plan_at s"
    by (rule plan_at_upd_set) (simp add: set_plan_def)
  then show ?thesis using step_await
    by (auto simp: ScheduleTaskSet_await_def upd_simps split: option.splits if_splits)
next
  case (step_register w slots now)
  have "plan_at (s\<lparr>registry := r\<rparr>) = plan_at s" for r by (rule plan_at_cong) simp
  then show ?thesis using step_register by (auto simp: RegisterWorker_def split: sum.splits)
next
  case (step_offer free env now w running)
  then show ?thesis using same_plans_offer[of s env now w free running] by (simp add: same_plans_def)
next
  case (step_expire envs now timeout)
  have "same_plans s (snd (ExpireWorkers envs now timeout s))"
    by (simp add: ExpireWorkers_def Let_def plan_simps same_plans_loseWorkers)
  then show ?thesis using step_expire by (simp add: same_plans_def)
next
  case step_close
  then show ?thesis using same_plans_close[of s] by (simp add: same_plans_def)
qed (auto simp: plan_simps upd_simps ReportSuccess_def ReportFailure_def split: sum.splits option.splits)

section \<open>Task sets that can be sent\<close>

definition sent_assignment :: "string \<Rightarrow> setPlan \<Rightarrow> Task \<Rightarrow> WorkerID \<Rightarrow> TaskAttemptID \<Rightarrow> protocol_TaskAssignment" where
  "sent_assignment rid p task w a =
     (case p of (inputs, key, _) \<Rightarrow>
        \<lparr>pa_ShuffleInputs = inputs, pa_RunID = rid, pa_JobID = k_job key, pa_StageID = k_stage key, pa_WorkerID = w,
         pa_Attempt = \<lparr>tai_ID = a, tai_TaskID = task_ID task, tai_StageAttemptID = k_attempt key\<rparr>, pa_Task = task\<rparr>)"

text \<open>The tasks have different identifiers, and each passes validation for every worker and attempt.\<close>

definition sendable_set :: "string \<Rightarrow> taskSetKey \<Rightarrow> setPlan \<Rightarrow> bool" where
  "sendable_set rid k p \<longleftrightarrow>
     fst (snd p) = k \<and> distinct (map task_ID (snd (snd p))) \<and>
     (\<forall>task \<in> set (snd (snd p)). \<forall>w a. \<not> blank w \<longrightarrow> TaskAssignment_Validate (sent_assignment rid p task w a) = None)"

definition sendable :: "FIFO \<Rightarrow> bool" where
  "sendable s \<longleftrightarrow> (\<forall>k p. plan_at s k = Some p \<longrightarrow> sendable_set (runID s) k p)"

text \<open>The sets that a step has admitted.\<close>

definition new_sets_sendable :: "FIFO \<Rightarrow> FIFO \<Rightarrow> bool" where
  "new_sets_sendable s s' \<longleftrightarrow> (\<forall>k p. plan_at s k = None \<longrightarrow> plan_at s' k = Some p \<longrightarrow> sendable_set (runID s') k p)"

lemma sendable_step:
  assumes "sendable s" "fifo_step s s'" "new_sets_sendable s s'"
  shows "sendable s'"
  unfolding sendable_def
proof (intro allI impI)
  fix k p assume p: "plan_at s' k = Some p"
  show "sendable_set (runID s') k p"
  proof (cases "plan_at s k")
    case None
    with assms(3) p show ?thesis unfolding new_sets_sendable_def by blast
  next
    case (Some q)
    then have "plan_at s' k = Some q" "runID s' = runID s" using plans_step[OF assms(2)] by blast+
    with p have "q = p" by simp
    with Some assms(1) have "sendable_set (runID s) k p" unfolding sendable_def by blast
    then show ?thesis using \<open>runID s' = runID s\<close> by simp
  qed
qed

lemma sendable_same: "sendable s \<Longrightarrow> same_plans s s' \<Longrightarrow> sendable s'"
  by (simp add: sendable_def same_plans_def)

section \<open>What an offer sends\<close>






section \<open>What an offer records\<close>

definition recs :: "FIFO \<Rightarrow> TaskAssignment list \<Rightarrow> bool" where
  "recs s as \<longleftrightarrow>
     (\<forall>a \<in> set as. \<exists>att. fmlookup (attempts s) (tai_ID (ta_Identity (as_Attempt a))) = Some att \<and> aa_assignment att = a)"

lemma recs_assigned:
  assumes "fifo_inv s" "recs s as"
  shows "recs (assigned w k ts i s) (as @ [fst (assignTask w k ts i s)])"
proof -
  have fresh: "fmlookup (attempts s) (nextAttempt s) = None"
    using assms(1) fresh_attempt by (simp add: fifo_inv_def base_inv_def)
  have "fst (assignTask w k ts i s) = new_assignment w ts i s"
    by (simp add: assignTask_def new_assignment_def Let_def)
  moreover have "tai_ID (ta_Identity (as_Attempt (new_assignment w ts i s))) = nextAttempt s"
    by (simp add: new_assignment_def Let_def)
  ultimately show ?thesis using assms(2) fresh by (fastforce simp: recs_def assignTask_lookups)
qed

lemma recs_offer:
  assumes "fifo_inv s" "unat (nextAttempt s) + nat free < 2 ^ 64"
    and "OfferResources env now w free running s = (Inr as, s')"
  shows "recs s' as"
proof -
  have "recs (finish k e s) as = recs s as" "recs (upd_worker w f s) as = recs s as" "recs (compactQueue s) as = recs s as"
    for s k e w f as by (simp_all add: recs_def upd_simps)
  then have "recs (snd (OfferResources env now w free running s))
      (case_sum (\<lambda>_. []) (\<lambda>as. as) (fst (OfferResources env now w free running s)))"
    by (intro OfferResources_keeps [where P = "\<lambda>as s. recs s as", OF _ _ _ _ assms(1,2)])
      (simp_all add: recs_assigned, simp add: recs_def)
  with assms(3) show ?thesis by simp
qed

text \<open>The coordinator has recorded exactly this assignment, whatever became of it since.\<close>

definition on_record :: "FIFO \<Rightarrow> protocol_TaskAssignment \<Rightarrow> bool" where
  "on_record s a \<longleftrightarrow> (\<exists>att. fmlookup (attempts s) (attempt_id a) = Some att \<and> wire_assignment (aa_assignment att) = a)"

lemma on_record_step:
  assumes "fifo_ok s" "fifo_step s s'" "on_record s a"
  shows "on_record s' a"
proof -
  obtain att where att: "fmlookup (attempts s) (attempt_id a) = Some att" "wire_assignment (aa_assignment att) = a"
    using assms(3) by (auto simp: on_record_def)
  then obtain att' where att': "fmlookup (attempts s') (attempt_id a) = Some att'" "same_attempt att att'"
    using grows_step[OF assms(1,2)] unfolding grows_def by blast
  have "fifo_ok s'" using fifo.inv_step[OF assms(1,2)] .
  then have ok: "assignment_ok s att" "assignment_ok s' att'"
    using assms(1) att(1) att'(1) by (auto simp: fifo_ok_def fifo_inv_def base_inv_def inv_assign_def)
  obtain ts where ts: "fmlookup (sets s) (aa_set att) = Some ts" "as_ShuffleInputs (aa_assignment att) = fs_inputs ts"
      "as_RunID (aa_assignment att) = runID s"
    using ok(1) unfolding assignment_ok_def by blast
  obtain ts' where ts': "fmlookup (sets s') (aa_set att') = Some ts'" "as_ShuffleInputs (aa_assignment att') = fs_inputs ts'"
      "as_RunID (aa_assignment att') = runID s'"
    using ok(2) unfolding assignment_ok_def by blast
  have "plan_at s (aa_set att) = Some (set_plan ts)" using ts(1) by (simp add: plan_at_def)
  then have "plan_at s' (aa_set att) = Some (set_plan ts)" "runID s' = runID s"
    using plans_step[OF assms(2)] by blast+
  with ts ts' att'(2) have "as_ShuffleInputs (aa_assignment att') = as_ShuffleInputs (aa_assignment att)"
      "as_RunID (aa_assignment att') = as_RunID (aa_assignment att)"
    by (auto simp: plan_at_def set_plan_def same_attempt_def)
  with att'(2) have "wire_assignment (aa_assignment att') = wire_assignment (aa_assignment att)"
    by (simp add: wire_assignment_def same_attempt_def)
  with att(2) att'(1) show ?thesis by (simp add: on_record_def)
qed

section \<open>Answering a heartbeat\<close>









definition answered :: "TaskAttemptID fset \<Rightarrow> HeartbeatRequest \<Rightarrow> HeartbeatResponse \<Rightarrow> bool" where
  "answered known r resp \<longleftrightarrow>
     HeartbeatResponse_Validate resp = None \<and> int (length (response_assignments resp)) \<le> hb_FreeSlots r \<and>
     (\<forall>a \<in> set (response_assignments resp). pa_WorkerID a = hb_WorkerID r \<and> attempt_id a |\<notin>| known)"




text \<open>What a handled heartbeat does, accepted or not.\<close>

lemma heartbeat_cases:
  assumes "heartbeat env now r s = (reply, s')"
  obtains (refused) status code where "reply = ErrorReply status code" "status \<noteq> 200"
      "s' = s \<or> s' = snd (OfferResources env now (hb_WorkerID r) (hb_FreeSlots r) (request_running r) s)"
    | (answered) as where "reply = HeartbeatReply \<lparr>hr_Assignments = Some (map wire_assignment as)\<rparr>"
      "OfferResources env now (hb_WorkerID r) (hb_FreeSlots r) (request_running r) s = (Inr as, s')"
proof -
  let ?o = "OfferResources env now (hb_WorkerID r) (hb_FreeSlots r) (request_running r) s"
  have err: "\<exists>status code. writeSchedulerError e = ErrorReply status code \<and> status \<noteq> 200" for e
    by (auto simp: writeSchedulerError_def split: fifoError.split WorkerError.split)
  have fail: thesis if "reply = writeSchedulerError e" "s' = s \<or> s' = snd ?o" for e
    using err[of e] that refused by metis
  show thesis
  proof (cases "Worker (hb_WorkerID r) s")
    case (Inl e)
    with assms fail[of "ErrWorker e"] show thesis by (simp add: heartbeat_def)
  next
    case (Inr worker)
    note w = Inr
    show thesis
    proof (cases "ValidateCapacity r (ws_TotalSlots worker)")
      case None
      obtain res s1 where o: "?o = (res, s1)" by fastforce
      with assms w None have h: "(case (res, s1) of
          (Inl err, s') \<Rightarrow> (writeSchedulerError err, s')
        | (Inr assignments, s') \<Rightarrow> (HeartbeatReply \<lparr>hr_Assignments = Some (map wire_assignment assignments)\<rparr>, s')) = (reply, s')"
        by (simp add: heartbeat_def request_running_def)
      show thesis
      proof (cases res)
        case (Inl e)
        with h o fail[of e] show thesis by simp
      next
        case (Inr as)
        with h o show thesis by (intro answered[of as]) simp_all
      qed
    next
      case (Some e)
      with assms w refused[of 400 CodeInvalidRequest] show thesis by (simp add: heartbeat_def)
    qed
  qed
qed

lemma heartbeat_step:
  assumes "heartbeat env now r s = (reply, s')" "fifo_ok s" "sendable s" "unat (nextAttempt s) + nat (hb_FreeSlots r) < 2 ^ 64"
  shows "fifo_ok s'" "sendable s'" "on_record s a \<Longrightarrow> on_record s' a"
    "reply = HeartbeatReply resp \<Longrightarrow> b \<in> set (response_assignments resp) \<Longrightarrow> on_record s' b"
proof -
  let ?o = "OfferResources env now (hb_WorkerID r) (hb_FreeSlots r) (request_running r) s"
  have step: "fifo_step s (snd ?o)" by (rule step_offer[OF assms(4)])
  have s': "s' = s \<or> s' = snd ?o" using assms(1) by (cases rule: heartbeat_cases) auto
  with fifo.inv_step[OF assms(2) step] assms(2) show "fifo_ok s'" by blast
  from s' sendable_same[OF assms(3) same_plans_offer] assms(3) show "sendable s'" by blast
  from s' on_record_step[OF assms(2) step] show "on_record s a \<Longrightarrow> on_record s' a" by blast
  assume reply: "reply = HeartbeatReply resp" and b: "b \<in> set (response_assignments resp)"
  from assms(1) show "on_record s' b"
  proof (cases rule: heartbeat_cases)
    case (answered as)
    then have "recs s' as" using recs_offer[OF _ assms(4) answered(2)] assms(2) by (simp add: fifo_ok_def)
    then show ?thesis
      using answered(1) reply b by (fastforce simp: response_assignments_def recs_def on_record_def wire_assignment_def)
  qed (use reply in simp)
qed


section \<open>The contract\<close>



section \<open>A coordinator and a worker\<close>

text \<open>How a reply leaves the handler. Encodings of the messages are arguments.\<close>

definition http_reply :: "(HeartbeatResponse \<Rightarrow> string) \<Rightarrow> (ErrorCode \<Rightarrow> string) \<Rightarrow> response \<Rightarrow> httpResponse" where
  "http_reply encode encodeError reply =
     (case reply of
        HeartbeatReply resp \<Rightarrow> \<lparr>resp_Status = 200, resp_JSON = True, resp_Body = (encode resp, False)\<rparr>
      | ErrorReply status code \<Rightarrow> \<lparr>resp_Status = status, resp_JSON = True, resp_Body = (encodeError code, False)\<rparr>
      | _ \<Rightarrow> \<lparr>resp_Status = 200, resp_JSON = False, resp_Body = ([], False)\<rparr>)"

record wire_config =
  wc_client :: Client
  wc_encode :: "HeartbeatResponse \<Rightarrow> string"
  wc_encodeError :: "ErrorCode \<Rightarrow> string"
  wc_decode :: "string \<Rightarrow> HeartbeatResponse option"
  wc_decodeError :: "string \<Rightarrow> ErrorResponse option"

definition heartbeat_client :: "wire_config \<Rightarrow> response \<Rightarrow> HeartbeatRequest \<Rightarrow> ClientError + HeartbeatResponse" where
  "heartbeat_client wc reply =
     Client_Heartbeat (wc_client wc) (wc_decodeError wc) (wc_decode wc)
       (\<lambda>_ _. Inr (http_reply (wc_encode wc) (wc_encodeError wc) reply))"

text \<open>A reply that fits the client's limit and decodes to what was encoded.\<close>

definition intact :: "wire_config \<Rightarrow> response \<Rightarrow> bool" where
  "intact wc reply \<longleftrightarrow>
     (\<forall>resp. reply = HeartbeatReply resp \<longrightarrow>
        wc_decode wc (wc_encode wc resp) = Some resp \<and>
        int (length (wc_encode wc resp)) \<le> cl_maxResponseBytes (wc_client wc))"

text \<open>
  The joint state is the scheduler's and that of one worker. The other workers, the job submissions and
  the monitor are steps of the scheduler. A heartbeat of the worker is answered by the handler; or the
  exchange fails, with or without a step of the scheduler that the worker does not hear of.
\<close>

type_synonym cluster = "FIFO \<times> workerProcess"

inductive cluster_step :: "RuntimeConfig \<Rightarrow> wire_config \<Rightarrow> cluster \<Rightarrow> cluster \<Rightarrow> bool"
  for config :: RuntimeConfig and wc :: wire_config
where
  cl_coordinator: "fifo_step s s' \<Longrightarrow> new_sets_sendable s s' \<Longrightarrow> cluster_step config wc (s, w) (s', w)"
| cl_heartbeat: "\<not> wk_stopped w \<Longrightarrow> intact wc reply \<Longrightarrow>
    unat (nextAttempt s) + nat (cfg_Slots config) < 2 ^ 64 \<Longrightarrow>
    heartbeat env now (resourceOffer config (rs_active (drainCompleted (wk_state w)))) s = (reply, s') \<Longrightarrow>
    cluster_step config wc (s, w) (s', loop_tick config (heartbeat_client wc reply) cause w)"
| cl_lost: "\<not> wk_stopped w \<Longrightarrow> cluster_step config wc (s, w) (s, loop_tick config (\<lambda>_. Inl (ExchangeFailed err)) cause w)"
| cl_completed: "\<not> wk_stopped w \<Longrightarrow> rs_completed (wk_state w) \<noteq> [] \<Longrightarrow>
    cluster_step config wc (s, w) (s, loop_completed w)"
| cl_deliver: "a \<in> set (wk_running w) \<Longrightarrow> task_deliver config a w = Some w' \<Longrightarrow> cluster_step config wc (s, w) (s, w')"
| cl_cancel: "cluster_step config wc (s, w) (s, w\<lparr>wk_stopped := True\<rparr>)"

definition cluster_init :: "RuntimeConfig \<Rightarrow> cluster \<Rightarrow> bool" where
  "cluster_init config = (\<lambda>(s, w). fifo_init s \<and> worker_init config w)"

definition cluster_inv :: "RuntimeConfig \<Rightarrow> cluster \<Rightarrow> bool" where
  "cluster_inv config = (\<lambda>(s, w). fifo_ok s \<and> sendable s \<and> worker_inv config w \<and>
     (\<forall>a \<in> set (wk_started w). on_record s a))"

lemma DecodeAndValidate_InrD:
  "DecodeAndValidate decode validate (Some (content, f)) n = Inr m \<Longrightarrow> decode content = Some m \<and> validate m = None"
  by (auto simp: DecodeAndValidate_def Let_def split: if_splits option.splits)

lemma heartbeat_client_Inr:
  assumes "heartbeat env now r s = (reply, s')" "intact wc reply" "heartbeat_client wc reply request = Inr resp"
  shows "reply = HeartbeatReply resp"
proof -
  have "post (wc_client wc) (wc_decodeError wc) (\<lambda>_ _. Inr (http_reply (wc_encode wc) (wc_encodeError wc) reply)) HeartbeatPath
      HeartbeatRequest_Validate (wc_decode wc) HeartbeatResponse_Validate request = Inr resp"
    using assms(3) by (auto simp: heartbeat_client_def Client_Heartbeat_def split: sum.splits if_splits)
  with assms(1,2) show ?thesis
    by (cases rule: heartbeat_cases)
      (auto simp: post_def http_reply_def intact_def split: option.splits if_splits sum.splits dest!: DecodeAndValidate_InrD)
qed

lemma loop_tick_started:
  assumes "a \<in> set (wk_started (loop_tick config client cause w))" "a \<notin> set (wk_started w)"
  obtains resp where "client (resourceOffer config (rs_active (drainCompleted (wk_state w)))) = Inr resp"
    "a \<in> set (response_assignments resp)"
  using assms by (auto simp: loop_tick_def poll_def Let_def split: sum.splits option.splits)

lemma resourceOffer_bounds:
  "hb_WorkerID (resourceOffer config active) = cfg_WorkerID config" "hb_FreeSlots (resourceOffer config active) \<le> cfg_Slots config"
  by (simp_all add: resourceOffer_def)

lemma cluster_inv_step:
  assumes "cluster_inv config x" "cluster_step config wc x y"
  shows "cluster_inv config y"
  using assms(2)
proof (cases rule: cluster_step.cases)
  case (cl_coordinator s s' w)
  then show ?thesis
    using assms(1) fifo.inv_step[of s s'] sendable_step[of s s'] on_record_step[of s s'] by (simp add: cluster_inv_def)
next
  case (cl_heartbeat w reply s env now s' cause)
  let ?r = "resourceOffer config (rs_active (drainCompleted (wk_state w)))"
  let ?w = "loop_tick config (heartbeat_client wc reply) cause w"
  have inv: "fifo_ok s" "sendable s" "worker_inv config w" "\<forall>a \<in> set (wk_started w). on_record s a"
    using assms(1) cl_heartbeat(1) by (simp_all add: cluster_inv_def)
  have "unat (nextAttempt s) + nat (hb_FreeSlots ?r) < 2 ^ 64"
    using cl_heartbeat(5) resourceOffer_bounds(2)[of config "rs_active (drainCompleted (wk_state w))"] by linarith
  note step = heartbeat_step[OF cl_heartbeat(6) inv(1,2) this]
  have "on_record s' a" if a: "a \<in> set (wk_started ?w)" for a
  proof (cases "a \<in> set (wk_started w)")
    case False
    obtain resp where "heartbeat_client wc reply ?r = Inr resp" "a \<in> set (response_assignments resp)"
      by (rule loop_tick_started[OF a False])
    with heartbeat_client_Inr[OF cl_heartbeat(6,4)] step(4) show ?thesis by blast
  qed (use inv(4) step(3) in blast)
  moreover have "worker_inv config ?w" using worker_inv_step[OF inv(3) worker_tick] cl_heartbeat(3) by blast
  ultimately show ?thesis using step(1,2) cl_heartbeat(2) by (simp add: cluster_inv_def)
next
  case (cl_lost w s err cause)
  let ?w = "loop_tick config (\<lambda>_. Inl (ExchangeFailed err)) cause w"
  have "worker_inv config ?w"
    using worker_inv_step[OF _ worker_tick] assms(1) cl_lost by (simp add: cluster_inv_def)
  moreover have "wk_started ?w = wk_started w" by (simp add: loop_tick_def poll_def Let_def split: option.split)
  ultimately show ?thesis using assms(1) cl_lost by (simp add: cluster_inv_def)
next
  case (cl_completed w s)
  moreover have "wk_started (loop_completed w) = wk_started w" by (simp add: loop_completed_def split: list.split)
  ultimately show ?thesis using assms(1) worker_inv_step[OF _ worker_completed] by (simp add: cluster_inv_def)
next
  case (cl_deliver a w w' s)
  moreover have "wk_started w' = wk_started w" using cl_deliver(4) by (auto simp: task_deliver_def split: if_splits)
  ultimately show ?thesis using assms(1) worker_inv_step[OF _ worker_deliver] by (auto simp: cluster_inv_def)
next
  case (cl_cancel s w)
  then show ?thesis using assms(1) worker_inv_step[OF _ worker_cancel] by (simp add: cluster_inv_def)
qed

lemma cluster_inv_init: "cluster_init config x \<Longrightarrow> cluster_inv config x"
proof -
  have "sendable s" if "fifo_init s" for s
    using that by (auto simp: fifo_init_def NewFIFOTaskScheduler_def sendable_def plan_at_def split: option.splits)
  moreover have "wk_started w = []" if "worker_init config w" for w
    using that by (simp add: worker_init_def newProcess_def)
  ultimately show "cluster_init config x \<Longrightarrow> cluster_inv config x"
    by (auto simp: cluster_init_def cluster_inv_def fifo_ok_init worker_inv_init)
qed

interpretation cluster: invariant_system "cluster_init config" "cluster_step config wc" "cluster_inv config" for config wc
  by unfold_locales (auto intro: cluster_inv_init cluster_inv_step)




section \<open>Reports come home\<close>






section \<open>A concrete run\<close>






















end
