(* ===== verification/Spec2Isabelle.thy ===== *)
theory Spec2Isabelle
  imports DAG_Properties Local_Scheduler Planned_Assignments Cluster
begin

text \<open>
  Verification of SparkCore Go.
\<close>

end
